(* ===== verification/Prelude.thy ===== *)
theory Prelude
  imports Main "HOL-Library.AList" "HOL-Library.Multiset" "HOL-Library.Word"
    "HOL-Library.Char_ord" "HOL-Library.List_Lexorder" "HOL-Library.Sublist"
    "HOL-Library.Code_Target_Numeral"
begin

text \<open>
  Shared vocabulary of the development: Go maps as association lists with distinct keys,
  the copy and range loops over them, machine integers, and the lemma collections the
  component theories extend.

  A Go map has no iteration order of its own: every \<open>range\<close> statement visits the keys
  in an order of the runtime's choice.  A map is modelled by the list of its entries in one
  such order.  A theorem that holds for every list with distinct keys therefore covers every
  iteration order of its input; where a component ranges over a map that an earlier step has
  built, a lemma shows that the outcome depends on the map only, not on the order.
\<close>

named_theorems gomap_simps "rewriting of lookups in Go maps"
named_theorems wf_intros "well-formedness of Go maps is preserved"
named_theorems step_defs "definitions of the steps of a component"

section \<open>Machine integers\<close>

text \<open>Go's \<open>int\<close> and \<open>int64\<close> (on a 64-bit platform) and \<open>uint64\<close>.\<close>

type_synonym i64 = "64 word"
type_synonym u64 = "64 word"

definition min_i64 :: int where "min_i64 = - (2 ^ 63)"
definition max_i64 :: int where "max_i64 = 2 ^ 63 - 1"

definition fits_i64 :: "int \<Rightarrow> bool" where
  "fits_i64 n \<longleftrightarrow> min_i64 \<le> n \<and> n \<le> max_i64"

lemma sint_of_int_i64: "fits_i64 n \<Longrightarrow> sint (word_of_int n :: i64) = n"
  by (simp add: fits_i64_def min_i64_def max_i64_def int_word_sint)

lemma fits_i64_sint [simp]: "fits_i64 (sint (w :: i64))"
  using sint_range_size [of w] by (simp add: fits_i64_def min_i64_def max_i64_def word_size)

section \<open>Go maps\<close>

type_synonym 'v gomap = "(string \<times> 'v) list"

abbreviation mget :: "('k \<times> 'v) list \<Rightarrow> 'k \<Rightarrow> 'v option" where
  "mget m k \<equiv> map_of m k"

abbreviation mput :: "'k \<Rightarrow> 'v \<Rightarrow> ('k \<times> 'v) list \<Rightarrow> ('k \<times> 'v) list" where
  "mput k v m \<equiv> AList.update k v m"

abbreviation mdel :: "'k \<Rightarrow> ('k \<times> 'v) list \<Rightarrow> ('k \<times> 'v) list" where
  "mdel k m \<equiv> AList.delete k m"

abbreviation mkeys :: "('k \<times> 'v) list \<Rightarrow> 'k list" where
  "mkeys m \<equiv> map fst m"

definition wf_map :: "('k \<times> 'v) list \<Rightarrow> bool" where
  "wf_map m \<longleftrightarrow> distinct (mkeys m)"

text \<open>Two lists that stand for the same map, in possibly different iteration orders.\<close>

definition same_map :: "('k \<times> 'v) list \<Rightarrow> ('k \<times> 'v) list \<Rightarrow> bool" where
  "same_map m n \<longleftrightarrow> wf_map m \<and> wf_map n \<and> map_of m = map_of n"

lemma wf_map_Nil [simp, wf_intros]: "wf_map []"
  by (simp add: wf_map_def)

lemma wf_map_Cons [simp]: "wf_map ((k, v) # m) \<longleftrightarrow> k \<notin> fst ` set m \<and> wf_map m"
  by (simp add: wf_map_def)

lemma wf_map_mput [simp, wf_intros]: "wf_map m \<Longrightarrow> wf_map (mput k v m)"
  by (simp add: wf_map_def distinct_update)

lemma wf_map_mdel [simp, wf_intros]: "wf_map m \<Longrightarrow> wf_map (mdel k m)"
  by (simp add: wf_map_def distinct_delete)

lemma mget_mput [simp, gomap_simps]: "mget (mput k v m) k' = (if k' = k then Some v else mget m k')"
  by (simp add: update_conv')

lemma mget_mdel [simp, gomap_simps]: "mget (mdel k m) k' = (if k' = k then None else mget m k')"
  by (simp add: delete_conv')

lemma mput_fresh: "k \<notin> fst ` set m \<Longrightarrow> mput k v m = m @ [(k, v)]"
  by (induction m) auto

lemma mget_None_iff: "mget m k = None \<longleftrightarrow> k \<notin> set (mkeys m)"
  by (simp add: map_of_eq_None_iff)

lemma wf_map_mget_iff: "wf_map m \<Longrightarrow> mget m k = Some v \<longleftrightarrow> (k, v) \<in> set m"
  by (simp add: wf_map_def)

lemma same_map_set: "same_map m n \<Longrightarrow> set m = set n"
  by (auto simp: same_map_def simp flip: wf_map_mget_iff)

lemma same_map_mset: "same_map m n \<Longrightarrow> mset m = mset n"
  using same_map_set [of m n]
  by (simp add: same_map_def wf_map_def distinct_map set_eq_iff_mset_eq_distinct)

lemma same_map_refl: "wf_map m \<Longrightarrow> same_map m m"
  by (simp add: same_map_def)

section \<open>Loops that fill a map\<close>

text \<open>
  The statement \<open>for k, v := range src { dst[k] = v }\<close>; \<open>mcopy\<close> is the copy loop into
  a fresh map that the code repeats in many places.
\<close>

fun mput_all :: "('k \<times> 'v) list \<Rightarrow> ('k \<times> 'v) list \<Rightarrow> ('k \<times> 'v) list" where
  "mput_all dst [] = dst"
| "mput_all dst ((k, v) # src) = mput_all (mput k v dst) src"

definition mcopy :: "('k \<times> 'v) list \<Rightarrow> ('k \<times> 'v) list" where
  "mcopy src = mput_all [] src"

lemma wf_map_mput_all [simp, wf_intros]: "wf_map dst \<Longrightarrow> wf_map (mput_all dst src)"
  by (induction dst src rule: mput_all.induct) auto

lemma mget_mput_all:
  "wf_map src \<Longrightarrow>
     mget (mput_all dst src) k = (case mget src k of None \<Rightarrow> mget dst k | Some v \<Rightarrow> Some v)"
  by (induction dst src rule: mput_all.induct)
     (auto simp flip: map_of_eq_None_iff split: option.splits)

lemma mput_all_disjoint:
  "wf_map src \<Longrightarrow> fst ` set src \<inter> fst ` set dst = {} \<Longrightarrow> mput_all dst src = dst @ src"
  by (induction dst src rule: mput_all.induct) (auto simp: mput_fresh)

lemma mcopy_id [simp, gomap_simps]: "wf_map m \<Longrightarrow> mcopy m = m"
  by (simp add: mcopy_def mput_all_disjoint)

lemma wf_map_mcopy [simp, wf_intros]: "wf_map (mcopy m)"
  by (simp add: mcopy_def)

lemma wf_map_map_snd [simp, wf_intros]: "wf_map (map (\<lambda>(k, v). (k, f v)) m) \<longleftrightarrow> wf_map m"
  by (simp add: wf_map_def o_def case_prod_beta)

lemma mget_map_snd [simp, gomap_simps]:
  "mget (map (\<lambda>(k, v). (k, f v)) m) k = map_option f (mget m k)"
  by (induction m) auto

section \<open>Folds over the entries of a map\<close>

text \<open>
  A loop body that commutes for different keys gives the same result in every iteration
  order.  This is the lemma behind the order-independence results of the components.
\<close>

lemma fold_permute:
  assumes comm: "\<And>x y s. x \<in> set xs \<Longrightarrow> y \<in> set xs \<Longrightarrow> f x (f y s) = f y (f x s)"
    and perm: "mset xs = mset ys"
  shows "fold f xs s = fold f ys s"
  by (rule fold_permuted_eq [where P = "\<lambda>_. True"]) (auto simp: comm perm)

section \<open>Counting the processes of a list\<close>

lemma count_list_update:
  "i < length xs \<Longrightarrow>
     length (filter P (xs[i := y])) + (if P (xs ! i) then 1 else 0) = length (filter P xs) + (if P y then 1 else 0)"
proof (induction xs arbitrary: i)
  case (Cons x xs)
  then show ?case using Cons.IH [of "i - 1"] by (cases i) auto
qed simp

end
