(* ===== verification/GoFloat.thy ===== *)
theory GoFloat
  imports Prelude
begin

text \<open>
  Go's \<open>float64\<close>: IEEE-754 binary64 values with round-to-nearest-even arithmetic, as far as
  the library uses them (\<open>float64ToStr\<close>, \<open>strconv.ParseFloat\<close>, \<open>time.ParseDuration\<close>,
  conversions to and from \<open>int64\<close>, comparisons in the validators).  Every operation is
  computed exactly on integers and rounded once, as the standard prescribes.
\<close>

section \<open>Representation\<close>

text \<open>
  \<open>FFin s m e\<close> is the finite value with sign bit \<open>s\<close> and magnitude \<open>m * 2^e\<close>.  Values
  built by \<open>f64_round\<close> are canonical: \<open>m < 2^53\<close>, \<open>-1074 \<le> e \<le> 971\<close>, and \<open>m \<ge> 2^52\<close>
  unless \<open>e = -1074\<close>.
\<close>

datatype float64 = FFin bool nat int | FInf bool | FNaN

definition f64_canonical :: "float64 \<Rightarrow> bool" where
  "f64_canonical x = (case x of
      FFin s m e \<Rightarrow> m < 2 ^ 53 \<and> - 1074 \<le> e \<and> e \<le> 971 \<and> (2 ^ 52 \<le> m \<or> e = - 1074)
    | _ \<Rightarrow> True)"

section \<open>Rounding\<close>

text \<open>The position of the highest set bit (0 for 0 and 1).\<close>

fun nat_log2 :: "nat \<Rightarrow> nat" where
  "nat_log2 n = (if n < 2 then 0 else Suc (nat_log2 (n div 2)))"

declare nat_log2.simps [simp del]

text \<open>The integer nearest to \<open>p / q\<close>, ties to even.\<close>

definition round_half_even :: "nat \<Rightarrow> nat \<Rightarrow> nat" where
  "round_half_even p q =
     (let d = p div q; r = p mod q
      in if 2 * r < q \<or> 2 * r = q \<and> even d then d else Suc d)"

text \<open>The fraction \<open>p / q\<close> divided by \<open>2^e\<close>, and a fraction for \<open>m * 2^e\<close>.\<close>

definition scale2 :: "nat \<Rightarrow> nat \<Rightarrow> int \<Rightarrow> nat \<times> nat" where
  "scale2 p q e = (if 0 \<le> e then (p, q * 2 ^ nat e) else (p * 2 ^ nat (- e), q))"

definition frac2 :: "nat \<Rightarrow> int \<Rightarrow> nat \<times> nat" where
  "frac2 m e = (if 0 \<le> e then (m * 2 ^ nat e, 1) else (m, 2 ^ nat (- e)))"

text \<open>The float64 nearest to \<open>p / q\<close> with sign \<open>s\<close>; overflow gives an infinity.\<close>

definition f64_exponent :: "nat \<Rightarrow> nat \<Rightarrow> int" where
  "f64_exponent p q =
     (let e0 = int (nat_log2 p) - int (nat_log2 q) - 52; pq = scale2 p q e0
      in max (if fst pq < 2 ^ 52 * snd pq then e0 - 1 else e0) (- 1074))"

definition f64_round :: "bool \<Rightarrow> nat \<Rightarrow> nat \<Rightarrow> float64" where
  "f64_round s p q =
     (if p = 0 then FFin s 0 (- 1074)
      else let e = f64_exponent p q; pq = scale2 p q e; m = round_half_even (fst pq) (snd pq)
           in if m = 2 ^ 53 then (if 971 \<le> e then FInf s else FFin s (2 ^ 52) (e + 1))
              else if 971 < e then FInf s else FFin s m e)"

section \<open>Conversions\<close>

definition f64_of_int :: "int \<Rightarrow> float64" where
  "f64_of_int n = f64_round (n < 0) (nat \<bar>n\<bar>) 1"

text \<open>
  Go's conversion \<open>int64(x)\<close> truncates towards zero.  A value that does not fit is
  implementation-specific in Go; amd64 gives the least int64, which is taken here.
\<close>

definition f64_to_i64 :: "float64 \<Rightarrow> int" where
  "f64_to_i64 x = (case x of
      FFin s m e \<Rightarrow>
        (let n = int (fst (frac2 m e) div snd (frac2 m e)); k = (if s then - n else n)
         in if fits_i64 k then k else min_i64)
    | _ \<Rightarrow> min_i64)"

section \<open>Arithmetic and comparison\<close>

text \<open>A finite value as \<open>n * 2^e\<close> with a signed \<open>n\<close>.\<close>

definition signed_mant :: "bool \<Rightarrow> nat \<Rightarrow> int" where
  "signed_mant s m = (if s then - int m else int m)"

definition f64_of_dyadic :: "bool \<Rightarrow> int \<Rightarrow> int \<Rightarrow> float64" where
  "f64_of_dyadic z n e =
     (let pq = frac2 (nat \<bar>n\<bar>) e
      in if n = 0 then FFin z 0 (- 1074) else f64_round (n < 0) (fst pq) (snd pq))"

fun f64_neg :: "float64 \<Rightarrow> float64" where
  "f64_neg (FFin s m e) = FFin (\<not> s) m e"
| "f64_neg (FInf s) = FInf (\<not> s)"
| "f64_neg FNaN = FNaN"

fun f64_add :: "float64 \<Rightarrow> float64 \<Rightarrow> float64" where
  "f64_add (FFin s1 m1 e1) (FFin s2 m2 e2) =
     (let e = min e1 e2
      in f64_of_dyadic (s1 \<and> s2)
           (signed_mant s1 m1 * 2 ^ nat (e1 - e) + signed_mant s2 m2 * 2 ^ nat (e2 - e)) e)"
| "f64_add (FInf s) (FFin _ _ _) = FInf s"
| "f64_add (FFin _ _ _) (FInf s) = FInf s"
| "f64_add (FInf s1) (FInf s2) = (if s1 = s2 then FInf s1 else FNaN)"
| "f64_add _ _ = FNaN"

definition f64_sub :: "float64 \<Rightarrow> float64 \<Rightarrow> float64" where
  "f64_sub x y = f64_add x (f64_neg y)"

fun f64_mul :: "float64 \<Rightarrow> float64 \<Rightarrow> float64" where
  "f64_mul (FFin s1 m1 e1) (FFin s2 m2 e2) =
     f64_of_dyadic (s1 \<noteq> s2) (signed_mant s1 m1 * signed_mant s2 m2) (e1 + e2)"
| "f64_mul (FInf s1) (FFin s2 m _) = (if m = 0 then FNaN else FInf (s1 \<noteq> s2))"
| "f64_mul (FFin s1 m _) (FInf s2) = (if m = 0 then FNaN else FInf (s1 \<noteq> s2))"
| "f64_mul (FInf s1) (FInf s2) = FInf (s1 \<noteq> s2)"
| "f64_mul _ _ = FNaN"

fun f64_div :: "float64 \<Rightarrow> float64 \<Rightarrow> float64" where
  "f64_div (FFin s1 m1 e1) (FFin s2 m2 e2) =
     (if m2 = 0 then (if m1 = 0 then FNaN else FInf (s1 \<noteq> s2))
      else let a = frac2 m1 e1; b = frac2 m2 e2
           in f64_round (s1 \<noteq> s2) (fst a * snd b) (snd a * fst b))"
| "f64_div (FInf s1) (FFin s2 _ _) = FInf (s1 \<noteq> s2)"
| "f64_div (FFin s1 _ _) (FInf s2) = FFin (s1 \<noteq> s2) 0 (- 1074)"
| "f64_div _ _ = FNaN"

fun f64_lt :: "float64 \<Rightarrow> float64 \<Rightarrow> bool" where
  "f64_lt (FFin s1 m1 e1) (FFin s2 m2 e2) =
     (let e = min e1 e2
      in signed_mant s1 m1 * 2 ^ nat (e1 - e) < signed_mant s2 m2 * 2 ^ nat (e2 - e))"
| "f64_lt (FInf s) (FFin _ _ _) = s"
| "f64_lt (FFin _ _ _) (FInf s) = (\<not> s)"
| "f64_lt (FInf s1) (FInf s2) = (s1 \<and> \<not> s2)"
| "f64_lt _ _ = False"

fun f64_eq :: "float64 \<Rightarrow> float64 \<Rightarrow> bool" where
  "f64_eq (FFin s1 m1 e1) (FFin s2 m2 e2) = (m1 = 0 \<and> m2 = 0 \<or> s1 = s2 \<and> m1 = m2 \<and> e1 = e2)"
| "f64_eq (FInf s1) (FInf s2) = (s1 = s2)"
| "f64_eq _ _ = False"

section \<open>Lemmas\<close>

lemma nat_log2_bounds: "0 < n \<Longrightarrow> 2 ^ nat_log2 n \<le> n \<and> n < 2 ^ Suc (nat_log2 n)"
proof (induction n rule: nat_log2.induct)
  case (1 n)
  show ?case
  proof (cases "n < 2")
    case True
    with "1.prems" show ?thesis by (simp add: nat_log2.simps)
  next
    case False
    then have "2 ^ nat_log2 (n div 2) \<le> n div 2 \<and> n div 2 < 2 ^ Suc (nat_log2 (n div 2))"
      using "1.IH" by simp
    then show ?thesis using False by (subst (1 2) nat_log2.simps) auto
  qed
qed

lemma round_half_even_bounds:
  "0 < q \<Longrightarrow> p div q \<le> round_half_even p q \<and> round_half_even p q \<le> Suc (p div q)"
  by (simp add: round_half_even_def Let_def)

lemma f64_eq_refl: "x \<noteq> FNaN \<Longrightarrow> f64_eq x x"
  by (cases x) auto

lemma f64_eq_sym: "f64_eq x y \<longleftrightarrow> f64_eq y x"
  by (cases x; cases y) auto

lemma f64_lt_irrefl [simp]: "\<not> f64_lt x x"
  by (cases x) auto

end
