(* ===== verification/GoTime.thy ===== *)
theory GoTime
  imports GoStd
begin

text \<open>
  \<open>strconv.ParseFloat\<close>, \<open>time.ParseDuration\<close>, \<open>Duration.String\<close> and the RFC 3339 text of a
  timestamp.  Durations are nanoseconds; a \<open>time.Time\<close> is the number of nanoseconds since
  the zero time (1 January of year 1, UTC), so the zero time is 0 and \<open>Before\<close>, \<open>After\<close>
  are the order of the integers.  Locations other than UTC are not modelled.
\<close>

section \<open>ParseFloat\<close>

definition is_hex_digit :: "char \<Rightarrow> bool" where
  "is_hex_digit c \<longleftrightarrow> is_digit c \<or> (97 \<le> byte (to_lower_char c) \<and> byte (to_lower_char c) \<le> 102)"

definition hex_val :: "char \<Rightarrow> nat" where
  "hex_val c = (if is_digit c then byte c - 48 else byte (to_lower_char c) - 87)"

text \<open>
  The digits before the exponent: whether there was a dot, whether a digit was seen, the
  mantissa read so far and the digits after the dot; returns the rest of the text as well.
\<close>

fun scan_mantissa :: "bool \<Rightarrow> bool \<Rightarrow> bool \<Rightarrow> nat \<Rightarrow> nat \<Rightarrow> string \<Rightarrow> bool \<times> nat \<times> nat \<times> string" where
  "scan_mantissa hex dot saw m fd [] = (saw, m, fd, [])"
| "scan_mantissa hex dot saw m fd (c # s) =
     (if c = CHR ''_'' then scan_mantissa hex dot saw m fd s
      else if c = CHR ''.'' then
        (if dot then (saw, m, fd, c # s) else scan_mantissa hex True saw m fd s)
      else if is_digit c then
        scan_mantissa hex dot True ((if hex then 16 else 10) * m + digit_val c) (if dot then Suc fd else fd) s
      else if hex \<and> is_hex_digit c then
        scan_mantissa hex dot True (16 * m + hex_val c) (if dot then Suc fd else fd) s
      else (saw, m, fd, c # s))"

fun scan_exponent :: "nat \<Rightarrow> string \<Rightarrow> nat \<times> string" where
  "scan_exponent e [] = (e, [])"
| "scan_exponent e (c # s) =
     (if c = CHR ''_'' then scan_exponent e s
      else if is_digit c then scan_exponent (if e < 10000 then 10 * e + digit_val c else e) s
      else (e, c # s))"

text \<open>Underscores only between digits; the last character seen is a digit, an underscore or another.\<close>

datatype last_seen = SawDigit | SawUnderscore | SawOther

fun underscore_loop :: "bool \<Rightarrow> last_seen \<Rightarrow> string \<Rightarrow> bool" where
  "underscore_loop hex l [] = (l \<noteq> SawUnderscore)"
| "underscore_loop hex l (c # s) =
     (if is_digit c \<or> hex \<and> is_hex_digit c then underscore_loop hex SawDigit s
      else if c = CHR ''_'' then l = SawDigit \<and> underscore_loop hex SawUnderscore s
      else l \<noteq> SawUnderscore \<and> underscore_loop hex SawOther s)"

definition drop_sign :: "string \<Rightarrow> string" where
  "drop_sign s = (case s of c # r \<Rightarrow> if c = CHR ''-'' \<or> c = CHR ''+'' then r else s | [] \<Rightarrow> s)"

definition has_base_prefix :: "string \<Rightarrow> bool" where
  "has_base_prefix s =
     (case s of z # b # _ \<Rightarrow> z = CHR ''0'' \<and> to_lower_char b \<in> set ''box'' | _ \<Rightarrow> False)"

definition underscore_ok :: "string \<Rightarrow> bool" where
  "underscore_ok s =
     (let r = drop_sign s
      in if has_base_prefix r
         then underscore_loop (to_lower_char (r ! 1) = CHR ''x'') SawDigit (drop 2 r)
         else underscore_loop False SawOther r)"

definition float_value :: "bool \<Rightarrow> bool \<Rightarrow> nat \<Rightarrow> int \<Rightarrow> float64" where
  "float_value hex neg m e =
     (let b = (if hex then 2 else 10 :: nat)
      in if 0 \<le> e then f64_round neg (m * b ^ nat e) 1 else f64_round neg m (b ^ nat (- e)))"

text \<open>The number after the sign; \<open>None\<close> when it is not well-formed or not fully consumed.\<close>

definition parse_float_body :: "bool \<Rightarrow> string \<Rightarrow> float64 option" where
  "parse_float_body neg s =
     (let hex = (2 < length s \<and> s ! 0 = CHR ''0'' \<and> to_lower_char (s ! 1) = CHR ''x'')
      in case scan_mantissa hex False False 0 0 (if hex then drop 2 s else s) of (saw, m, fd, rest) \<Rightarrow>
        let point = (if hex then 4 * int fd else int fd)
        in if \<not> saw then None
           else case rest of
             [] \<Rightarrow> (if hex then None else Some (float_value hex neg m (- point)))
           | c # r \<Rightarrow>
               (if to_lower_char c \<noteq> (if hex then CHR ''p'' else CHR ''e'') then None
                else let digits = drop_sign r; eneg = (r \<noteq> [] \<and> hd r = CHR ''-'')
                  in if digits = [] \<or> \<not> is_digit (hd digits) then None
                     else case scan_exponent 0 digits of (e, rest') \<Rightarrow>
                       if rest' \<noteq> [] then None
                       else Some (float_value hex neg m ((if eneg then - int e else int e) - point))))"

definition parse_float :: "string \<Rightarrow> float64 option" where
  "parse_float s =
     (let neg = (s \<noteq> [] \<and> hd s = CHR ''-''); body = drop_sign s; low = to_lower body
      in if low = ''inf'' \<or> low = ''infinity'' then Some (FInf neg)
         else if to_lower s = ''nan'' then Some FNaN
         else if CHR ''_'' \<in> set s \<and> \<not> underscore_ok s then None
         else case parse_float_body neg body of
           Some (FInf _) \<Rightarrow> None
         | r \<Rightarrow> r)"

section \<open>Durations\<close>

definition micro_sign :: string where "micro_sign = [chr 194, chr 181]"
definition greek_mu :: string where "greek_mu = [chr 206, chr 188]"

definition unit_ns :: "string \<Rightarrow> nat option" where
  "unit_ns u =
     (if u = ''ns'' then Some 1
      else if u = ''us'' \<or> u = micro_sign @ ''s'' \<or> u = greek_mu @ ''s'' then Some 1000
      else if u = ''ms'' then Some 1000000
      else if u = ''s'' then Some 1000000000
      else if u = ''m'' then Some 60000000000
      else if u = ''h'' then Some 3600000000000
      else None)"

text \<open>\<open>leadingFraction\<close>: digits after the point, with the scale as a float64.\<close>

fun leading_fraction :: "nat \<Rightarrow> float64 \<Rightarrow> bool \<Rightarrow> string \<Rightarrow> nat \<times> float64 \<times> string" where
  "leading_fraction x scale ovf [] = (x, scale, [])"
| "leading_fraction x scale ovf (c # s) =
     (if \<not> is_digit c then (x, scale, c # s)
      else if ovf \<or> (2 ^ 63 - 1) div 10 < x \<or> 2 ^ 63 < 10 * x + digit_val c
        then leading_fraction x scale True s
      else leading_fraction (10 * x + digit_val c) (f64_mul scale (f64_of_int 10)) ovf s)"

lemma leading_fraction_length: "leading_fraction x sc ovf s = (y, sc', r) \<Longrightarrow> length r \<le> length s"
  by (induction x sc ovf s arbitrary: y sc' r rule: leading_fraction.induct)
     (fastforce split: if_splits simp del: f64_mul.simps)+

definition unit_char :: "char \<Rightarrow> bool" where "unit_char c \<longleftrightarrow> \<not> (c = CHR ''.'' \<or> is_digit c)"

text \<open>One component: the digits, the fraction and the unit; nanoseconds and the rest.\<close>

definition parse_component :: "string \<Rightarrow> (nat \<times> string) option" where
  "parse_component s =
     (let ds = takeWhile is_digit s; s1 = dropWhile is_digit s; v = digits_val ds;
          dot = (s1 \<noteq> [] \<and> hd s1 = CHR ''.'')
      in case (if dot then leading_fraction 0 (f64_of_int 1) False (tl s1) else (0, f64_of_int 1, s1)) of
        (f, scale, s2) \<Rightarrow>
          let post = (dot \<and> length s2 \<noteq> length (tl s1)); u = takeWhile unit_char s2
          in if 2 ^ 63 < v \<or> ds = [] \<and> \<not> post \<or> u = [] then None
             else case unit_ns u of None \<Rightarrow> None
               | Some unit \<Rightarrow>
                   let extra = (if 0 < f
                         then nat (f64_to_i64 (f64_mul (f64_of_int (int f)) (f64_div (f64_of_int (int unit)) scale)))
                         else 0);
                       v' = v * unit + extra
                   in if 2 ^ 63 div unit < v \<or> 2 ^ 63 < v' then None
                      else Some (v', dropWhile unit_char s2))"

lemma parse_component_length: "parse_component s = Some (v, r) \<Longrightarrow> length r < length s"
proof -
  assume a: "parse_component s = Some (v, r)"
  let ?s1 = "dropWhile is_digit s"
  let ?dot = "?s1 \<noteq> [] \<and> hd ?s1 = CHR ''.''"
  obtain f sc s2 where l: "(if ?dot then leading_fraction 0 (f64_of_int 1) False (tl ?s1) else (0, f64_of_int 1, ?s1)) = (f, sc, s2)"
    by (cases "if ?dot then leading_fraction 0 (f64_of_int 1) False (tl ?s1) else (0, f64_of_int 1, ?s1)") auto
  have s2: "length s2 \<le> length s"
    using l leading_fraction_length [of 0 _ False "tl ?s1" f sc s2] length_dropWhile_le [of is_digit s]
    by (auto split: if_splits dest: leading_fraction_length)
  from a l have u: "takeWhile unit_char s2 \<noteq> []" and r: "r = dropWhile unit_char s2"
    by (auto simp: parse_component_def Let_def split: if_splits option.splits)
  have "length s2 = length (takeWhile unit_char s2) + length r"
    using r takeWhile_dropWhile_id [of unit_char s2] by (metis length_append)
  with u s2 show "length r < length s" by (cases "takeWhile unit_char s2") auto
qed

function parse_components :: "nat \<Rightarrow> string \<Rightarrow> nat option" where
  "parse_components d s =
     (if s = [] then Some d
      else case parse_component s of
        None \<Rightarrow> None
      | Some (v, r) \<Rightarrow>
          let d' = (d + v) mod 2 ^ 64 in if 2 ^ 63 < d' then None else parse_components d' r)"
  by pat_completeness auto
termination
  by (relation "measure (\<lambda>(d, s). length s)") (auto dest: parse_component_length)

declare parse_components.simps [simp del]

text \<open>\<open>time.ParseDuration\<close>, in nanoseconds; \<open>None\<close> stands for its errors.\<close>

definition parse_duration :: "string \<Rightarrow> int option" where
  "parse_duration s =
     (let neg = (s \<noteq> [] \<and> hd s = CHR ''-''); body = drop_sign s
      in if body = ''0'' then Some 0
         else if body = [] then None
         else case parse_components 0 body of
           None \<Rightarrow> None
         | Some d \<Rightarrow> if neg then Some (- int d) else if 2 ^ 63 - 1 < d then None else Some (int d))"

text \<open>The fraction digits of \<open>v / 10^prec\<close> without trailing zeros, with the point.\<close>

fun frac_digits :: "nat \<Rightarrow> nat \<Rightarrow> bool \<Rightarrow> string \<Rightarrow> string" where
  "frac_digits 0 v pr acc = (if pr then CHR ''.'' # acc else acc)"
| "frac_digits (Suc n) v pr acc =
     (let d = v mod 10; pr' = (pr \<or> d \<noteq> 0)
      in frac_digits n (v div 10) pr' (if pr' then digit_char d # acc else acc))"

definition duration_str :: "int \<Rightarrow> string" where
  "duration_str d =
     (let u = nat \<bar>d\<bar>;
          body =
            (if u = 0 then ''0s''
             else if u < 1000 then nat_str u @ ''ns''
             else if u < 1000000 then nat_str (u div 1000) @ frac_digits 3 u False [] @ micro_sign @ ''s''
             else if u < 1000000000 then nat_str (u div 1000000) @ frac_digits 6 u False [] @ ''ms''
             else let sec = u div 1000000000; mins = sec div 60; hrs = mins div 60;
                      tail = nat_str (sec mod 60) @ frac_digits 9 u False [] @ ''s''
                  in (if 0 < hrs then nat_str hrs @ ''h'' else [])
                     @ (if 0 < mins then nat_str (mins mod 60) @ ''m'' else []) @ tail)
      in if d < 0 then CHR ''-'' # body else body)"

section \<open>Timestamps\<close>

definition pad_left :: "nat \<Rightarrow> string \<Rightarrow> string" where
  "pad_left n s = replicate (n - length s) (CHR ''0'') @ s"

text \<open>Year, month and day of a day number (day 0 is 1 January of year 1).\<close>

definition civil :: "int \<Rightarrow> int \<times> int \<times> int" where
  "civil days =
     (let z = days + 306; era = z div 146097; doe = z mod 146097;
          yoe = (doe - doe div 1460 + doe div 36524 - doe div 146096) div 365;
          doy = doe - (365 * yoe + yoe div 4 - yoe div 100);
          mp = (5 * doy + 2) div 153;
          day = doy - (153 * mp + 2) div 5 + 1;
          month = (if mp < 10 then mp + 3 else mp - 9)
      in (yoe + era * 400 + (if month \<le> 2 then 1 else 0), month, day))"

definition rfc3339 :: "int \<Rightarrow> string" where
  "rfc3339 t =
     (let sec = t div 1000000000; days = sec div 86400; tod = nat (sec mod 86400)
      in case civil days of (y, m, d) \<Rightarrow>
        pad_left 4 (itoa y) @ ''-'' @ pad_left 2 (itoa m) @ ''-'' @ pad_left 2 (itoa d) @ ''T''
        @ pad_left 2 (nat_str (tod div 3600)) @ '':'' @ pad_left 2 (nat_str (tod div 60 mod 60)) @ '':''
        @ pad_left 2 (nat_str (tod mod 60)) @ ''Z'')"

end
