(* ===== verification/Types.thy ===== *)
theory Types
  imports GoTime
begin

text \<open>
  Package types (types/types.go): the dynamic values of a configuration, the typed
  \<open>Value\<close> wrapper with its accessors, events, and errors.  A Go \<open>any\<close> is the closed
  datatype \<open>any\<close> of the dynamic types the library tells apart; every other dynamic type is
  an opaque, comparable \<open>AOther\<close>.  A failing type assertion is a panic, the value \<open>None\<close>.
\<close>

section \<open>Dynamic values\<close>

datatype any =
    ANil
  | AString string
  | AInt i64
  | AInt64 i64
  | AFloat64 float64
  | ABool bool
  | ADuration i64
  | ATime int
  | ASlice "any list"
  | AMap "(string \<times> any) list"
  | AOther nat

datatype ValueType = TypeUnknown | TypeString | TypeInt | TypeInt64 | TypeFloat64 | TypeBool
  | TypeDuration | TypeTime | TypeSlice | TypeMap

datatype SourceType = SourceNone | SourceFile | SourceEnv | SourceMemory | SourceRemote | SourceDefault

fun SourceType_String :: "SourceType \<Rightarrow> string" where
  "SourceType_String SourceFile = ''file''"
| "SourceType_String SourceEnv = ''env''"
| "SourceType_String SourceMemory = ''memory''"
| "SourceType_String SourceRemote = ''remote''"
| "SourceType_String SourceDefault = ''default''"
| "SourceType_String SourceNone = ''unknown''"

fun ValueType_String :: "ValueType \<Rightarrow> string" where
  "ValueType_String TypeString = ''string''"
| "ValueType_String TypeInt = ''int''"
| "ValueType_String TypeInt64 = ''int64''"
| "ValueType_String TypeFloat64 = ''float64''"
| "ValueType_String TypeBool = ''bool''"
| "ValueType_String TypeDuration = ''duration''"
| "ValueType_String TypeTime = ''time''"
| "ValueType_String TypeSlice = ''slice''"
| "ValueType_String TypeMap = ''map''"
| "ValueType_String TypeUnknown = ''unknown''"

text \<open>\<open>reflect.DeepEqual\<close> on dynamic values: maps by content, floats by IEEE equality.\<close>

fun deep_equal :: "any \<Rightarrow> any \<Rightarrow> bool"
  and deep_equal_list :: "any list \<Rightarrow> any list \<Rightarrow> bool"
  and deep_equal_map :: "(string \<times> any) list \<Rightarrow> (string \<times> any) list \<Rightarrow> bool" where
  "deep_equal (ASlice xs) b = (case b of ASlice ys \<Rightarrow> deep_equal_list xs ys | _ \<Rightarrow> False)"
| "deep_equal (AMap m) b =
     (case b of AMap n \<Rightarrow> length m = length n \<and> deep_equal_map m n | _ \<Rightarrow> False)"
| "deep_equal (AFloat64 x) b = (case b of AFloat64 y \<Rightarrow> f64_eq x y | _ \<Rightarrow> False)"
| "deep_equal a b = (a = b)"
| "deep_equal_list [] ys = (ys = [])"
| "deep_equal_list (x # xs) ys =
     (case ys of [] \<Rightarrow> False | y # ys' \<Rightarrow> deep_equal x y \<and> deep_equal_list xs ys')"
| "deep_equal_map [] n = True"
| "deep_equal_map ((k, v) # m) n =
     ((case mget n k of None \<Rightarrow> False | Some w \<Rightarrow> deep_equal v w) \<and> deep_equal_map m n)"

text \<open>
  The operator \<open>==\<close> on two interface values: different dynamic types are unequal, equal
  dynamic types that are not comparable (slices and maps) make it panic.
\<close>

fun iface_eq :: "any \<Rightarrow> any \<Rightarrow> bool option" where
  "iface_eq (ASlice _) (ASlice _) = None"
| "iface_eq (AMap _) (AMap _) = None"
| "iface_eq (AFloat64 x) (AFloat64 y) = Some (f64_eq x y)"
| "iface_eq a b = Some (a = b)"

section \<open>Formatting\<close>

fun pad6 :: "nat \<Rightarrow> string \<Rightarrow> string" where
  "pad6 0 s = s"
| "pad6 (Suc n) s = (if length s < 6 then pad6 n (CHR ''0'' # s) else s)"

definition trim_trailing_zeros :: "string \<Rightarrow> string" where
  "trim_trailing_zeros s = rev (dropWhile (\<lambda>c. c = CHR ''0'') (rev s))"

definition f64_zero :: float64 where "f64_zero = FFin False 0 (- 1074)"

text \<open>At most six rounds of the padding loop are needed: the text has at least one digit.\<close>

definition appendFloat :: "float64 \<Rightarrow> string" where
  "appendFloat v =
     (let intPart = f64_to_i64 v;
          frac0 = f64_sub v (f64_of_int intPart);
          frac = (if f64_lt frac0 f64_zero then f64_neg frac0 else frac0);
          result = itoa intPart
      in if f64_lt (f64_round False 1 10000000) frac then
           let frac' = f64_mul frac (f64_of_int 1000000);
               fracInt = f64_to_i64 (f64_add frac' (f64_round False 1 2));
               fracStr = trim_trailing_zeros (pad6 6 (itoa fracInt))
           in result @ ''.'' @ fracStr
         else result)"

definition float64ToStr :: "float64 \<Rightarrow> string" where
  "float64ToStr v = (if f64_eq v f64_zero then ''0'' else appendFloat v)"

fun formatValue :: "any \<Rightarrow> string" where
  "formatValue (AString s) = s"
| "formatValue (AInt i) = itoa (sint i)"
| "formatValue (AInt64 i) = itoa (sint i)"
| "formatValue (AFloat64 x) = float64ToStr x"
| "formatValue (ABool b) = (if b then ''true'' else ''false'')"
| "formatValue (ADuration d) = duration_str (sint d)"
| "formatValue (ATime t) = rfc3339 t"
| "formatValue _ = []"

section \<open>Values and their accessors\<close>

record Value =
  vraw :: any
  vstr :: string
  vtyp :: ValueType
  vsource :: SourceType
  vpriority :: int

definition NewValue :: "any \<Rightarrow> ValueType \<Rightarrow> SourceType \<Rightarrow> int \<Rightarrow> Value" where
  "NewValue raw t src pri =
     \<lparr>vraw = raw, vstr = formatValue raw, vtyp = t, vsource = src, vpriority = pri\<rparr>"

text \<open>The Go zero value \<open>types.Value{}\<close>.\<close>

definition zero_Value :: Value where
  "zero_Value = \<lparr>vraw = ANil, vstr = [], vtyp = TypeUnknown, vsource = SourceNone, vpriority = 0\<rparr>"

text \<open>
  The accessors check the recorded type and then assert the dynamic type of the raw value
  without a check of its own.
\<close>

definition Value_Int :: "Value \<Rightarrow> (i64 \<times> bool) option" where
  "Value_Int v =
     (if vtyp v = TypeInt then (case vraw v of AInt i \<Rightarrow> Some (i, True) | _ \<Rightarrow> None) else Some (0, False))"

definition Value_Int64 :: "Value \<Rightarrow> (i64 \<times> bool) option" where
  "Value_Int64 v =
     (if vtyp v = TypeInt64 then (case vraw v of AInt64 i \<Rightarrow> Some (i, True) | _ \<Rightarrow> None) else Some (0, False))"

definition Value_Float64 :: "Value \<Rightarrow> (float64 \<times> bool) option" where
  "Value_Float64 v =
     (if vtyp v = TypeFloat64 then (case vraw v of AFloat64 x \<Rightarrow> Some (x, True) | _ \<Rightarrow> None)
      else Some (f64_zero, False))"

definition Value_Bool :: "Value \<Rightarrow> (bool \<times> bool) option" where
  "Value_Bool v =
     (if vtyp v = TypeBool then (case vraw v of ABool b \<Rightarrow> Some (b, True) | _ \<Rightarrow> None) else Some (False, False))"

definition Value_Duration :: "Value \<Rightarrow> (i64 \<times> bool) option" where
  "Value_Duration v =
     (if vtyp v = TypeDuration then (case vraw v of ADuration d \<Rightarrow> Some (d, True) | _ \<Rightarrow> None)
      else Some (0, False))"

text \<open>\<open>inferType\<close>, which the packages source and config each define with the same cases.\<close>

fun inferType :: "any \<Rightarrow> ValueType" where
  "inferType (AString _) = TypeString"
| "inferType (AInt _) = TypeInt"
| "inferType (AInt64 _) = TypeInt64"
| "inferType (AFloat64 _) = TypeFloat64"
| "inferType (ABool _) = TypeBool"
| "inferType (ADuration _) = TypeDuration"
| "inferType (ATime _) = TypeTime"
| "inferType (ASlice _) = TypeSlice"
| "inferType (AMap _) = TypeMap"
| "inferType ANil = TypeUnknown"
| "inferType (AOther _) = TypeUnknown"

section \<open>Errors\<close>

datatype ErrorCode = ErrUnknown | ErrNotFound | ErrTypeMismatch | ErrInvalidFormat | ErrParseError
  | ErrValidationError | ErrSourceError | ErrCryptoError | ErrWatchError | ErrBindError
  | ErrContextCanceled

text \<open>
  The errors the library builds: its own \<open>types.Error\<close>, the validation errors of package
  validate, plain \<open>errors.New\<close> / \<open>fmt.Errorf\<close> texts, and errors of code outside.
\<close>

datatype goerror =
    ConfigError (code: ErrorCode) (message: string) (err_key: string) (err_source: SourceType)
      (cause: "goerror option")
  | ValidationError (verr_key: string) (verr_rule: string) (verr_message: string)
      (verr_cause: "goerror option")
  | ValidationErrors "goerror list"
  | PlainError string
  | CtxError string

fun Error_Error :: "goerror \<Rightarrow> string"
  and error_lines :: "goerror list \<Rightarrow> string" where
  "Error_Error (ConfigError c m k s cs) =
     m @ (if k \<noteq> [] then '' (key: '' @ k @ '')'' else [])
       @ (case cs of None \<Rightarrow> [] | Some e \<Rightarrow> '': '' @ Error_Error e)"
| "Error_Error (ValidationError k r m cs) =
     ''validation failed for key '' @ [CHR 0x27] @ k @ [CHR 0x27] @ '': '' @ r
       @ (if m \<noteq> [] then '' - '' @ m else [])
       @ (case cs of None \<Rightarrow> [] | Some e \<Rightarrow> '': '' @ Error_Error e)"
| "Error_Error (ValidationErrors es) =
     (if es = [] then ''validation failed'' else ''validation failed:'' @ [CHR 10] @ error_lines es)"
| "Error_Error (PlainError m) = m"
| "Error_Error (CtxError m) = m"
| "error_lines [] = []"
| "error_lines (e # es) = ''  - '' @ Error_Error e @ [CHR 10] @ error_lines es"

fun Error_Unwrap :: "goerror \<Rightarrow> goerror option" where
  "Error_Unwrap (ConfigError _ _ _ _ cs) = cs"
| "Error_Unwrap (ValidationError _ _ _ cs) = cs"
| "Error_Unwrap _ = None"

text \<open>\<open>NewError\<close> with its functional options, applied in order.\<close>

datatype ErrorOption = WithKey string | WithSource SourceType | WithCause goerror

fun apply_error_option :: "ErrorOption \<Rightarrow> goerror \<Rightarrow> goerror" where
  "apply_error_option (WithKey k) (ConfigError c m _ s cs) = ConfigError c m k s cs"
| "apply_error_option (WithSource s) (ConfigError c m k _ cs) = ConfigError c m k s cs"
| "apply_error_option (WithCause e) (ConfigError c m k s _) = ConfigError c m k s (Some e)"
| "apply_error_option _ e = e"

definition NewError :: "ErrorCode \<Rightarrow> string \<Rightarrow> ErrorOption list \<Rightarrow> goerror" where
  "NewError c m opts = fold apply_error_option opts (ConfigError c m [] SourceNone None)"

section \<open>Events and hooks\<close>

datatype EventType = EventCreate | EventUpdate | EventDelete | EventReload

fun EventType_String :: "EventType \<Rightarrow> string" where
  "EventType_String EventCreate = ''create''"
| "EventType_String EventUpdate = ''update''"
| "EventType_String EventDelete = ''delete''"
| "EventType_String EventReload = ''reload''"

record Event =
  ev_type :: EventType
  ev_key :: string
  ev_old :: Value
  ev_new :: Value
  ev_time :: int
  ev_source :: SourceType

datatype HookType = HookBeforeLoad | HookAfterLoad | HookBeforeReload | HookAfterReload
  | HookBeforeSet | HookAfterSet | HookBeforeDelete | HookAfterDelete

section \<open>Well-typed values\<close>

text \<open>The recorded type, when it is one an accessor asserts, is the type of the raw value.\<close>

fun typ_ok :: "ValueType \<Rightarrow> any \<Rightarrow> bool" where
  "typ_ok TypeUnknown r = True"
| "typ_ok t r = (inferType r = t)"

definition well_typed :: "Value \<Rightarrow> bool" where
  "well_typed v \<longleftrightarrow> typ_ok (vtyp v) (vraw v) \<and> vstr v = formatValue (vraw v)"

lemma typ_ok_infer [simp]: "typ_ok (inferType r) r"
  by (cases r) auto

lemma well_typed_NewValue [simp]: "well_typed (NewValue r t s p) \<longleftrightarrow> typ_ok t r"
  by (simp add: well_typed_def NewValue_def)

lemma well_typed_zero [simp]: "well_typed zero_Value"
  by (simp add: well_typed_def zero_Value_def)

lemma NewValue_sel [simp]:
  "vraw (NewValue r t s p) = r" "vstr (NewValue r t s p) = formatValue r"
  "vtyp (NewValue r t s p) = t" "vsource (NewValue r t s p) = s" "vpriority (NewValue r t s p) = p"
  by (simp_all add: NewValue_def)

lemma typ_okD:
  "typ_ok TypeInt r \<Longrightarrow> \<exists>i. r = AInt i"
  "typ_ok TypeInt64 r \<Longrightarrow> \<exists>i. r = AInt64 i"
  "typ_ok TypeFloat64 r \<Longrightarrow> \<exists>x. r = AFloat64 x"
  "typ_ok TypeBool r \<Longrightarrow> \<exists>b. r = ABool b"
  "typ_ok TypeDuration r \<Longrightarrow> \<exists>d. r = ADuration d"
  by (cases r; simp)+

lemmas accessor_defs = Value_Int_def Value_Int64_def Value_Float64_def Value_Bool_def Value_Duration_def

end
