(* ===== verification/Crypto.thy ===== *)
theory Crypto
  imports Types
begin

text \<open>
  Package confcrypto (confcrypto/crypto.go): the AES-GCM encryptor with its nonce in front of the
  sealed text, key derivation, the key holder, base64 transport, the encoder and the manager.

  The cipher is code outside: \<open>seal\<close> and \<open>open_sealed\<close> take the key, the nonce and the text and
  stand for \<open>AEAD.Seal\<close> (without its prefix) and \<open>AEAD.Open\<close>; \<open>sha\<close> is SHA-256.  Random bytes
  come from the world: \<open>read_random n\<close> yields \<open>n\<close> bytes or an error.  Base64 is the standard
  library's, written out.  Strings and byte slices are byte lists.
\<close>

section \<open>Base64\<close>

definition b64_alphabet :: string where
  "b64_alphabet = ''ABCDEFGHIJKLMNOPQRSTUVWXYZabcdefghijklmnopqrstuvwxyz0123456789+/''"

definition b64_char :: "nat \<Rightarrow> char" where "b64_char n = b64_alphabet ! n"

definition b64_val :: "char \<Rightarrow> nat option" where "b64_val c = index_of c b64_alphabet"

text \<open>\<open>base64.StdEncoding.EncodeToString\<close>.\<close>

fun b64_encode :: "string \<Rightarrow> string" where
  "b64_encode [] = []"
| "b64_encode [a] =
     [b64_char (byte a div 4), b64_char (byte a mod 4 * 16), CHR ''='', CHR ''='']"
| "b64_encode [a, b] =
     [b64_char (byte a div 4), b64_char (byte a mod 4 * 16 + byte b div 16), b64_char (byte b mod 16 * 4), CHR ''='']"
| "b64_encode (a # b # c # s) =
     b64_char (byte a div 4) # b64_char (byte a mod 4 * 16 + byte b div 16)
       # b64_char (byte b mod 16 * 4 + byte c div 64) # b64_char (byte c mod 64) # b64_encode s"

text \<open>
  \<open>DecodeString\<close> after it has skipped line ends: groups of four, padding only in the last one; the
  bits a padded group does not use are ignored.
\<close>

fun b64_groups :: "string \<Rightarrow> string option" where
  "b64_groups [] = Some []"
| "b64_groups (w # x # y # z # s) =
     (case (b64_val w, b64_val x) of
        (Some p, Some q) \<Rightarrow>
          if y = CHR ''='' then
            (if z = CHR ''='' \<and> s = [] then Some [chr (p * 4 + q div 16)] else None)
          else (case b64_val y of
                  None \<Rightarrow> None
                | Some r \<Rightarrow>
                    if z = CHR ''='' then
                      (if s = [] then Some [chr (p * 4 + q div 16), chr (q mod 16 * 16 + r div 4)] else None)
                    else (case (b64_val z, b64_groups s) of
                            (Some t, Some rest) \<Rightarrow>
                              Some (chr (p * 4 + q div 16) # chr (q mod 16 * 16 + r div 4) # chr (r mod 4 * 64 + t) # rest)
                          | _ \<Rightarrow> None))
      | _ \<Rightarrow> None)"
| "b64_groups _ = None"

definition b64_decode :: "string \<Rightarrow> string option" where
  "b64_decode s = b64_groups (filter (\<lambda>c. c \<noteq> CHR 0x0A \<and> c \<noteq> CHR 0x0D) s)"

definition corrupt_input :: goerror where "corrupt_input = PlainError ''illegal base64 data''"

section \<open>The encryptor\<close>

record AESGCMEncryptor =
  gcm_key :: string

text \<open>\<open>aes.NewCipher\<close> accepts keys of 16, 24 and 32 bytes.\<close>

definition NewAESGCMEncryptor :: "string \<Rightarrow> goerror + AESGCMEncryptor" where
  "NewAESGCMEncryptor key =
     (if length key \<in> {16, 24, 32} then Inr \<lparr>gcm_key = key\<rparr>
      else Inl (NewError ErrCryptoError ''failed to create cipher''
                  [WithCause (PlainError (''crypto/aes: invalid key size '' @ nat_str (length key)))]))"

definition nonceSize :: nat where "nonceSize = 12"

type_synonym 'w randomness = "nat \<Rightarrow> 'w \<Rightarrow> (goerror + string) \<times> 'w"

definition Encrypt_gcm ::
  "(string \<Rightarrow> string \<Rightarrow> string \<Rightarrow> string) \<Rightarrow> 'w randomness \<Rightarrow> AESGCMEncryptor \<Rightarrow> string \<Rightarrow> 'w \<Rightarrow> (goerror + string) \<times> 'w" where
  "Encrypt_gcm seal read_random e plaintext w =
     (case read_random nonceSize w of
        (Inl err, w') \<Rightarrow> (Inl (NewError ErrCryptoError ''failed to generate nonce'' [WithCause err]), w')
      | (Inr nonce, w') \<Rightarrow> (Inr (nonce @ seal (gcm_key e) nonce plaintext), w'))"

definition Decrypt_gcm ::
  "(string \<Rightarrow> string \<Rightarrow> string \<Rightarrow> goerror + string) \<Rightarrow> AESGCMEncryptor \<Rightarrow> string \<Rightarrow> goerror + string" where
  "Decrypt_gcm open_sealed e ciphertext =
     (if length ciphertext < nonceSize then Inl (NewError ErrCryptoError ''ciphertext too short'' [])
      else case open_sealed (gcm_key e) (take nonceSize ciphertext) (drop nonceSize ciphertext) of
        Inl err \<Rightarrow> Inl (NewError ErrCryptoError ''decryption failed'' [WithCause err])
      | Inr plaintext \<Rightarrow> Inr plaintext)"

section \<open>Key derivation\<close>

text \<open>
  \<open>Derive\<close>: the hash of password and salt, truncated to or extended to the length asked for, one
  byte per further hash.  A negative length makes \<open>make\<close> panic.
\<close>

definition zero_byte :: char where "zero_byte = CHR 0x00"

definition copy_into :: "string \<Rightarrow> string \<Rightarrow> string" where
  "copy_into dst src = take (length dst) src @ drop (length src) dst"

function derive_loop :: "(string \<Rightarrow> string) \<Rightarrow> nat \<Rightarrow> nat \<Rightarrow> string \<Rightarrow> string \<Rightarrow> string" where
  "derive_loop sha keyLen i hash result =
     (if i < keyLen
      then let hash' = sha hash in derive_loop sha keyLen (Suc i) hash' (result[i := hd hash'])
      else result)"
  by pat_completeness auto
termination by (relation "measure (\<lambda>(_, keyLen, i, _, _). keyLen - i)") auto

declare derive_loop.simps [simp del]

definition Derive :: "(string \<Rightarrow> string) \<Rightarrow> string \<Rightarrow> string \<Rightarrow> int \<Rightarrow> string option" where
  "Derive sha salt password keyLen =
     (if keyLen < 0 then None
      else let hash = sha (password @ salt);
               result = copy_into (replicate (nat keyLen) zero_byte) hash
           in Some (derive_loop sha (nat keyLen) 32 hash result))"

section \<open>The key holder\<close>

text \<open>
  \<open>SecureBytes\<close> owns a backing array; wiping overwrites it and drops it.  \<open>backing\<close> is the array
  itself, which the garbage collector may leave in memory, \<open>holds\<close> whether the slice still has it.
\<close>

record SecureBytes =
  backing :: string
  holds :: bool

definition NewSecureBytes :: "string \<Rightarrow> SecureBytes" where
  "NewSecureBytes data = \<lparr>backing = copy_into (replicate (length data) zero_byte) data, holds = True\<rparr>"

definition SecureBytes_Get :: "SecureBytes \<Rightarrow> string" where
  "SecureBytes_Get s =
     (let d = (if holds s then backing s else []) in copy_into (replicate (length d) zero_byte) d)"

definition Wipe :: "SecureBytes \<Rightarrow> SecureBytes" where
  "Wipe s = (if holds s then \<lparr>backing = map (\<lambda>_. zero_byte) (backing s), holds = False\<rparr> else s)"

text \<open>\<open>StaticKeyProvider\<close> is a key holder; \<open>GetKey\<close> never fails, not even after \<open>Wipe\<close>.\<close>

definition GetKey :: "SecureBytes \<Rightarrow> goerror + string" where
  "GetKey p = Inr (SecureBytes_Get p)"

section \<open>Encryptors and the manager\<close>

text \<open>The interface \<open>Encryptor\<close>: its two methods, on the world.\<close>

record 'w Encryptor =
  enc_encrypt :: "string \<Rightarrow> 'w \<Rightarrow> (goerror + string) \<times> 'w"
  enc_decrypt :: "string \<Rightarrow> 'w \<Rightarrow> (goerror + string) \<times> 'w"

record EncryptedValue =
  ev_ciphertext :: string
  ev_keyid :: string

definition aes_encryptor ::
  "(string \<Rightarrow> string \<Rightarrow> string \<Rightarrow> string) \<Rightarrow> (string \<Rightarrow> string \<Rightarrow> string \<Rightarrow> goerror + string) \<Rightarrow> 'w randomness
     \<Rightarrow> AESGCMEncryptor \<Rightarrow> 'w Encryptor" where
  "aes_encryptor seal open_sealed read_random e =
     \<lparr>enc_encrypt = Encrypt_gcm seal read_random e, enc_decrypt = (\<lambda>c w. (Decrypt_gcm open_sealed e c, w))\<rparr>"

definition encode_result :: "(goerror + string) \<times> 'w \<Rightarrow> (goerror + EncryptedValue) \<times> 'w" where
  "encode_result r =
     (case r of
        (Inl err, w) \<Rightarrow> (Inl err, w)
      | (Inr ciphertext, w) \<Rightarrow> (Inr \<lparr>ev_ciphertext = b64_encode ciphertext, ev_keyid = []\<rparr>, w))"

definition Encoder_EncryptString :: "'w Encryptor \<Rightarrow> string \<Rightarrow> 'w \<Rightarrow> (goerror + EncryptedValue) \<times> 'w" where
  "Encoder_EncryptString enc plaintext w = encode_result (enc_encrypt enc plaintext w)"

definition Encoder_DecryptString :: "'w Encryptor \<Rightarrow> EncryptedValue \<Rightarrow> 'w \<Rightarrow> (goerror + string) \<times> 'w" where
  "Encoder_DecryptString enc ev w =
     (case b64_decode (ev_ciphertext ev) of
        None \<Rightarrow> (Inl (NewError ErrCryptoError ''failed to decode ciphertext'' [WithCause corrupt_input]), w)
      | Some ciphertext \<Rightarrow> enc_decrypt enc ciphertext w)"

record 'w CryptoManager =
  cm_encryptors :: "(string \<times> 'w Encryptor) list"
  cm_defaultID :: string

definition normalizeAESKey :: "(string \<Rightarrow> string) \<Rightarrow> string \<Rightarrow> string" where
  "normalizeAESKey sha key = (if length key \<in> {16, 24, 32} then key else sha key)"

definition NewCryptoManager ::
  "(string \<Rightarrow> string) \<Rightarrow> (string \<Rightarrow> string \<Rightarrow> string \<Rightarrow> string) \<Rightarrow> (string \<Rightarrow> string \<Rightarrow> string \<Rightarrow> goerror + string)
     \<Rightarrow> 'w randomness \<Rightarrow> string \<Rightarrow> goerror + 'w CryptoManager" where
  "NewCryptoManager sha seal open_sealed read_random defaultKey =
     (if defaultKey = [] then Inl (NewError ErrCryptoError ''invalid encryption key'' [])
      else case NewAESGCMEncryptor (normalizeAESKey sha defaultKey) of
        Inl err \<Rightarrow> Inl err
      | Inr enc \<Rightarrow> Inr \<lparr>cm_encryptors = mput ''default'' (aes_encryptor seal open_sealed read_random enc) [],
                      cm_defaultID = ''default''\<rparr>)"

definition CryptoManager_Register :: "string \<Rightarrow> 'w Encryptor \<Rightarrow> 'w CryptoManager \<Rightarrow> 'w CryptoManager" where
  "CryptoManager_Register i enc m = m\<lparr>cm_encryptors := mput i enc (cm_encryptors m)\<rparr>"

definition CryptoManager_Get :: "'w CryptoManager \<Rightarrow> string \<Rightarrow> 'w Encryptor option" where
  "CryptoManager_Get m i = mget (cm_encryptors m) i"

definition CryptoManager_Default :: "'w CryptoManager \<Rightarrow> 'w Encryptor option" where
  "CryptoManager_Default m = mget (cm_encryptors m) (cm_defaultID m)"

definition no_encryptor :: goerror where
  "no_encryptor = NewError ErrCryptoError ''no encryptor available'' []"

definition CryptoManager_Encrypt :: "'w CryptoManager \<Rightarrow> string \<Rightarrow> 'w \<Rightarrow> (goerror + string) \<times> 'w" where
  "CryptoManager_Encrypt m plaintext w =
     (case CryptoManager_Default m of None \<Rightarrow> (Inl no_encryptor, w) | Some enc \<Rightarrow> enc_encrypt enc plaintext w)"

definition CryptoManager_Decrypt :: "'w CryptoManager \<Rightarrow> string \<Rightarrow> 'w \<Rightarrow> (goerror + string) \<times> 'w" where
  "CryptoManager_Decrypt m ciphertext w =
     (case CryptoManager_Default m of None \<Rightarrow> (Inl no_encryptor, w) | Some enc \<Rightarrow> enc_decrypt enc ciphertext w)"

definition CryptoManager_EncryptString :: "'w CryptoManager \<Rightarrow> string \<Rightarrow> 'w \<Rightarrow> (goerror + EncryptedValue) \<times> 'w" where
  "CryptoManager_EncryptString m plaintext w = encode_result (CryptoManager_Encrypt m plaintext w)"

definition CryptoManager_DecryptString :: "'w CryptoManager \<Rightarrow> EncryptedValue \<Rightarrow> 'w \<Rightarrow> (goerror + string) \<times> 'w" where
  "CryptoManager_DecryptString m ev w =
     (case b64_decode (ev_ciphertext ev) of
        None \<Rightarrow> (Inl (NewError ErrCryptoError ''failed to decode'' [WithCause corrupt_input]), w)
      | Some ciphertext \<Rightarrow> CryptoManager_Decrypt m ciphertext w)"

definition EncryptValue :: "'w CryptoManager \<Rightarrow> Value \<Rightarrow> 'w \<Rightarrow> (goerror + EncryptedValue) \<times> 'w" where
  "EncryptValue m v w = CryptoManager_EncryptString m (vstr v) w"

definition DecryptValue :: "'w CryptoManager \<Rightarrow> EncryptedValue \<Rightarrow> 'w \<Rightarrow> (goerror + Value) \<times> 'w" where
  "DecryptValue m ev w =
     (case CryptoManager_DecryptString m ev w of
        (Inl err, w') \<Rightarrow> (Inl err, w')
      | (Inr plaintext, w') \<Rightarrow> (Inr (NewValue (AString plaintext) TypeString SourceMemory 0), w'))"

text \<open>A negative size makes \<open>make\<close> panic.\<close>

definition GenerateKey :: "'w randomness \<Rightarrow> int \<Rightarrow> 'w \<Rightarrow> ((goerror + string) \<times> 'w) option" where
  "GenerateKey read_random n w =
     (if n < 0 then None
      else case read_random (nat n) w of
        (Inl err, w') \<Rightarrow> Some (Inl (NewError ErrCryptoError ''failed to generate key'' [WithCause err]), w')
      | (Inr key, w') \<Rightarrow> Some (Inr key, w'))"

section \<open>Base64 is read back\<close>

lemma index_of_nth: "distinct xs \<Longrightarrow> n < length xs \<Longrightarrow> index_of (xs ! n) xs = Some n"
proof (induction xs arbitrary: n)
  case (Cons x xs)
  then show ?case by (cases n) auto
qed simp

lemma b64_alphabet_facts: "length b64_alphabet = 64" "distinct b64_alphabet"
  "CHR ''='' \<notin> set b64_alphabet" "CHR 0x0A \<notin> set b64_alphabet" "CHR 0x0D \<notin> set b64_alphabet"
  by (simp_all add: b64_alphabet_def)

lemma b64_char:
  assumes "n < 64"
  shows "b64_val (b64_char n) = Some n" and "b64_char n \<noteq> CHR ''=''"
    and "b64_char n \<noteq> CHR 0x0A" and "b64_char n \<noteq> CHR 0x0D"
proof -
  show "b64_val (b64_char n) = Some n"
    unfolding b64_val_def b64_char_def using assms b64_alphabet_facts by (intro index_of_nth) simp_all
  have "b64_char n \<in> set b64_alphabet" using assms b64_alphabet_facts(1) by (simp add: b64_char_def)
  then show "b64_char n \<noteq> CHR ''=''" "b64_char n \<noteq> CHR 0x0A" "b64_char n \<noteq> CHR 0x0D"
    using b64_alphabet_facts(3-5) by metis+
qed

lemma byte_less: "byte c < 256"
  by (simp add: byte_def)

lemma chr_byte [simp]: "chr (byte c) = c"
  by (simp add: chr_def byte_def)

lemma b64_sextets:
  "byte a div 4 < 64" "byte a mod 4 * 16 < 64" "byte a mod 4 * 16 + byte b div 16 < 64"
  "byte b mod 16 * 4 < 64" "byte b mod 16 * 4 + byte c div 64 < 64" "byte c mod 64 < 64"
  using byte_less [of a] byte_less [of b] byte_less [of c] by linarith+

lemma byte_high:
  "byte b div 16 div 16 = 0" "byte b div 16 mod 16 = byte b div 16"
  "byte b div 64 div 4 = 0" "byte b div 64 mod 4 = byte b div 64"
  using byte_less [of b] by (simp_all flip: div_mult2_eq add: less_mult_imp_div_less)

lemma b64_groups_encode: "b64_groups (b64_encode s) = Some s"
  by (induction s rule: b64_encode.induct) (simp_all add: b64_char b64_sextets byte_high)

lemma b64_encode_plain:
  "CHR 0x0A \<notin> set (b64_encode s) \<and> CHR 0x0D \<notin> set (b64_encode s)"
  by (induction s rule: b64_encode.induct) (simp_all add: b64_char(3,4) [symmetric] b64_char(3,4) [THEN not_sym] b64_sextets)

lemma b64_decode_encode [simp]: "b64_decode (b64_encode s) = Some s"
proof -
  have "filter (\<lambda>c. c \<noteq> CHR 0x0A \<and> c \<noteq> CHR 0x0D) (b64_encode s) = b64_encode s"
    using b64_encode_plain [of s] by (intro filter_True) metis
  then show ?thesis by (simp add: b64_decode_def b64_groups_encode)
qed

section \<open>Encrypted values are read back\<close>

lemma Decrypt_Encrypt:
  assumes "\<And>k n s. open_sealed k n (seal k n s) = Inr s"
    and "read_random nonceSize w = (Inr nonce, w')" and "length nonce = nonceSize"
  shows "\<exists>ct. Encrypt_gcm seal read_random e s w = (Inr ct, w') \<and> Decrypt_gcm open_sealed e ct = Inr s"
  using assms by (simp add: Encrypt_gcm_def Decrypt_gcm_def)

lemma Default_Register [simp]:
  "cm_defaultID (CryptoManager_Register i enc m) = cm_defaultID m"
  "i \<noteq> cm_defaultID m \<Longrightarrow> CryptoManager_Default (CryptoManager_Register i enc m) = CryptoManager_Default m"
  by (simp_all add: CryptoManager_Register_def CryptoManager_Default_def)

lemma Default_registered:
  assumes "CryptoManager_Default m = Some enc" and "\<forall>(i, _) \<in> set encs. i \<noteq> cm_defaultID m"
  shows "CryptoManager_Default (fold (\<lambda>(i, e). CryptoManager_Register i e) encs m) = Some enc"
  using assms by (induction encs arbitrary: m) (auto split: prod.splits)

lemma normalized_key:
  assumes "\<And>x. length (sha x) = 32"
  shows "length (normalizeAESKey sha key) \<in> {16, 24, 32}"
  using assms by (simp add: normalizeAESKey_def)

text \<open>
  C37: an encrypted value is read back.  Over a cipher whose \<open>Open\<close> undoes its \<open>Seal\<close>, a manager
  can be made from every non-empty key, of whatever length; after any further encryptors have been
  registered under other names, the encrypted form of a value, carried as base64, decrypts to the
  text of the value, as a memory value of priority 0.
\<close>

theorem encrypted_value_roundtrip:
  assumes cipher: "\<And>k n s. open_sealed k n (seal k n s) = Inr s"
    and hash: "\<And>x. length (sha x) = 32"
    and random: "read_random nonceSize w = (Inr nonce, w')" "length nonce = nonceSize"
    and key: "key \<noteq> []" and names: "\<forall>(i, _) \<in> set encs. i \<noteq> ''default''"
  shows "\<exists>m ev. NewCryptoManager sha seal open_sealed read_random key = Inr m
    \<and> (let m' = fold (\<lambda>(i, e). CryptoManager_Register i e) encs m in
         EncryptValue m' v w = (Inr ev, w')
         \<and> (\<forall>w2. DecryptValue m' ev w2 = (Inr (NewValue (AString (vstr v)) TypeString SourceMemory 0), w2)))"
proof -
  let ?e = "\<lparr>gcm_key = normalizeAESKey sha key\<rparr>"
  let ?enc = "aes_encryptor seal open_sealed read_random ?e"
  define m where "m = \<lparr>cm_encryptors = mput ''default'' ?enc [], cm_defaultID = ''default''\<rparr>"
  define m' where "m' = fold (\<lambda>(i, e). CryptoManager_Register i e) encs m"
  have m: "NewCryptoManager sha seal open_sealed read_random key = Inr m"
    using key normalized_key [of sha key] hash
    by (simp add: NewCryptoManager_def NewAESGCMEncryptor_def m_def)
  have d: "CryptoManager_Default m' = Some ?enc"
    unfolding m'_def using names by (intro Default_registered) (auto simp: CryptoManager_Default_def m_def)
  obtain ct where ct: "Encrypt_gcm seal read_random ?e (vstr v) w = (Inr ct, w')"
    "Decrypt_gcm open_sealed ?e ct = Inr (vstr v)"
    using Decrypt_Encrypt [of open_sealed seal read_random w nonce w', OF cipher random] by blast
  have "EncryptValue m' v w = (Inr \<lparr>ev_ciphertext = b64_encode ct, ev_keyid = []\<rparr>, w')"
    by (simp add: EncryptValue_def CryptoManager_EncryptString_def CryptoManager_Encrypt_def d
        encode_result_def aes_encryptor_def ct)
  moreover have "DecryptValue m' \<lparr>ev_ciphertext = b64_encode ct, ev_keyid = []\<rparr> w2
      = (Inr (NewValue (AString (vstr v)) TypeString SourceMemory 0), w2)" for w2
    by (simp add: DecryptValue_def CryptoManager_DecryptString_def CryptoManager_Decrypt_def d
        aes_encryptor_def ct)
  ultimately show ?thesis using m by (intro exI [of _ m] exI [of _ "\<lparr>ev_ciphertext = b64_encode ct, ev_keyid = []\<rparr>"])
      (simp add: Let_def m'_def)
qed

theorem encrypted_value_roundtrip_witness:
  "\<exists>m ev. NewCryptoManager (\<lambda>_. replicate 32 CHR ''h'') (\<lambda>k n s. s @ replicate 16 CHR ''t'') (\<lambda>k n c. Inr (take (length c - 16) c))
        (\<lambda>n w. (Inr (replicate n CHR ''r''), w + 1)) ''passphrase'' = Inr m
     \<and> EncryptValue m (NewValue (AString ''secret'') TypeString SourceFile 10) (0 :: nat) = (Inr ev, 1)
     \<and> DecryptValue m ev 5 = (Inr (NewValue (AString ''secret'') TypeString SourceMemory 0), 5)"
proof -
  let ?sha = "\<lambda>_ :: string. replicate 32 CHR ''h''"
  let ?seal = "\<lambda>(k :: string) (n :: string) s. s @ replicate 16 CHR ''t''"
  let ?open = "\<lambda>(k :: string) (n :: string) c. Inr (take (length c - 16) c) :: goerror + string"
  let ?random = "\<lambda>n w. (Inr (replicate n CHR ''r''), w + 1) :: (goerror + string) \<times> nat"
  have v: "vstr (NewValue (AString ''secret'') TypeString SourceFile 10) = ''secret''"
    by (simp add: NewValue_def)
  show ?thesis
    using encrypted_value_roundtrip [where open_sealed = ?open and seal = ?seal and sha = ?sha
        and read_random = ?random and w = 0 and w' = 1 and nonce = "replicate 12 CHR ''r''"
        and key = "''passphrase''" and encs = "[]" and v = "NewValue (AString ''secret'') TypeString SourceFile 10"]
    by (auto simp: v nonceSize_def Let_def)
qed

section \<open>Derived keys\<close>

lemma derive_loop_at:
  assumes "length result = keyLen" and "i \<le> keyLen"
  shows "derive_loop sha keyLen i hash result
    = take i result @ map (\<lambda>j. hd ((sha ^^ (Suc j - i)) hash)) [i..<keyLen]"
  using assms
proof (induction sha keyLen i hash result rule: derive_loop.induct)
  case (1 sha keyLen i hash result)
  show ?case
  proof (cases "i < keyLen")
    case True
    have "derive_loop sha keyLen (Suc i) (sha hash) (result[i := hd (sha hash)])
        = take (Suc i) (result[i := hd (sha hash)])
          @ map (\<lambda>j. hd ((sha ^^ (Suc j - Suc i)) (sha hash))) [Suc i..<keyLen]"
      using 1(1) [OF True refl] 1(2) True by simp
    also have "take (Suc i) (result[i := hd (sha hash)]) = take i result @ [hd (sha hash)]"
      using 1(2) True by (simp add: take_Suc_conv_app_nth)
    also have "map (\<lambda>j. hd ((sha ^^ (Suc j - Suc i)) (sha hash))) [Suc i..<keyLen]
        = map (\<lambda>j. hd ((sha ^^ (Suc j - i)) hash)) [Suc i..<keyLen]"
      by (auto simp: Suc_diff_le funpow_Suc_right simp del: funpow.simps)
    finally show ?thesis using True by (subst derive_loop.simps) (simp add: Let_def upt_conv_Cons)
  qed (use 1(2,3) in \<open>subst derive_loop.simps; simp\<close>)
qed

text \<open>
  A derived key has exactly the length asked for, whatever it is: its first 32 bytes are those
  of the hash of password and salt, byte \<open>i\<close> from there on is the first byte of the hash iterated
  \<open>i - 31\<close> times; only a negative length panics.
\<close>

theorem derive_bytes:
  assumes "\<And>x. length (sha x) = 32"
  shows "Derive sha salt password keyLen =
    (if keyLen < 0 then None
     else Some (map (\<lambda>i. if i < 32 then sha (password @ salt) ! i
                        else hd ((sha ^^ (i - 31)) (sha (password @ salt)))) [0..<nat keyLen]))"
proof (cases "keyLen < 32")
  case True
  let ?h = "sha (password @ salt)"
  have "take (nat keyLen) ?h = map (\<lambda>i. if i < 32 then ?h ! i else hd ((sha ^^ (i - 31)) ?h)) [0..<nat keyLen]"
    using True assms [of "password @ salt"] by (intro nth_equalityI) auto
  then show ?thesis
    using True assms [of "password @ salt"]
    by (auto simp: Derive_def Let_def copy_into_def derive_loop.simps)
next
  case False
  let ?h = "sha (password @ salt)" and ?n = "nat keyLen"
  let ?r = "?h @ replicate (?n - 32) zero_byte"
  have r: "copy_into (replicate ?n zero_byte) ?h = ?r" "length ?r = ?n"
    using False assms [of "password @ salt"] by (simp_all add: copy_into_def)
  have "derive_loop sha ?n 32 ?h ?r = take 32 ?r @ map (\<lambda>j. hd ((sha ^^ (Suc j - 32)) ?h)) [32..<?n]"
    using False by (intro derive_loop_at r(2)) simp
  also have "take 32 ?r = map (\<lambda>i. if i < 32 then ?h ! i else hd ((sha ^^ (i - 31)) ?h)) [0..<32]"
    using assms [of "password @ salt"] by (intro nth_equalityI) simp_all
  also have "map (\<lambda>j. hd ((sha ^^ (Suc j - 32)) ?h)) [32..<?n]
      = map (\<lambda>i. if i < 32 then ?h ! i else hd ((sha ^^ (i - 31)) ?h)) [32..<?n]"
    by auto
  finally show ?thesis
    using False upt_add_eq_append [of 0 32 "?n - 32"] by (simp add: Derive_def Let_def r)
qed

theorem derive_bytes_witness:
  "Derive (\<lambda>s. replicate 32 CHR ''h'') ''salt'' ''pw'' 34 = Some (replicate 34 CHR ''h'')
   \<and> Derive (\<lambda>s. replicate 32 CHR ''h'') ''salt'' ''pw'' (- 1) = None"
proof -
  have "map (\<lambda>i. if i < 32 then replicate 32 CHR ''h'' ! i
      else hd (((\<lambda>s. replicate 32 CHR ''h'') ^^ (i - 31)) (replicate 32 CHR ''h''))) [0..<34]
    = replicate 34 CHR ''h''"
    by code_simp
  then show ?thesis using derive_bytes [where sha = "\<lambda>s. replicate 32 CHR ''h''"] by simp
qed

end
