(* ===== verification/KeyPath.thy ===== *)
theory KeyPath
  imports Types
begin

text \<open>
  Dotted keys and nested maps: \<open>splitKey\<close> and \<open>insertIndexed\<close> of core/state.go,
  \<open>Flatten\<close> of confparser/parser.go and \<open>splitPath\<close> of bind/bind.go.  A nested
  \<open>map[string]any\<close> is a map whose entries may be \<open>AMap\<close>; a path into it is the list of
  the parts of a key.
\<close>

section \<open>Splitting keys\<close>

text \<open>The loop keeps the parts found and the bytes since the last dot (\<open>key[start:i]\<close>).\<close>

fun splitKey_loop :: "string list \<Rightarrow> string \<Rightarrow> string \<Rightarrow> string list" where
  "splitKey_loop parts seg [] = (if seg \<noteq> [] then parts @ [seg] else parts)"
| "splitKey_loop parts seg (c # s) =
     (if c = CHR ''.'' then splitKey_loop (if seg \<noteq> [] then parts @ [seg] else parts) [] s
      else splitKey_loop parts (seg @ [c]) s)"

definition splitKey :: "string \<Rightarrow> string list" where
  "splitKey key = splitKey_loop [] [] key"

definition splitPath :: "string \<Rightarrow> string list" where
  "splitPath key = (if key = [] then [] else filter (\<lambda>p. p \<noteq> []) (split_on (CHR ''.'') key))"

text \<open>A key part that survives a round trip: not empty and without a dot.\<close>

definition clean_part :: "string \<Rightarrow> bool" where
  "clean_part p \<longleftrightarrow> p \<noteq> [] \<and> CHR ''.'' \<notin> set p"

abbreviation dotted :: "string list \<Rightarrow> string" where
  "dotted \<equiv> join_with (CHR ''.'')"

text \<open>A key is clean when it is the dotted form of at least one clean part.\<close>

definition clean_key :: "string \<Rightarrow> bool" where
  "clean_key k \<longleftrightarrow> splitKey k \<noteq> [] \<and> dotted (splitKey k) = k"

lemma split_on_nonempty [simp]: "split_on c s \<noteq> []"
  by (cases s) (auto split: list.splits)

lemma split_on_append_plain:
  "c \<notin> set w \<Longrightarrow> split_on c (w @ s) = (w @ hd (split_on c s)) # tl (split_on c s)"
  by (induction w) (auto split: list.splits)

lemma split_on_plain: "c \<notin> set w \<Longrightarrow> split_on c w = [w]"
  using split_on_append_plain [of c w "[]"] by simp

lemma splitKey_loop_split:
  "CHR ''.'' \<notin> set seg \<Longrightarrow>
     splitKey_loop parts seg s = parts @ filter (\<lambda>p. p \<noteq> []) (split_on (CHR ''.'') (seg @ s))"
proof (induction parts seg s rule: splitKey_loop.induct)
  case (1 parts seg)
  then show ?case by (auto simp: split_on_plain)
next
  case (2 parts seg c s)
  then show ?case
    by (cases "c = CHR ''.''") (auto simp: split_on_append_plain)
qed

lemma splitKey_filter: "splitKey k = filter (\<lambda>p. p \<noteq> []) (split_on (CHR ''.'') k)"
  by (simp add: splitKey_def splitKey_loop_split)

lemma split_on_parts: "p \<in> set (split_on c s) \<Longrightarrow> c \<notin> set p"
  by (induction s arbitrary: p) (auto split: if_splits list.splits)

lemma splitKey_clean_parts: "p \<in> set (splitKey k) \<Longrightarrow> clean_part p"
  by (auto simp: splitKey_filter clean_part_def dest: split_on_parts)

lemma split_on_dotted:
  "ps \<noteq> [] \<Longrightarrow> \<forall>p\<in>set ps. c \<notin> set p \<Longrightarrow> split_on c (join_with c ps) = ps"
proof (induction c ps rule: join_with.induct)
  case (2 c w)
  then show ?case using split_on_append_plain [of c w "[]"] by simp
next
  case (3 c w v ws)
  then have "split_on c (join_with c (v # ws)) = v # ws" by simp
  with 3 show ?case by (simp add: split_on_append_plain)
qed simp

lemma splitKey_dotted: "ps \<noteq> [] \<Longrightarrow> \<forall>p\<in>set ps. clean_part p \<Longrightarrow> splitKey (dotted ps) = ps"
  by (simp add: splitKey_filter split_on_dotted clean_part_def)

lemma clean_key_dotted: "ps \<noteq> [] \<Longrightarrow> \<forall>p\<in>set ps. clean_part p \<Longrightarrow> clean_key (dotted ps)"
  by (simp add: clean_key_def splitKey_dotted)

lemma splitKey_inj_clean: "clean_key a \<Longrightarrow> clean_key b \<Longrightarrow> splitKey a = splitKey b \<Longrightarrow> a = b"
  by (metis clean_key_def)

section \<open>Nested maps\<close>

text \<open>The map stored under a part, or a fresh one where there is none or a non-map is stored.\<close>

definition submap :: "string \<Rightarrow> any gomap \<Rightarrow> any gomap" where
  "submap p cur = (case mget cur p of Some (AMap n) \<Rightarrow> n | _ \<Rightarrow> [])"

text \<open>\<open>insertIndexed\<close> after the key is split: descend, replacing non-maps on the way.\<close>

fun insert_path :: "string list \<Rightarrow> any \<Rightarrow> any gomap \<Rightarrow> any gomap" where
  "insert_path [] v cur = cur"
| "insert_path [p] v cur = mput p v cur"
| "insert_path (p # q # ps) v cur = mput p (AMap (insert_path (q # ps) v (submap p cur))) cur"

definition insertIndexed :: "string \<Rightarrow> any \<Rightarrow> any gomap \<Rightarrow> any gomap" where
  "insertIndexed key v indexed = insert_path (splitKey key) v indexed"

text \<open>
  The value at a path, when it is a leaf: a stored value that is not itself a map.
\<close>

fun is_map :: "any \<Rightarrow> bool" where
  "is_map (AMap _) = True"
| "is_map _ = False"

fun leaf_at :: "string list \<Rightarrow> any gomap \<Rightarrow> any option" where
  "leaf_at [] m = None"
| "leaf_at [p] m = (case mget m p of Some v \<Rightarrow> if is_map v then None else Some v | None \<Rightarrow> None)"
| "leaf_at (p # q # ps) m = leaf_at (q # ps) (submap p m)"

text \<open>
  \<open>flattenRecursive\<close> adds the entries of \<open>m\<close> to \<open>result\<close> under the prefixed keys.
\<close>

definition prefixed :: "string \<Rightarrow> string \<Rightarrow> string" where
  "prefixed pre k = (if pre \<noteq> [] then pre @ ''.'' @ k else k)"

fun flattenRecursive :: "any gomap \<Rightarrow> string \<Rightarrow> any gomap \<Rightarrow> any gomap" where
  "flattenRecursive [] pre result = result"
| "flattenRecursive ((k, v) # m) pre result =
     flattenRecursive m pre
       (case v of AMap n \<Rightarrow> flattenRecursive n (prefixed pre k) result
        | _ \<Rightarrow> mput (prefixed pre k) v result)"

definition Flatten :: "any gomap \<Rightarrow> string \<Rightarrow> any gomap" where
  "Flatten m pre = flattenRecursive m pre []"

section \<open>Flattening in terms of leaves\<close>

text \<open>All leaves with their paths, in iteration order.\<close>

fun leaves :: "any gomap \<Rightarrow> (string list \<times> any) list" where
  "leaves [] = []"
| "leaves ((k, v) # m) =
     (case v of AMap n \<Rightarrow> map (\<lambda>(ps, w). (k # ps, w)) (leaves n) | _ \<Rightarrow> [([k], v)]) @ leaves m"

text \<open>Maps whose keys are distinct and clean at every level.\<close>

fun nested_ok :: "any gomap \<Rightarrow> bool" where
  "nested_ok [] = True"
| "nested_ok ((k, v) # m) \<longleftrightarrow>
     k \<notin> set (mkeys m) \<and> clean_part k \<and> (case v of AMap n \<Rightarrow> nested_ok n | _ \<Rightarrow> True) \<and> nested_ok m"

lemma mput_all_append: "mput_all dst (xs @ ys) = mput_all (mput_all dst xs) ys"
  by (induction dst xs rule: mput_all.induct) auto

lemma flattenRecursive_leaves:
  "flattenRecursive m pre result =
     mput_all result (map (\<lambda>(ps, v). (foldl prefixed pre ps, v)) (leaves m))"
proof (induction m pre result rule: flattenRecursive.induct)
  case (2 k v m pre result)
  then show ?case
    by (cases v) (simp_all add: mput_all_append o_def case_prod_beta)
qed simp

lemma leaves_nonempty_path: "(ps, v) \<in> set (leaves m) \<Longrightarrow> ps \<noteq> []"
  by (induction m rule: leaves.induct) (auto split: any.splits)

lemma leaves_not_map: "(ps, v) \<in> set (leaves m) \<Longrightarrow> \<not> is_map v"
  by (induction m arbitrary: ps rule: leaves.induct) (auto split: any.splits)

lemma leaves_clean:
  "nested_ok m \<Longrightarrow> (ps, v) \<in> set (leaves m) \<Longrightarrow> \<forall>p\<in>set ps. clean_part p"
  by (induction m arbitrary: ps v rule: leaves.induct) (fastforce split: any.splits)+

lemma leaves_hd: "(ps, v) \<in> set (leaves m) \<Longrightarrow> hd ps \<in> set (mkeys m)"
  by (induction m rule: leaves.induct) (auto split: any.splits)

lemma submap_Cons: "submap p ((k, v) # m) = (if p = k then (case v of AMap n \<Rightarrow> n | _ \<Rightarrow> []) else submap p m)"
  by (simp add: submap_def split: any.splits)

lemma leaf_at_Cons:
  "ps \<noteq> [] \<Longrightarrow> leaf_at ps ((k, v) # m) =
     (if hd ps = k
      then (if tl ps = [] then (if is_map v then None else Some v)
            else leaf_at (tl ps) (case v of AMap n \<Rightarrow> n | _ \<Rightarrow> []))
      else leaf_at ps m)"
  by (cases ps; cases "tl ps") (auto simp: submap_Cons)

lemma leaf_at_Nil [simp]: "leaf_at ps [] = None"
  by (induction ps "[] :: any gomap" rule: leaf_at.induct) (simp_all add: submap_def)

lemma leaf_at_hd: "leaf_at ps m = Some v \<Longrightarrow> ps \<noteq> [] \<and> hd ps \<in> set (mkeys m)"
proof (induction m)
  case (Cons e m)
  then show ?case
    by (cases e; cases "ps = []") (auto simp: leaf_at_Cons split: if_splits)
qed simp

lemma leaves_leaf_at: "nested_ok m \<Longrightarrow> (ps, v) \<in> set (leaves m) \<longleftrightarrow> leaf_at ps m = Some v"
proof (induction m arbitrary: ps v rule: leaves.induct)
  case (2 k w m)
  have rest: "(ps, v) \<in> set (leaves m) \<longleftrightarrow> leaf_at ps m = Some v" for ps v
    using 2 by simp
  have k: "k \<notin> set (mkeys m)" using 2 by simp
  show ?case
  proof (cases "ps = []")
    case True
    then show ?thesis using leaves_nonempty_path [of ps v "(k, w) # m"] by auto
  next
    case False
    then obtain p qs where ps: "ps = p # qs" by (cases ps) auto
    show ?thesis
    proof (cases "p = k")
      case True
      then have "(ps, v) \<notin> set (leaves m)" using k leaves_hd [of ps v m] ps by auto
      with True ps 2 show ?thesis
        by (cases w) (auto simp: leaf_at_Cons dest: leaves_nonempty_path)
    next
      case False
      with ps rest show ?thesis by (auto simp: leaf_at_Cons split: any.splits)
    qed
  qed
qed simp

lemma distinct_leaf_paths: "nested_ok m \<Longrightarrow> distinct (map fst (leaves m))"
proof (induction m rule: leaves.induct)
  case (2 k v m)
  have fresh: "(k # qs, w) \<notin> set (leaves m)" for qs w
    using 2(3) leaves_hd [of "k # qs" w m] by auto
  have m: "distinct (map fst (leaves m))" using 2 by simp
  show ?case
  proof (cases v)
    case (AMap n)
    have paths: "map fst (leaves ((k, v) # m)) = map ((#) k) (map fst (leaves n)) @ map fst (leaves m)"
      using AMap by (simp add: case_prod_beta)
    have n: "distinct (map fst (leaves n))" using 2 AMap by simp
    have "set (map ((#) k) (map fst (leaves n))) \<inter> set (map fst (leaves m)) = {}"
      using fresh by auto
    then show ?thesis
      unfolding paths distinct_append using n m by (simp only: distinct_map) (simp add: inj_on_def)
  qed (use m fresh in auto)
qed simp

lemma foldl_prefixed:
  "pre \<noteq> [] \<Longrightarrow> foldl prefixed pre ps = dotted (pre # ps)"
proof (induction ps arbitrary: pre)
  case (Cons p ps)
  have "prefixed pre p \<noteq> []" using Cons.prems by (simp add: prefixed_def)
  then have "foldl prefixed (prefixed pre p) ps = dotted (prefixed pre p # ps)"
    by (rule Cons.IH)
  moreover have "dotted (prefixed pre p # ps) = dotted (pre # p # ps)"
    using Cons.prems by (cases ps) (simp_all add: prefixed_def)
  ultimately show ?case by (simp only: foldl.simps)
qed simp

lemma foldl_prefixed_Nil: "ps \<noteq> [] \<Longrightarrow> hd ps \<noteq> [] \<Longrightarrow> foldl prefixed [] ps = dotted ps"
  by (cases ps) (simp_all add: prefixed_def foldl_prefixed)

section \<open>Flatten reads exactly the leaves\<close>

lemma flatten_pairs:
  assumes "nested_ok m"
  shows "Flatten m [] = mput_all [] (map (\<lambda>(ps, v). (dotted ps, v)) (leaves m))"
proof -
  have "foldl prefixed [] ps = dotted ps" if "(ps, v) \<in> set (leaves m)" for ps v
    using that assms leaves_nonempty_path [OF that] leaves_clean [OF assms that]
    by (intro foldl_prefixed_Nil) (auto simp: clean_part_def)
  then have "map (\<lambda>(ps, v). (foldl prefixed [] ps, v)) (leaves m)
      = map (\<lambda>(ps, v). (dotted ps, v)) (leaves m)"
    by auto
  then show ?thesis by (simp only: Flatten_def flattenRecursive_leaves)
qed

lemma wf_dotted_leaves:
  assumes "nested_ok m"
  shows "wf_map (map (\<lambda>(ps, v). (dotted ps, v)) (leaves m))"
proof -
  have "inj_on dotted (fst ` set (leaves m))"
    using leaves_clean [OF assms] leaves_nonempty_path
    by (intro inj_onI) (metis (no_types, lifting) imageE prod.collapse splitKey_dotted)
  moreover have "mkeys (map (\<lambda>(ps, v). (dotted ps, v)) (leaves m)) = map dotted (map fst (leaves m))"
    by (simp add: case_prod_beta)
  ultimately show ?thesis
    unfolding wf_map_def using distinct_leaf_paths [OF assms] by (metis distinct_map set_map)
qed

lemma mget_Flatten_iff:
  assumes "nested_ok m"
  shows "mget (Flatten m []) k = Some v \<longleftrightarrow> (\<exists>ps. k = dotted ps \<and> leaf_at ps m = Some v)"
proof -
  let ?d = "map (\<lambda>(ps, v). (dotted ps, v)) (leaves m)"
  have "mget (Flatten m []) k = mget ?d k"
    using wf_dotted_leaves [OF assms]
    by (simp only: flatten_pairs [OF assms] mget_mput_all) (simp split: option.splits)
  also have "\<dots> = Some v \<longleftrightarrow> (k, v) \<in> set ?d"
    by (rule wf_map_mget_iff [OF wf_dotted_leaves [OF assms]])
  also have "\<dots> \<longleftrightarrow> (\<exists>ps. k = dotted ps \<and> (ps, v) \<in> set (leaves m))"
    by force
  finally show ?thesis by (simp add: leaves_leaf_at [OF assms])
qed

lemma wf_map_Flatten: "wf_map (Flatten m pre)"
  by (simp add: Flatten_def flattenRecursive_leaves)

section \<open>Inserting along a path\<close>

lemma nested_ok_mget: "nested_ok m \<Longrightarrow> mget m p = Some (AMap n) \<Longrightarrow> nested_ok n"
  by (induction m rule: nested_ok.induct) (auto split: any.splits if_splits)

lemma nested_ok_submap: "nested_ok m \<Longrightarrow> nested_ok (submap p m)"
  using nested_ok_mget by (auto simp: submap_def split: option.splits any.splits)

lemma nested_ok_mput:
  "nested_ok m \<Longrightarrow> clean_part p \<Longrightarrow> (case w of AMap n \<Rightarrow> nested_ok n | _ \<Rightarrow> True) \<Longrightarrow> nested_ok (mput p w m)"
proof (induction m rule: nested_ok.induct)
  case (2 k v m)
  then show ?case by (cases "k = p") (auto simp: dom_update split: any.splits)
qed (auto split: any.splits)

lemma nested_ok_insert:
  "nested_ok m \<Longrightarrow> \<forall>p\<in>set ps. clean_part p \<Longrightarrow> \<not> is_map v \<Longrightarrow> nested_ok (insert_path ps v m)"
proof (induction ps v m rule: insert_path.induct)
  case (2 p v cur)
  then show ?case by (cases v) (auto intro!: nested_ok_mput)
next
  case (3 p q ps v cur)
  then show ?case by (auto simp: nested_ok_submap intro!: nested_ok_mput)
qed simp

lemma submap_mput:
  "submap q (mput p w m) = (if q = p then (case w of AMap n \<Rightarrow> n | _ \<Rightarrow> []) else submap q m)"
  by (simp add: submap_def)

lemma leaf_at_mput:
  "leaf_at (q # qs) (mput p w m) =
     (if q \<noteq> p then leaf_at (q # qs) m
      else if qs = [] then (if is_map w then None else Some w)
      else leaf_at qs (case w of AMap n \<Rightarrow> n | _ \<Rightarrow> []))"
  by (cases qs) (simp_all add: submap_mput)

text \<open>
  After inserting a leaf at \<open>ps\<close>: the leaf is there, every leaf at a prefix or an extension
  of \<open>ps\<close> is gone, and every other leaf is as before.
\<close>

lemma leaf_at_insert:
  "ps \<noteq> [] \<Longrightarrow> \<not> is_map v \<Longrightarrow>
     leaf_at qs (insert_path ps v m) =
       (if qs = ps then Some v else if prefix qs ps \<or> prefix ps qs then None else leaf_at qs m)"
proof (induction ps v m arbitrary: qs rule: insert_path.induct)
  case (2 p v cur)
  show ?case
  proof (cases qs)
    case (Cons q qs')
    have "leaf_at qs' (case v of AMap n \<Rightarrow> n | _ \<Rightarrow> []) = None"
      using 2 by (cases v) auto
    then show ?thesis using 2 Cons by (auto simp: leaf_at_mput simp del: leaf_at.simps)
  qed simp
next
  case (3 p q ps v cur)
  show ?case
  proof (cases qs)
    case (Cons r rs)
    have IH: "leaf_at rs (insert_path (q # ps) v (submap p cur)) =
        (if rs = q # ps then Some v else if prefix rs (q # ps) \<or> prefix (q # ps) rs then None
         else leaf_at rs (submap p cur))"
      using 3 by simp
    show ?thesis
    proof (cases "rs = []")
      case True
      then show ?thesis using Cons by simp
    next
      case False
      have "leaf_at qs (insert_path (p # q # ps) v cur) =
          (if r \<noteq> p then leaf_at qs cur else leaf_at rs (insert_path (q # ps) v (submap p cur)))"
        using Cons False by (simp add: leaf_at_mput del: leaf_at.simps)
      moreover have "leaf_at qs cur = leaf_at rs (submap r cur)"
        using Cons False by (cases rs) simp_all
      ultimately show ?thesis
        using IH Cons False by (auto simp del: leaf_at.simps insert_path.simps)
    qed
  qed simp
qed simp

section \<open>The nested view of a flat configuration\<close>

text \<open>No key of the map is a path prefix of another.\<close>

definition prefix_free :: "'v gomap \<Rightarrow> bool" where
  "prefix_free m \<longleftrightarrow>
     (\<forall>a\<in>set (mkeys m). \<forall>b\<in>set (mkeys m). prefix (splitKey a) (splitKey b) \<longrightarrow> a = b)"

fun index_all :: "any gomap \<Rightarrow> any gomap \<Rightarrow> any gomap" where
  "index_all [] indexed = indexed"
| "index_all ((k, v) # m) indexed = index_all m (insertIndexed k v indexed)"

text \<open>A flat configuration whose keys and values the nested view represents faithfully.\<close>

definition flat_ok :: "any gomap \<Rightarrow> bool" where
  "flat_ok m \<longleftrightarrow> wf_map m \<and> prefix_free m \<and> (\<forall>(k, v)\<in>set m. clean_key k \<and> \<not> is_map v)"

lemma flat_ok_Cons:
  assumes "flat_ok ((k, v) # m)"
  shows "flat_ok m" "clean_key k" "\<not> is_map v" "k \<notin> set (mkeys m)"
    and "a \<in> set (mkeys m) \<Longrightarrow> \<not> prefix (splitKey a) (splitKey k) \<and> \<not> prefix (splitKey k) (splitKey a)"
  using assms by (auto simp: flat_ok_def prefix_free_def)

lemma nested_ok_index_all: "flat_ok m \<Longrightarrow> nested_ok idx \<Longrightarrow> nested_ok (index_all m idx)"
proof (induction m idx rule: index_all.induct)
  case (2 k v m idx)
  then show ?case
    using flat_ok_Cons [OF 2(2)]
    by (auto simp: insertIndexed_def dest: splitKey_clean_parts intro!: nested_ok_insert)
qed simp

lemma mget_Some_clean: "flat_ok m \<Longrightarrow> k \<in> set (mkeys m) \<Longrightarrow> dotted (splitKey k) = k"
  by (auto simp: flat_ok_def clean_key_def)

lemma leaf_at_index_all:
  "flat_ok m \<Longrightarrow> leaf_at qs (index_all m idx) =
     (if \<exists>k\<in>set (mkeys m). qs = splitKey k then mget m (dotted qs)
      else if \<exists>k\<in>set (mkeys m). prefix qs (splitKey k) \<or> prefix (splitKey k) qs then None
      else leaf_at qs idx)"
proof (induction m idx rule: index_all.induct)
  case (2 k v m idx)
  note c = flat_ok_Cons [OF 2(2)]
  have k: "splitKey k \<noteq> []" "dotted (splitKey k) = k" using c(2) by (auto simp: clean_key_def)
  have ins: "leaf_at qs (insertIndexed k v idx) =
      (if qs = splitKey k then Some v
       else if prefix qs (splitKey k) \<or> prefix (splitKey k) qs then None else leaf_at qs idx)"
    using k(1) c(3) by (simp add: insertIndexed_def leaf_at_insert)
  have IH: "leaf_at qs (index_all m (insertIndexed k v idx)) =
     (if \<exists>k\<in>set (mkeys m). qs = splitKey k then mget m (dotted qs)
      else if \<exists>k\<in>set (mkeys m). prefix qs (splitKey k) \<or> prefix (splitKey k) qs then None
      else leaf_at qs (insertIndexed k v idx))"
    using 2 c(1) by simp
  show ?case
  proof (cases "qs = splitKey k")
    case True
    then have "\<not> (\<exists>k\<in>set (mkeys m). prefix qs (splitKey k) \<or> prefix (splitKey k) qs)"
      using c(5) by blast
    then show ?thesis using True IH ins k by fastforce
  next
    case False
    show ?thesis
    proof (cases "\<exists>a\<in>set (mkeys m). qs = splitKey a")
      case True
      then have "dotted qs \<noteq> k" using c mget_Some_clean by fastforce
      with True False show ?thesis by (simp add: IH)
    next
      case none: False
      with False show ?thesis by (simp add: IH ins)
    qed
  qed
qed simp

lemma Flatten_index_all: "flat_ok m \<Longrightarrow> map_of (Flatten (index_all m []) []) = map_of m"
proof
  fix k
  assume m: "flat_ok m"
  have ok: "nested_ok (index_all m [])" using m by (simp add: nested_ok_index_all)
  have "mget (Flatten (index_all m []) []) k = Some v \<longleftrightarrow> mget m k = Some v" for v
  proof
    assume "mget (Flatten (index_all m []) []) k = Some v"
    then obtain ps where "k = dotted ps" "leaf_at ps (index_all m []) = Some v"
      using mget_Flatten_iff [OF ok] by blast
    then show "mget m k = Some v" by (simp add: leaf_at_index_all [OF m] split: if_splits)
  next
    assume v: "mget m k = Some v"
    then have k: "k \<in> set (mkeys m)" by (force dest: map_of_SomeD)
    then have "leaf_at (splitKey k) (index_all m []) = Some v"
      using v mget_Some_clean [OF m k] by (simp add: leaf_at_index_all [OF m]) blast
    then show "mget (Flatten (index_all m []) []) k = Some v"
      using mget_Flatten_iff [OF ok] mget_Some_clean [OF m k] by metis
  qed
  then show "mget (Flatten (index_all m []) []) k = mget m k"
    by (metis not_None_eq)
qed

end
