(* ===== verification/GoText.thy ===== *)
theory GoText
  imports KeyPath
begin

text \<open>
  Lemmas about trimming, splitting and joining text that the proofs about parsers, validators
  and exporters share.
\<close>

section \<open>Trimming plain text\<close>

text \<open>A visible ASCII character; text that begins and ends with such characters is not trimmed.\<close>

definition plain_char :: "char \<Rightarrow> bool" where
  "plain_char c \<longleftrightarrow> 33 \<le> byte c \<and> byte c \<le> 126"

lemma strip_one_None: "\<forall>p\<in>set ps. p \<noteq> [] \<longrightarrow> hd p \<noteq> c \<Longrightarrow> strip_one ps (c # s) = None"
proof (induction ps)
  case (Cons p ps)
  then show ?case by (cases p) (auto simp: has_prefix_def)
qed simp

lemma space_codes_heads:
  "\<forall>p\<in>set space_codes. \<not> plain_char (hd p)" "\<forall>p\<in>set (map rev space_codes). \<not> plain_char (hd p)"
  by (code_simp, code_simp)

lemma trim_left_plain:
  assumes "\<forall>p\<in>set ps. \<not> plain_char (hd p)" and "s = [] \<or> plain_char (hd s)" and "[] \<notin> set ps"
  shows "trim_left ps s = s"
proof (cases s)
  case Nil
  have "strip_one ps [] = None" using assms(3) by (induction ps) (auto simp: has_prefix_def)
  then show ?thesis using Nil by (subst trim_left.simps) simp
next
  case (Cons c cs)
  then have "strip_one ps s = None" using assms by (auto intro!: strip_one_None)
  then show ?thesis by (subst trim_left.simps) simp
qed

lemma trim_space_plain:
  assumes "s = [] \<or> plain_char (hd s) \<and> plain_char (last s)"
  shows "trim_space s = s"
proof -
  have ne: "[] \<notin> set space_codes" "[] \<notin> set (map rev space_codes)" by (code_simp, code_simp)
  have "trim_left space_codes s = s"
    using assms by (intro trim_left_plain [OF space_codes_heads(1) _ ne(1)]) auto
  moreover have "trim_left (map rev space_codes) (rev s) = rev s"
    using assms by (intro trim_left_plain [OF space_codes_heads(2) _ ne(2)]) (auto simp: hd_rev)
  ultimately show ?thesis by (simp add: trim_space_def)
qed

lemma trim_space_blank: "trim_space (CHR '' '' # s) = trim_space s"
proof -
  have sp: "space_codes = [[chr 9], [chr 10], [chr 11], [chr 12], [chr 13], [chr 32]] @ drop 6 space_codes"
    by code_simp
  have b: "chr 32 = CHR '' ''" "chr 9 \<noteq> CHR '' ''" "chr 10 \<noteq> CHR '' ''" "chr 11 \<noteq> CHR '' ''"
    "chr 12 \<noteq> CHR '' ''" "chr 13 \<noteq> CHR '' ''" by code_simp+
  have "strip_one space_codes (CHR '' '' # s) = Some s"
    by (subst sp) (simp add: has_prefix_def b)
  then have "trim_left space_codes (CHR '' '' # s) = trim_left space_codes s"
    by (subst trim_left.simps) simp
  then show ?thesis by (simp add: trim_space_def)
qed

lemma trim_space_blanks: "trim_space (replicate n (CHR '' '') @ s) = trim_space s"
  by (induction n) (simp_all add: trim_space_blank)

section \<open>Splitting what was joined\<close>

lemma split_on_append:
  "c \<notin> set w \<Longrightarrow> split_on c (w @ c # s) = w # split_on c s"
  by (induction w) auto

lemma split2_append: "c \<notin> set w \<Longrightarrow> split2 c (w @ c # s) = (w, Some s)"
proof -
  assume "c \<notin> set w"
  then have "index_of c (w @ c # s) = Some (length w)" by (induction w) auto
  then show ?thesis by (simp add: split2_def)
qed

lemma split2_plain: "c \<notin> set w \<Longrightarrow> split2 c w = (w, None)"
proof -
  assume "c \<notin> set w"
  then have "index_of c w = None" by (induction w) auto
  then show ?thesis by (simp add: split2_def)
qed

lemma digit_plain: "d < 10 \<Longrightarrow> plain_char (digit_char d)"
  by (simp add: plain_char_def byte_digit_char)

lemma set_nat_str: "c \<in> set (nat_str n) \<Longrightarrow> is_digit c"
  by (induction n rule: nat_str.induct) (subst (asm) (2) nat_str.simps, auto split: if_splits)

lemma itoa_chars: "c \<in> set (itoa n) \<Longrightarrow> is_digit c \<or> c = CHR ''-''"
  by (auto simp: itoa_def split: if_splits dest: set_nat_str)

lemma itoa_nonempty [simp]: "itoa n \<noteq> []"
  by (simp add: itoa_def)

lemma itoa_plain: "c \<in> set (itoa n) \<Longrightarrow> plain_char c"
  using itoa_chars [of c n] by (auto simp: plain_char_def is_digit_def byte_def)

lemma trim_space_itoa [simp]: "trim_space (itoa n) = itoa n"
  using itoa_plain [of "hd (itoa n)" n] itoa_plain [of "last (itoa n)" n]
  by (intro trim_space_plain) simp

end
