(* ===== verification/GoUtf8.thy ===== *)
theory GoUtf8
  imports GoText
begin

text \<open>
  The runes of a string: what \<open>for i, r := range s\<close> visits, \<open>utf8.DecodeRuneInString\<close> and
  \<open>utf8.AppendRune\<close>.  An invalid byte is the rune U+FFFD of width one.
\<close>

definition cont_byte :: "nat \<Rightarrow> nat \<Rightarrow> string \<Rightarrow> nat \<Rightarrow> bool" where
  "cont_byte lo hi s i \<longleftrightarrow> i < length s \<and> lo \<le> byte (s ! i) \<and> byte (s ! i) \<le> hi"

definition decode_rune :: "string \<Rightarrow> nat \<times> nat" where
  "decode_rune s =
     (let b0 = byte (hd s); b = (\<lambda>i. byte (s ! i) - 128)
      in if b0 < 128 then (b0, 1)
         else if 194 \<le> b0 \<and> b0 \<le> 223 \<and> cont_byte 128 191 s 1 then ((b0 - 192) * 64 + b 1, 2)
         else if 224 \<le> b0 \<and> b0 \<le> 239
                 \<and> cont_byte (if b0 = 224 then 160 else 128) (if b0 = 237 then 159 else 191) s 1
                 \<and> cont_byte 128 191 s 2
              then ((b0 - 224) * 4096 + b 1 * 64 + b 2, 3)
         else if 240 \<le> b0 \<and> b0 \<le> 244
                 \<and> cont_byte (if b0 = 240 then 144 else 128) (if b0 = 244 then 143 else 191) s 1
                 \<and> cont_byte 128 191 s 2 \<and> cont_byte 128 191 s 3
              then ((b0 - 240) * 262144 + b 1 * 4096 + b 2 * 64 + b 3, 4)
         else (65533, 1))"

lemma decode_rune_width: "0 < snd (decode_rune s)"
  by (simp add: decode_rune_def Let_def)

text \<open>The pairs that \<open>for i, r := range s\<close> visits, from byte index \<open>i\<close>.\<close>

function runes_from :: "nat \<Rightarrow> string \<Rightarrow> (nat \<times> nat) list" where
  "runes_from i s =
     (if s = [] then []
      else let (r, n) = decode_rune s in (i, r) # runes_from (i + n) (drop n s))"
  by pat_completeness auto
termination
proof (relation "measure (\<lambda>(i, s). length s)")
  fix i s x r n assume "s \<noteq> []" "x = decode_rune s" "(r, n) = x"
  moreover have "0 < n" using calculation decode_rune_width [of s] by (metis snd_conv)
  ultimately show "((i + n, drop n s), i, s) \<in> measure (\<lambda>(i, s). length s)" by simp
qed simp

declare runes_from.simps [simp del]

lemma runes_ascii: "\<forall>c\<in>set s. byte c < 128 \<Longrightarrow> runes_from i s = List.enumerate i (map byte s)"
proof (induction s arbitrary: i)
  case (Cons c s)
  then have "decode_rune (c # s) = (byte c, 1)" by (simp add: decode_rune_def)
  then show ?case using Cons by (subst runes_from.simps) simp
qed (simp add: runes_from.simps)

section \<open>Encoding\<close>

definition encode_rune :: "nat \<Rightarrow> string" where
  "encode_rune r0 =
     (let r = (if 55296 \<le> r0 \<and> r0 \<le> 57343 \<or> 1114111 < r0 then 65533 else r0)
      in if r < 128 then [chr r]
         else if r < 2048 then [chr (192 + r div 64), chr (128 + r mod 64)]
         else if r < 65536 then [chr (224 + r div 4096), chr (128 + r div 64 mod 64), chr (128 + r mod 64)]
         else [chr (240 + r div 262144), chr (128 + r div 4096 mod 64), chr (128 + r div 64 mod 64), chr (128 + r mod 64)])"

lemma encode_ascii: "byte c < 128 \<Longrightarrow> encode_rune (byte c) = [c]"
  by (simp add: encode_rune_def chr_def byte_def char_of_char)

end
