(* ===== verification/GoFmt.thy ===== *)
theory GoFmt
  imports Types GoUtf8
begin

text \<open>
  What package fmt prints for the verb \<open>%v\<close> on the dynamic values: the shortest decimal text of a
  float64 in the format \<open>%g\<close>, durations and timestamps by their \<open>String\<close> methods, slices and maps
  with their elements, maps sorted by key.  \<open>other\<close> gives the text of the opaque values.
\<close>

section \<open>The shortest decimal of a float\<close>

text \<open>The least \<open>k\<close> with \<open>p / q < 10^k\<close>, searched upwards from a lower bound with fuel.\<close>

fun dec_exponent :: "nat \<Rightarrow> nat \<Rightarrow> nat \<Rightarrow> int \<Rightarrow> int" where
  "dec_exponent 0 p q k = k"
| "dec_exponent (Suc n) p q k =
     (if (if 0 \<le> k then p < q * 10 ^ nat k else p * 10 ^ nat (- k) < q) then k
      else dec_exponent n p q (k + 1))"

text \<open>The fraction \<open>c * 10^e\<close>.\<close>

definition frac10 :: "nat \<Rightarrow> int \<Rightarrow> nat \<times> nat" where
  "frac10 c e = (if 0 \<le> e then (c * 10 ^ nat e, 1) else (c, 10 ^ nat (- e)))"

definition reads_as :: "nat \<Rightarrow> int \<Rightarrow> float64 \<Rightarrow> bool" where
  "reads_as c e x \<longleftrightarrow> f64_round False (fst (frac10 c e)) (snd (frac10 c e)) = x"

text \<open>
  The shortest digits that read back as \<open>x\<close>, the value of \<open>p / q\<close>: of the two neighbours of
  \<open>p / q\<close> with \<open>n\<close> digits, the closer one that reads back; 17 digits are always enough.
\<close>

fun shortest :: "nat \<Rightarrow> nat \<Rightarrow> float64 \<Rightarrow> nat \<Rightarrow> nat \<Rightarrow> int \<Rightarrow> nat \<times> int" where
  "shortest 0 n x p q k = (0, 0)"
| "shortest (Suc fuel) n x p q k =
     (let e = k - int n;
          pq = (if 0 \<le> e then (p, q * 10 ^ nat e) else (p * 10 ^ nat (- e), q));
          d = fst pq div snd pq; r = fst pq mod snd pq
      in if reads_as d e x \<and> (2 * r \<le> snd pq \<or> \<not> reads_as (Suc d) e x) then (d, e)
         else if reads_as (Suc d) e x then (Suc d, e)
         else shortest fuel (Suc n) x p q k)"

text \<open>The digits without trailing zeros and the position of the point: \<open>0.D * 10^dp\<close>.\<close>

definition decimal :: "nat \<Rightarrow> int \<Rightarrow> string \<times> int" where
  "decimal m e =
     (let pq = frac2 m e;
          k = dec_exponent 700 (fst pq) (snd pq) (- 330);
          ce = shortest 18 1 (FFin False m e) (fst pq) (snd pq) k;
          ds = nat_str (fst ce)
      in (trim_trailing_zeros ds, snd ce + int (length ds)))"

definition exp_text :: "int \<Rightarrow> string" where
  "exp_text x = (if x < 0 then ''-'' else ''+'') @ pad_left 2 (nat_str (nat \<bar>x\<bar>))"

definition format_g :: "float64 \<Rightarrow> string" where
  "format_g x =
     (case x of
        FNaN \<Rightarrow> ''NaN''
      | FInf s \<Rightarrow> (if s then ''-Inf'' else ''+Inf'')
      | FFin s m e \<Rightarrow>
          (if s then ''-'' else []) @
          (if m = 0 then ''0''
           else case decimal m e of (ds, dp) \<Rightarrow>
             if dp - 1 < - 4 \<or> 6 \<le> dp - 1 then
               [hd ds] @ (if tl ds = [] then [] else CHR ''.'' # tl ds) @ ''e'' @ exp_text (dp - 1)
             else if dp \<le> 0 then ''0.'' @ replicate (nat (- dp)) (CHR ''0'') @ ds
             else if int (length ds) \<le> dp then ds @ replicate (nat dp - length ds) (CHR ''0'')
             else take (nat dp) ds @ CHR ''.'' # drop (nat dp) ds))"

section \<open>The verb v\<close>

definition time_text :: "int \<Rightarrow> string" where
  "time_text t =
     (let r = rfc3339 t; ns = nat (t mod 1000000000)
      in take (length r - 10) r @ '' '' @ take 8 (drop (length r - 9) r) @ frac_digits 9 ns False [] @ '' +0000 UTC'')"

text \<open>\<open>sprint_elems\<close> joins with blanks; the entries of a map are sorted by \<open>sort_entries\<close> first.\<close>

fun sort_entries :: "any \<Rightarrow> any" where
  "sort_entries (AMap m) = AMap (sort_key fst (map (\<lambda>(k, v). (k, sort_entries v)) m))"
| "sort_entries (ASlice xs) = ASlice (map sort_entries xs)"
| "sort_entries v = v"

fun sprint :: "(nat \<Rightarrow> string) \<Rightarrow> any \<Rightarrow> string"
  and sprint_elems :: "(nat \<Rightarrow> string) \<Rightarrow> any list \<Rightarrow> string"
  and sprint_entries :: "(nat \<Rightarrow> string) \<Rightarrow> (string \<times> any) list \<Rightarrow> string" where
  "sprint other ANil = ''<nil>''"
| "sprint other (AString s) = s"
| "sprint other (AInt i) = itoa (sint i)"
| "sprint other (AInt64 i) = itoa (sint i)"
| "sprint other (AFloat64 x) = format_g x"
| "sprint other (ABool b) = (if b then ''true'' else ''false'')"
| "sprint other (ADuration d) = duration_str (sint d)"
| "sprint other (ATime t) = time_text t"
| "sprint other (ASlice xs) = ''['' @ sprint_elems other xs @ '']''"
| "sprint other (AMap m) = ''map['' @ sprint_entries other m @ '']''"
| "sprint other (AOther i) = other i"
| "sprint_elems other [] = []"
| "sprint_elems other (x # xs) = sprint other x @ (if xs = [] then [] else '' '' @ sprint_elems other xs)"
| "sprint_entries other [] = []"
| "sprint_entries other ((k, v) # m) =
     k @ '':'' @ sprint other v @ (if m = [] then [] else '' '' @ sprint_entries other m)"

definition sprint_v :: "(nat \<Rightarrow> string) \<Rightarrow> any \<Rightarrow> string" where
  "sprint_v other v = sprint other (sort_entries v)"

end
