(* ===== verification/GoReflect.thy ===== *)
theory GoReflect
  imports GoFmt
begin

text \<open>
  What the struct binder uses of Go's type system and of package reflect: the types of the values it
  sets, the values themselves, zero values, the fields of a struct by index, and the setters, which
  truncate to the width of their target.  A type that refers to itself through a pointer is not
  representable; named types count by their kind, except \<open>time.Duration\<close> and \<open>time.Time\<close>.
\<close>

section \<open>Types and values\<close>

datatype width = W | W8 | W16 | W32 | W64

fun bits :: "width \<Rightarrow> nat" where
  "bits W = 64" | "bits W8 = 8" | "bits W16 = 16" | "bits W32 = 32" | "bits W64 = 64"

fun width_text :: "width \<Rightarrow> string" where
  "width_text W = []" | "width_text W8 = ''8''" | "width_text W16 = ''16''" | "width_text W32 = ''32''"
| "width_text W64 = ''64''"

text \<open>
  \<open>KOther\<close> is a type of any other kind, with the name of the kind (chan, func, ...); \<open>interface\<close> is the
  empty interface, whose values are nil (\<open>VOther\<close>) or a string.
\<close>

datatype gotype =
    KString
  | KInt width
  | KDuration
  | KUint width
  | KFloat width
  | KBool
  | KSlice gotype
  | KMap gotype gotype
  | KTime
  | KStruct "gofield list"
  | KPtr gotype
  | KOther string
and gofield =
  Field (f_name: string) (f_type: gotype) (f_tag: string) (f_exported: bool) (f_embedded: bool)

fun kind_text :: "gotype \<Rightarrow> string" where
  "kind_text KString = ''string''"
| "kind_text (KInt b) = ''int'' @ width_text b"
| "kind_text KDuration = ''int64''"
| "kind_text (KUint b) = ''uint'' @ width_text b"
| "kind_text (KFloat b) = ''float'' @ width_text b"
| "kind_text KBool = ''bool''"
| "kind_text (KSlice _) = ''slice''"
| "kind_text (KMap _ _) = ''map''"
| "kind_text KTime = ''struct''"
| "kind_text (KStruct _) = ''struct''"
| "kind_text (KPtr _) = ''ptr''"
| "kind_text (KOther k) = k"

text \<open>\<open>VFloat\<close> holds what \<open>Float()\<close> returns; nil slices, maps and pointers are \<open>None\<close>.\<close>

datatype goval =
    VString string
  | VInt int
  | VUint int
  | VFloat float64
  | VBool bool
  | VSlice "goval list option"
  | VMap "(goval \<times> goval) list option"
  | VTime int
  | VStruct "goval list"
  | VPtr "goval option"
  | VOther

fun zero_of :: "gotype \<Rightarrow> goval" and zeros_of :: "gofield list \<Rightarrow> goval list" where
  "zero_of KString = VString []"
| "zero_of (KInt _) = VInt 0"
| "zero_of KDuration = VInt 0"
| "zero_of (KUint _) = VUint 0"
| "zero_of (KFloat _) = VFloat f64_zero"
| "zero_of KBool = VBool False"
| "zero_of (KSlice _) = VSlice None"
| "zero_of (KMap _ _) = VMap None"
| "zero_of KTime = VTime 0"
| "zero_of (KStruct fs) = VStruct (zeros_of fs)"
| "zero_of (KPtr _) = VPtr None"
| "zero_of (KOther _) = VOther"
| "zeros_of [] = []"
| "zeros_of (Field _ t _ _ _ # fs) = zero_of t # zeros_of fs"

text \<open>The values of a type; integers within their width, a float32 is a rounded one.\<close>

definition int_fits :: "width \<Rightarrow> int \<Rightarrow> bool" where
  "int_fits b i \<longleftrightarrow> - (2 ^ (bits b - 1)) \<le> i \<and> i < 2 ^ (bits b - 1)"

definition uint_fits :: "width \<Rightarrow> int \<Rightarrow> bool" where
  "uint_fits b i \<longleftrightarrow> 0 \<le> i \<and> i < 2 ^ bits b"

fun has_type :: "goval \<Rightarrow> gotype \<Rightarrow> bool" and have_types :: "goval list \<Rightarrow> gofield list \<Rightarrow> bool" where
  "has_type (VString _) t = (t = KString \<or> t = KOther ''interface'')"
| "has_type (VInt i) t = (case t of KInt b \<Rightarrow> int_fits b i | KDuration \<Rightarrow> int_fits W64 i | _ \<Rightarrow> False)"
| "has_type (VUint i) t = (case t of KUint b \<Rightarrow> uint_fits b i | _ \<Rightarrow> False)"
| "has_type (VFloat x) t = (case t of KFloat b \<Rightarrow> True | _ \<Rightarrow> False)"
| "has_type (VBool _) t = (t = KBool)"
| "has_type (VSlice xs) t =
     (case t of KSlice e \<Rightarrow> (case xs of None \<Rightarrow> True | Some vs \<Rightarrow> \<forall>v\<in>set vs. has_type v e) | _ \<Rightarrow> False)"
| "has_type (VMap m) t =
     (case t of KMap kt e \<Rightarrow>
        (case m of None \<Rightarrow> True | Some kvs \<Rightarrow> \<forall>kv\<in>set kvs. has_type (fst kv) kt \<and> has_type (snd kv) e)
      | _ \<Rightarrow> False)"
| "has_type (VTime _) t = (t = KTime)"
| "has_type (VStruct vs) t = (case t of KStruct fs \<Rightarrow> have_types vs fs | _ \<Rightarrow> False)"
| "has_type (VPtr p) t = (case t of KPtr e \<Rightarrow> (case p of None \<Rightarrow> True | Some v \<Rightarrow> has_type v e) | _ \<Rightarrow> False)"
| "has_type VOther t = (case t of KOther _ \<Rightarrow> True | _ \<Rightarrow> False)"
| "have_types [] fs = (fs = [])"
| "have_types (v # vs) fs = (case fs of [] \<Rightarrow> False | f # fs' \<Rightarrow> has_type v (f_type f) \<and> have_types vs fs')"

section \<open>Setters\<close>

text \<open>\<open>SetInt\<close> and \<open>SetUint\<close> keep the low bits; an int64 is given as an integer.\<close>

definition set_int :: "width \<Rightarrow> int \<Rightarrow> goval" where
  "set_int b i = VInt (signed_take_bit (bits b - 1) i)"

definition set_uint :: "width \<Rightarrow> int \<Rightarrow> goval" where
  "set_uint b i = VUint (take_bit (bits b) i)"

text \<open>The conversion to float32 and back.\<close>

definition f32_round :: "float64 \<Rightarrow> float64" where
  "f32_round x =
     (case x of
        FFin s m e \<Rightarrow>
          (if m = 0 then x
           else let e' = max (e + int (nat_log2 m) - 23) (- 149);
                    pq = scale2 m 1 (e' - e);
                    fr = frac2 (round_half_even (fst pq) (snd pq)) e'
                in if 2 ^ 128 * snd fr \<le> fst fr then FInf s else f64_round s (fst fr) (snd fr))
      | _ \<Rightarrow> x)"

definition set_float :: "width \<Rightarrow> float64 \<Rightarrow> goval" where
  "set_float b x = VFloat (if b = W32 then f32_round x else x)"

section \<open>Fields by index\<close>

text \<open>The unexported fields of \<open>time.Time\<close>, which a wrong index can reach.\<close>

definition time_fields :: "gofield list" where
  "time_fields =
     [Field ''wall'' (KUint W64) [] False False, Field ''ext'' (KInt W64) [] False False,
      Field ''loc'' (KPtr (KOther ''struct'')) [] False False]"

text \<open>\<open>Value.Field\<close>: it panics on anything but a struct and out of range.\<close>

fun struct_field :: "gotype \<Rightarrow> goval \<Rightarrow> nat \<Rightarrow> (gofield \<times> goval) option" where
  "struct_field (KStruct fs) (VStruct vs) i = (if i < length fs \<and> i < length vs then Some (fs ! i, vs ! i) else None)"
| "struct_field KTime (VTime _) i = (if i < 3 then Some (time_fields ! i, zero_of (f_type (time_fields ! i))) else None)"
| "struct_field _ _ _ = None"

text \<open>
  \<open>Value.FieldByIndex\<close>: pointers to structs are followed on the way; a nil one panics.  The result has
  the type and the value of the field and whether it can be set: an unexported field on the way makes
  everything below read-only, unless it is embedded.
\<close>

fun field_by_index :: "bool \<Rightarrow> bool \<Rightarrow> gotype \<Rightarrow> goval \<Rightarrow> nat list \<Rightarrow> (gotype \<times> goval \<times> bool) option" where
  "field_by_index first ro t v [] = Some (t, v, \<not> ro)"
| "field_by_index first ro t v (i # is) =
     (case (if first then Some (t, v)
            else case (t, v) of
              (KPtr (KStruct fs), VPtr p) \<Rightarrow> map_option (\<lambda>u. (KStruct fs, u)) p
            | (KPtr KTime, VPtr p) \<Rightarrow> map_option (\<lambda>u. (KTime, u)) p
            | _ \<Rightarrow> Some (t, v)) of
        None \<Rightarrow> None
      | Some (t', v') \<Rightarrow>
          case struct_field t' v' i of
            None \<Rightarrow> None
          | Some (f, u) \<Rightarrow>
              if is = [] then Some (f_type f, u, \<not> ro \<and> f_exported f)
              else field_by_index False (ro \<or> \<not> f_exported f \<and> \<not> f_embedded f) (f_type f) u is)"

definition FieldByIndex :: "gotype \<Rightarrow> goval \<Rightarrow> nat list \<Rightarrow> (gotype \<times> goval \<times> bool) option" where
  "FieldByIndex t v is = field_by_index True False t v is"

text \<open>The same struct with the field at an index replaced.\<close>

fun put_at :: "goval \<Rightarrow> nat list \<Rightarrow> goval \<Rightarrow> goval" where
  "put_at v [] x = x"
| "put_at (VStruct vs) (i # is) x = VStruct (vs[i := put_at (vs ! i) is x])"
| "put_at (VPtr (Some v)) (i # is) x = VPtr (Some (put_at v (i # is) x))"
| "put_at v (i # is) x = v"

text \<open>\<open>Type.FieldByIndex\<close>.\<close>

fun type_field :: "gotype \<Rightarrow> nat \<Rightarrow> gofield option" where
  "type_field (KStruct fs) i = (if i < length fs then Some (fs ! i) else None)"
| "type_field KTime i = (if i < 3 then Some (time_fields ! i) else None)"
| "type_field _ _ = None"

fun type_by_index :: "bool \<Rightarrow> gotype \<Rightarrow> nat list \<Rightarrow> gotype option" where
  "type_by_index first t [] = Some t"
| "type_by_index first t (i # is) =
     (case type_field (if first then t
                       else case t of KPtr (KStruct fs) \<Rightarrow> KStruct fs | KPtr KTime \<Rightarrow> KTime | _ \<Rightarrow> t) i of
        None \<Rightarrow> None
      | Some f \<Rightarrow> type_by_index False (f_type f) is)"

section \<open>RFC 3339 timestamps\<close>

text \<open>
  \<open>time.Parse(time.RFC3339, s)\<close>: as the library reads it, the hour may have one digit, a fraction
  after the seconds is taken to nine digits, and the zone is Z or an offset.  Days are counted as in
  \<open>civil\<close>; the result is in nanoseconds since the zero time.
\<close>

definition num2 :: "string \<Rightarrow> (nat \<times> string) option" where
  "num2 s = (if 2 \<le> length s \<and> list_all is_digit (take 2 s) then Some (digits_val (take 2 s), drop 2 s) else None)"

definition num12 :: "string \<Rightarrow> (nat \<times> string) option" where
  "num12 s = (case num2 s of
      Some r \<Rightarrow> Some r
    | None \<Rightarrow> if s \<noteq> [] \<and> is_digit (hd s) then Some (digit_val (hd s), tl s) else None)"

definition num4 :: "string \<Rightarrow> (nat \<times> string) option" where
  "num4 s = (if 4 \<le> length s \<and> list_all is_digit (take 4 s) then Some (digits_val (take 4 s), drop 4 s) else None)"

definition skip_char :: "char \<Rightarrow> string \<Rightarrow> string option" where
  "skip_char c s = (if s \<noteq> [] \<and> hd s = c then Some (tl s) else None)"

definition leap :: "int \<Rightarrow> bool" where
  "leap y \<longleftrightarrow> y mod 4 = 0 \<and> (y mod 100 \<noteq> 0 \<or> y mod 400 = 0)"

definition days_in :: "int \<Rightarrow> int \<Rightarrow> int" where
  "days_in m y = (if m = 2 then (if leap y then 29 else 28) else if m \<in> {4, 6, 9, 11} then 30 else 31)"

definition civil_days :: "int \<Rightarrow> int \<Rightarrow> int \<Rightarrow> int" where
  "civil_days y m d =
     (let y' = (if m \<le> 2 then y - 1 else y); era = y' div 400; yoe = y' mod 400;
          mp = (m + 9) mod 12; doy = (153 * mp + 2) div 5 + d - 1;
          doe = yoe * 365 + yoe div 4 - yoe div 100 + doy
      in era * 146097 + doe - 306)"

text \<open>The fraction, if a point or comma and a digit follow: nanoseconds and the rest.\<close>

definition fraction_ns :: "string \<Rightarrow> int \<times> string" where
  "fraction_ns s =
     (if 2 \<le> length s \<and> hd s \<in> {CHR ''.'', CHR '',''} \<and> is_digit (s ! 1) then
        let ds = take 9 (takeWhile is_digit (tl s))
        in (int (digits_val (ds @ replicate (9 - length ds) (CHR ''0''))), dropWhile is_digit (tl s))
      else (0, s))"

text \<open>The zone offset in seconds.\<close>

definition zone_offset :: "string \<Rightarrow> (int \<times> string) option" where
  "zone_offset s =
     (case s of
        [] \<Rightarrow> None
      | c # r \<Rightarrow>
          if c = CHR ''Z'' then Some (0, r)
          else if c \<noteq> CHR ''+'' \<and> c \<noteq> CHR ''-'' then None
          else case num2 r of None \<Rightarrow> None
            | Some (h, r1) \<Rightarrow>
                case Option.bind (skip_char (CHR '':'') r1) num2 of None \<Rightarrow> None
                | Some (m, r2) \<Rightarrow>
                    if 24 < h \<or> 60 < m then None
                    else Some ((if c = CHR ''-'' then - 1 else 1) * (int h * 3600 + int m * 60), r2))"

definition parse_clock :: "string \<Rightarrow> (int \<times> string) option" where
  "parse_clock s =
     (case num12 s of None \<Rightarrow> None
      | Some (h, s1) \<Rightarrow>
          case Option.bind (skip_char (CHR '':'') s1) num2 of None \<Rightarrow> None
          | Some (mi, s2) \<Rightarrow>
              case Option.bind (skip_char (CHR '':'') s2) num2 of None \<Rightarrow> None
              | Some (sec, s3) \<Rightarrow>
                  if 24 \<le> h \<or> 60 \<le> mi \<or> 60 \<le> sec then None
                  else Some (int h * 3600 + int mi * 60 + int sec, s3))"

definition parse_rfc3339 :: "string \<Rightarrow> int option" where
  "parse_rfc3339 s =
     (case num4 s of None \<Rightarrow> None
      | Some (y, s1) \<Rightarrow>
          case Option.bind (skip_char (CHR ''-'') s1) num2 of None \<Rightarrow> None
          | Some (m, s2) \<Rightarrow>
              case Option.bind (skip_char (CHR ''-'') s2) num2 of None \<Rightarrow> None
              | Some (d, s3) \<Rightarrow>
                  case Option.bind (skip_char (CHR ''T'') s3) parse_clock of None \<Rightarrow> None
                  | Some (clock, s4) \<Rightarrow>
                      case fraction_ns s4 of (ns, s5) \<Rightarrow>
                        case zone_offset s5 of None \<Rightarrow> None
                        | Some (off, rest) \<Rightarrow>
                            if rest \<noteq> [] \<or> m = 0 \<or> 12 < m \<or> d = 0 \<or> days_in (int m) (int y) < int d then None
                            else Some ((civil_days (int y) (int m) (int d) * 86400 + clock - off) * 1000000000 + ns))"

section \<open>Lemmas\<close>

lemma bits_pos [simp]: "0 < bits b"
  by (cases b) simp_all

lemma has_type_zero_of [simp]: "has_type (zero_of t) t" "have_types (zeros_of fs) fs"
  by (induction t and fs rule: zero_of_zeros_of.induct) (simp_all add: int_fits_def uint_fits_def)

lemma int_fits_signed [simp]: "int_fits b (signed_take_bit (bits b - Suc 0) i)"
  using signed_take_bit_int_greater_eq_minus_exp [of "bits b - 1" i] signed_take_bit_int_less_exp [of "bits b - 1" i]
  by (simp add: int_fits_def)

lemma set_int_fits: "int_fits b i \<Longrightarrow> set_int b i = VInt i"
  by (simp add: set_int_def int_fits_def signed_take_bit_int_eq_self)

lemma has_type_set_int [simp]: "has_type (set_int b i) (KInt b)"
  by (simp add: set_int_def)

lemma has_type_set_duration [simp]: "has_type (set_int W64 i) KDuration"
  using int_fits_signed [of W64 i] by (simp add: set_int_def del: int_fits_signed)

lemma has_type_set_uint [simp]: "has_type (set_uint b i) (KUint b)"
  by (simp add: set_uint_def uint_fits_def)

lemma set_uint_fits: "uint_fits b i \<Longrightarrow> set_uint b i = VUint i"
  by (simp add: set_uint_def uint_fits_def take_bit_int_eq_self)

lemma has_type_set_float [simp]: "has_type (set_float b x) (KFloat b)"
  by (simp add: set_float_def)

lemma have_types_iff:
  "have_types vs fs \<longleftrightarrow> length vs = length fs \<and> (\<forall>i < length fs. has_type (vs ! i) (f_type (fs ! i)))"
proof (induction vs arbitrary: fs)
  case (Cons v vs)
  then show ?case by (cases fs) (auto simp: less_Suc_eq_0_disj nth_Cons')
qed auto

lemma has_type_KStruct: "has_type v (KStruct fs) \<longleftrightarrow> (\<exists>vs. v = VStruct vs \<and> have_types vs fs)"
  by (cases v) auto

lemma has_type_KPtr: "has_type v (KPtr t) \<longleftrightarrow> v = VPtr None \<or> (\<exists>u. v = VPtr (Some u) \<and> has_type u t)"
  by (cases v) (auto split: option.splits)

end
