(* ===== verification/Bind.thy ===== *)
theory Bind
  imports GoReflect KeyPath
begin

text \<open>
  Package bind (bind/bind.go): binding configuration values to the fields of a struct, with cached
  metadata per struct type, and the schema of a struct.

  The target is a struct of \<open>GoReflect\<close>.  An operation returns the binder's cache, the struct as it
  is afterwards, also when it fails half-way, and the error; \<open>None\<close> is a panic.  \<open>other\<close> is the text
  that fmt gives for values outside the dynamic types modelled.  Causes that come from strconv and
  time are texts with the name of the function.
\<close>

section \<open>Metadata\<close>

record fieldMeta =
  fm_index :: "nat list"
  fm_key :: string
  fm_required :: bool
  fm_hasDefault :: bool
  fm_defaultValue :: string

type_synonym structMeta = "fieldMeta list"

text \<open>The loop over the parts of a tag after the first.\<close>

fun tag_parts :: "string list \<Rightarrow> fieldMeta \<Rightarrow> fieldMeta" where
  "tag_parts [] fm = fm"
| "tag_parts (part # parts) fm =
     tag_parts parts
       (case split2 (CHR ''='') part of
          (name, v) \<Rightarrow>
            if name = ''required'' then fm\<lparr>fm_required := True\<rparr>
            else if name = ''default'' then
              (case v of Some d \<Rightarrow> fm\<lparr>fm_hasDefault := True, fm_defaultValue := d\<rparr> | None \<Rightarrow> fm)
            else fm)"

definition parseTag :: "string \<Rightarrow> nat \<Rightarrow> string \<Rightarrow> string list \<Rightarrow> nat list \<Rightarrow> fieldMeta" where
  "parseTag name i tag pre parentIndex =
     (let fm0 = \<lparr>fm_index = parentIndex @ [i], fm_key = [], fm_required = False, fm_hasDefault = False,
                 fm_defaultValue = []\<rparr>;
          parts = split_on (CHR '','') tag;
          fm1 = (if tag \<noteq> [] then tag_parts (tl parts) (fm0\<lparr>fm_key := hd parts\<rparr>) else fm0);
          fm2 = (if fm_key fm1 = [] then fm1\<lparr>fm_key := to_lower name\<rparr> else fm1)
      in if pre \<noteq> [] then fm2\<lparr>fm_key := dotted pre @ ''.'' @ fm_key fm2\<rparr> else fm2)"

text \<open>
  \<open>walkFields\<close>, with its loop over the fields.  The fields of an embedded struct get the parent's
  index, not that of the embedded field; an embedded field that is not a struct makes \<open>NumField\<close> panic.
\<close>

fun walkFields :: "gotype \<Rightarrow> string list \<Rightarrow> nat list \<Rightarrow> structMeta option"
  and walk_loop :: "gofield list \<Rightarrow> nat \<Rightarrow> string list \<Rightarrow> nat list \<Rightarrow> structMeta option" where
  "walkFields (KStruct fs) pre parentIndex = walk_loop fs 0 pre parentIndex"
| "walkFields KTime pre parentIndex = Some []"
| "walkFields _ pre parentIndex = None"
| "walk_loop [] i pre parentIndex = Some []"
| "walk_loop (Field name t tag exported embedded # fs) i pre parentIndex =
     (if \<not> exported then walk_loop fs (Suc i) pre parentIndex
      else if embedded then
        (case walkFields t pre parentIndex of
           None \<Rightarrow> None
         | Some inner \<Rightarrow> map_option ((@) inner) (walk_loop fs (Suc i) pre parentIndex))
      else if tag = ''-'' then walk_loop fs (Suc i) pre parentIndex
      else let fm = parseTag name i tag pre parentIndex
           in case (case t of KStruct _ \<Rightarrow> walkFields t (splitPath (fm_key fm)) (fm_index fm) | _ \<Rightarrow> Some []) of
                None \<Rightarrow> None
              | Some inner \<Rightarrow> map_option ((@) (fm # inner)) (walk_loop fs (Suc i) pre parentIndex))"

definition buildMeta :: "gotype \<Rightarrow> structMeta option" where
  "buildMeta rt = walkFields rt [] []"

text \<open>The binder is its cache of metadata by struct type.\<close>

record Binder =
  b_cache :: "(gotype \<times> structMeta) list"

definition NewBinder :: Binder where "NewBinder = \<lparr>b_cache = []\<rparr>"

definition getMeta :: "gotype \<Rightarrow> Binder \<Rightarrow> (structMeta \<times> Binder) option" where
  "getMeta rt b =
     (case mget (b_cache b) rt of
        Some m \<Rightarrow> Some (m, b)
      | None \<Rightarrow> map_option (\<lambda>m. (m, b\<lparr>b_cache := mput rt m (b_cache b)\<rparr>)) (buildMeta rt))"

section \<open>Setting one field\<close>

definition mismatch :: "string \<Rightarrow> goerror option \<Rightarrow> goerror" where
  "mismatch m c = NewError ErrTypeMismatch m (case c of None \<Rightarrow> [] | Some e \<Rightarrow> [WithCause e])"

definition in_quotes :: "string \<Rightarrow> string" where
  "in_quotes k = CHR 0x27 # k @ [CHR 0x27]"

definition field_error :: "string \<Rightarrow> fieldMeta \<Rightarrow> string \<Rightarrow> goerror" where
  "field_error what fm fn =
     mismatch (''invalid '' @ what @ '' for field '' @ in_quotes (fm_key fm)) (Some (PlainError (fn @ '': invalid argument'')))"

text \<open>
  The conversions of \<open>setValue\<close> for the scalar kinds; \<open>None\<close> is the panic of an accessor.  The
  fallback parses the text of the value.
\<close>

definition scalar_int :: "Value \<Rightarrow> fieldMeta \<Rightarrow> (goerror + int) option" where
  "scalar_int value fm =
     (case Value_Int value of
        None \<Rightarrow> None
      | Some (i, True) \<Rightarrow> Some (Inr (sint i))
      | Some (_, False) \<Rightarrow>
          Some (case atoi (vstr value) of Some n \<Rightarrow> Inr n | None \<Rightarrow> Inl (field_error ''int'' fm ''strconv.ParseInt'')))"

definition scalar_duration :: "Value \<Rightarrow> fieldMeta \<Rightarrow> (goerror + int) option" where
  "scalar_duration value fm =
     (case Value_Duration value of
        None \<Rightarrow> None
      | Some (d, True) \<Rightarrow> Some (Inr (sint d))
      | Some (_, False) \<Rightarrow>
          Some (case parse_duration (vstr value) of
                  Some n \<Rightarrow> Inr n | None \<Rightarrow> Inl (field_error ''duration'' fm ''time: invalid duration'')))"

definition scalar_uint :: "Value \<Rightarrow> fieldMeta \<Rightarrow> (goerror + int) option" where
  "scalar_uint value fm =
     (case Value_Int value of
        None \<Rightarrow> None
      | Some (i, True) \<Rightarrow>
          Some (if sint i < 0
                then Inl (mismatch (''invalid uint for field '' @ in_quotes (fm_key fm) @ '': negative value'') None)
                else Inr (sint i))
      | Some (_, False) \<Rightarrow>
          Some (case parse_uint (vstr value) of
                  Some n \<Rightarrow> Inr (int n) | None \<Rightarrow> Inl (field_error ''uint'' fm ''strconv.ParseUint'')))"

definition scalar_float :: "Value \<Rightarrow> fieldMeta \<Rightarrow> (goerror + float64) option" where
  "scalar_float value fm =
     (case Value_Float64 value of
        None \<Rightarrow> None
      | Some (x, True) \<Rightarrow> Some (Inr x)
      | Some (_, False) \<Rightarrow>
          Some (case parse_float (vstr value) of
                  Some x \<Rightarrow> Inr x | None \<Rightarrow> Inl (field_error ''float'' fm ''strconv.ParseFloat'')))"

definition scalar_bool :: "Value \<Rightarrow> fieldMeta \<Rightarrow> (goerror + bool) option" where
  "scalar_bool value fm =
     (case Value_Bool value of
        None \<Rightarrow> None
      | Some (b, True) \<Rightarrow> Some (Inr b)
      | Some (_, False) \<Rightarrow>
          Some (case parse_bool (vstr value) of
                  Some b \<Rightarrow> Inr b | None \<Rightarrow> Inl (field_error ''bool'' fm ''strconv.ParseBool'')))"

text \<open>The case of \<open>setStruct\<close> for \<open>time.Time\<close>.\<close>

definition struct_time :: "Value \<Rightarrow> fieldMeta \<Rightarrow> goerror + int" where
  "struct_time value fm =
     (case parse_rfc3339 (vstr value) of
        Some t \<Rightarrow> Inr t
      | None \<Rightarrow> Inl (field_error ''time'' fm ''parsing time''))"

text \<open>
  \<open>setReflectValue\<close>, for the elements of slices and maps: a raw value of a kind that the switch does
  not list leaves the element as it is.
\<close>

definition setReflectValue :: "(nat \<Rightarrow> string) \<Rightarrow> goval \<Rightarrow> any \<Rightarrow> gotype \<Rightarrow> goerror + goval" where
  "setReflectValue other v raw t =
     (if raw = ANil then Inr v
      else case t of
        KString \<Rightarrow> Inr (VString (sprint_v other raw))
      | KInt b \<Rightarrow>
          (case raw of
             AInt i \<Rightarrow> Inr (set_int b (sint i))
           | AInt64 i \<Rightarrow> Inr (set_int b (sint i))
           | AFloat64 x \<Rightarrow> Inr (set_int b (f64_to_i64 x))
           | AString s \<Rightarrow> (case atoi s of Some n \<Rightarrow> Inr (set_int b n) | None \<Rightarrow> Inl (PlainError ''strconv.ParseInt: invalid argument''))
           | _ \<Rightarrow> Inr v)
      | KDuration \<Rightarrow>
          (case raw of
             AInt i \<Rightarrow> Inr (set_int W64 (sint i))
           | AInt64 i \<Rightarrow> Inr (set_int W64 (sint i))
           | AFloat64 x \<Rightarrow> Inr (set_int W64 (f64_to_i64 x))
           | AString s \<Rightarrow> (case atoi s of Some n \<Rightarrow> Inr (set_int W64 n) | None \<Rightarrow> Inl (PlainError ''strconv.ParseInt: invalid argument''))
           | _ \<Rightarrow> Inr v)
      | KFloat b \<Rightarrow>
          (case raw of
             AFloat64 x \<Rightarrow> Inr (set_float b x)
           | AInt i \<Rightarrow> Inr (set_float b (f64_of_int (sint i)))
           | AString s \<Rightarrow> (case parse_float s of Some x \<Rightarrow> Inr (set_float b x) | None \<Rightarrow> Inl (PlainError ''strconv.ParseFloat: invalid argument''))
           | _ \<Rightarrow> Inr v)
      | KBool \<Rightarrow>
          (case raw of
             ABool c \<Rightarrow> Inr (VBool c)
           | AString s \<Rightarrow> (case parse_bool s of Some c \<Rightarrow> Inr (VBool c) | None \<Rightarrow> Inl (PlainError ''strconv.ParseBool: invalid argument''))
           | _ \<Rightarrow> Inr v)
      | _ \<Rightarrow> Inl (PlainError (''unsupported type: '' @ kind_text t)))"

text \<open>\<open>setSlice\<close> and \<open>setMap\<close> build a fresh slice or map and store it only when every element was set.\<close>

fun slice_loop :: "(nat \<Rightarrow> string) \<Rightarrow> gotype \<Rightarrow> fieldMeta \<Rightarrow> nat \<Rightarrow> any list \<Rightarrow> goerror + goval list" where
  "slice_loop other elemType fm i [] = Inr []"
| "slice_loop other elemType fm i (e # es) =
     (case setReflectValue other (zero_of elemType) e elemType of
        Inl err \<Rightarrow> Inl (mismatch (''invalid slice element for field '' @ CHR 0x27 # fm_key fm @ ''['' @ nat_str i @ '']'' @ [CHR 0x27]) (Some err))
      | Inr v \<Rightarrow> (case slice_loop other elemType fm (Suc i) es of Inl err \<Rightarrow> Inl err | Inr vs \<Rightarrow> Inr (v # vs)))"

definition setSlice :: "(nat \<Rightarrow> string) \<Rightarrow> gotype \<Rightarrow> Value \<Rightarrow> fieldMeta \<Rightarrow> goerror + goval" where
  "setSlice other elemType value fm =
     (case vraw value of
        ASlice es \<Rightarrow> map_sum id (\<lambda>vs. VSlice (Some vs)) (slice_loop other elemType fm 0 es)
      | _ \<Rightarrow> Inl (mismatch (''expected slice for field '' @ in_quotes (fm_key fm)) None))"

text \<open>
  A key type that is neither a string type nor an interface makes the conversion panic; a map over an
  interface type keeps the string as it is.
\<close>

fun map_key :: "gotype \<Rightarrow> string \<Rightarrow> goval option" where
  "map_key KString k = Some (VString k)"
| "map_key (KOther kind) k = (if kind = ''interface'' then Some (VString k) else None)"
| "map_key _ k = None"

fun map_loop :: "(nat \<Rightarrow> string) \<Rightarrow> gotype \<Rightarrow> gotype \<Rightarrow> fieldMeta \<Rightarrow> any gomap \<Rightarrow> (goval \<times> goval) list
    \<Rightarrow> (goerror + (goval \<times> goval) list) option" where
  "map_loop other keyType valueType fm [] acc = Some (Inr acc)"
| "map_loop other keyType valueType fm ((k, v) # m) acc =
     (case map_key keyType k of
        None \<Rightarrow> None
      | Some key \<Rightarrow>
          (case setReflectValue other (zero_of valueType) v valueType of
             Inl err \<Rightarrow> Some (Inl (mismatch (''invalid map value for field '' @ CHR 0x27 # fm_key fm @ ''['' @ k @ '']'' @ [CHR 0x27]) (Some err)))
           | Inr x \<Rightarrow> map_loop other keyType valueType fm m (mput key x acc)))"

definition setMap :: "(nat \<Rightarrow> string) \<Rightarrow> gotype \<Rightarrow> gotype \<Rightarrow> Value \<Rightarrow> fieldMeta \<Rightarrow> (goerror + goval) option" where
  "setMap other keyType valueType value fm =
     (case vraw value of
        AMap m \<Rightarrow> map_option (map_sum id (\<lambda>kvs. VMap (Some kvs))) (map_loop other keyType valueType fm m [])
      | _ \<Rightarrow> Some (Inl (mismatch (''expected map for field '' @ in_quotes (fm_key fm)) None)))"

section \<open>Binding a struct\<close>

text \<open>The depth to which the raw values of the data are nested maps: each level of \<open>Bind\<close> uses one up.\<close>

fun map_weight :: "any \<Rightarrow> nat" and map_weights :: "any gomap \<Rightarrow> nat" where
  "map_weight (AMap m) = Suc (map_weights m)"
| "map_weight _ = 0"
| "map_weights [] = 0"
| "map_weights ((k, v) # m) = map_weight v + map_weights m"

definition data_weight :: "Value gomap \<Rightarrow> nat" where
  "data_weight data = sum_list (map (\<lambda>(k, v). map_weight (vraw v)) data)"

definition wrap_unknown :: "any gomap \<Rightarrow> Value gomap" where
  "wrap_unknown m = mput_all [] (map (\<lambda>(k, v). (k, NewValue v TypeUnknown SourceMemory 0)) m)"

lemma data_weight_mput: "data_weight (mput k v d) \<le> map_weight (vraw v) + data_weight d"
  by (induction d) (auto simp: data_weight_def)

lemma data_weight_mput_all: "data_weight (mput_all d e) \<le> data_weight d + data_weight e"
proof (induction d e rule: mput_all.induct)
  case (2 dst k v src)
  then show ?case using data_weight_mput [of k v dst] by (simp add: data_weight_def)
qed simp

lemma data_weight_wrap: "data_weight (wrap_unknown m) \<le> map_weights m"
proof -
  have "data_weight (map (\<lambda>(k, v). (k, NewValue v TypeUnknown SourceMemory 0)) m) = map_weights m"
    by (induction m) (auto simp: data_weight_def)
  then show ?thesis
    using data_weight_mput_all [of "[]" "map (\<lambda>(k, v). (k, NewValue v TypeUnknown SourceMemory 0)) m"]
    by (simp add: wrap_unknown_def data_weight_def)
qed

lemma data_weight_lookup: "mget data k = Some v \<Longrightarrow> map_weight (vraw v) \<le> data_weight data"
  by (induction data) (auto simp: data_weight_def split: if_splits)

text \<open>The value that \<open>Bind\<close> takes for a field: from the data, else the default of the tag.\<close>

definition field_value :: "Value gomap \<Rightarrow> fieldMeta \<Rightarrow> Value option" where
  "field_value data field =
     (case mget data (fm_key field) of
        Some v \<Rightarrow> Some v
      | None \<Rightarrow> if fm_hasDefault field
                then Some (NewValue (AString (fm_defaultValue field)) TypeString SourceDefault (- 1)) else None)"

lemma field_value_weight: "field_value data field = Some v \<Longrightarrow> map_weight (vraw v) \<le> data_weight data"
  by (auto simp: field_value_def split: option.splits if_splits intro: data_weight_lookup)

text \<open>The outcome of setting a field: its value afterwards and the error.\<close>

type_synonym bound = "(Binder \<times> goval \<times> goerror option) option"

definition scalar_done :: "Binder \<Rightarrow> goval \<Rightarrow> ('a \<Rightarrow> goval) \<Rightarrow> (goerror + 'a) option \<Rightarrow> bound" where
  "scalar_done b fv f r =
     (case r of
        None \<Rightarrow> None
      | Some (Inl err) \<Rightarrow> Some (b, fv, Some err)
      | Some (Inr x) \<Rightarrow> Some (b, f x, None))"

text \<open>
  \<open>bind_struct\<close> is \<open>Bind\<close> on the struct a pointer leads to, \<open>bind_loop\<close> its loop over the fields;
  \<open>setValue\<close> follows one pointer, allocating it, and \<open>set_kind\<close> is its switch, \<open>setStruct\<close> included.
\<close>

function (sequential) bind_struct :: "(nat \<Rightarrow> string) \<Rightarrow> Binder \<Rightarrow> Value gomap \<Rightarrow> gotype \<Rightarrow> goval \<Rightarrow> bound"
  and bind_loop :: "(nat \<Rightarrow> string) \<Rightarrow> Binder \<Rightarrow> Value gomap \<Rightarrow> structMeta \<Rightarrow> gotype \<Rightarrow> goval \<Rightarrow> bound"
  and setValue :: "(nat \<Rightarrow> string) \<Rightarrow> Binder \<Rightarrow> gotype \<Rightarrow> goval \<Rightarrow> Value \<Rightarrow> fieldMeta \<Rightarrow> bound"
  and set_kind :: "(nat \<Rightarrow> string) \<Rightarrow> Binder \<Rightarrow> gotype \<Rightarrow> goval \<Rightarrow> Value \<Rightarrow> fieldMeta \<Rightarrow> bound" where
  "bind_struct other b data rt rv =
     (case getMeta rt b of
        None \<Rightarrow> None
      | Some (meta, b') \<Rightarrow> bind_loop other b' data meta rt rv)"
| "bind_loop other b data [] rt rv = Some (b, rv, None)"
| "bind_loop other b data (field # fms) rt rv =
     (case FieldByIndex rt rv (fm_index field) of
        None \<Rightarrow> None
      | Some (ft, fv, canSet) \<Rightarrow>
          if \<not> canSet then bind_loop other b data fms rt rv
          else case field_value data field of
            None \<Rightarrow>
              if fm_required field
              then Some (b, rv, Some (NewError ErrBindError (''required field '' @ in_quotes (fm_key field) @ '' not found'') []))
              else bind_loop other b data fms rt rv
          | Some value \<Rightarrow>
              (case setValue other b ft fv value field of
                 None \<Rightarrow> None
               | Some (b', v', Some err) \<Rightarrow> Some (b', put_at rv (fm_index field) v', Some err)
               | Some (b', v', None) \<Rightarrow> bind_loop other b' data fms rt (put_at rv (fm_index field) v')))"
| "setValue other b (KPtr et) fv value field =
     map_option (\<lambda>(b', v', err). (b', VPtr (Some v'), err))
       (set_kind other b et (case fv of VPtr (Some u) \<Rightarrow> u | _ \<Rightarrow> zero_of et) value field)"
| "setValue other b t fv value field = set_kind other b t fv value field"
| "set_kind other b KString fv value field = Some (b, VString (vstr value), None)"
| "set_kind other b (KInt w) fv value field = scalar_done b fv (set_int w) (scalar_int value field)"
| "set_kind other b KDuration fv value field = scalar_done b fv (set_int W64) (scalar_duration value field)"
| "set_kind other b (KUint w) fv value field = scalar_done b fv (set_uint w) (scalar_uint value field)"
| "set_kind other b (KFloat w) fv value field = scalar_done b fv (set_float w) (scalar_float value field)"
| "set_kind other b KBool fv value field = scalar_done b fv VBool (scalar_bool value field)"
| "set_kind other b (KSlice e) fv value field = scalar_done b fv (\<lambda>v. v) (Some (setSlice other e value field))"
| "set_kind other b (KMap k e) fv value field = scalar_done b fv (\<lambda>v. v) (setMap other k e value field)"
| "set_kind other b KTime fv value field =
     scalar_done b fv VTime (Some (struct_time value field))"
| "set_kind other b (KStruct fs) fv value field =
     (case vraw value of
        AMap m \<Rightarrow> bind_struct other b (wrap_unknown m) (KStruct fs) fv
      | _ \<Rightarrow> Some (b, fv, Some (mismatch (''expected map for struct field '' @ in_quotes (fm_key field)) None)))"
| "set_kind other b t fv value field =
     Some (b, fv, Some (mismatch (''unsupported type for field '' @ in_quotes (fm_key field) @ '': '' @ kind_text t) None))"
  by pat_completeness auto
termination
proof (relation "inv_image (less_than <*lex*> less_than <*lex*> less_than)
     (\<lambda>x. case x of
        Inl (Inl (_, _, data, _, _)) \<Rightarrow> (data_weight data, 3, 0)
      | Inl (Inr (_, _, data, fms, _, _)) \<Rightarrow> (data_weight data, 2, length fms)
      | Inr (Inl (_, _, _, _, value, _)) \<Rightarrow> (map_weight (vraw value), 1, 0)
      | Inr (Inr (_, _, _, _, value, _)) \<Rightarrow> (map_weight (vraw value), 0, 0))")
qed (auto simp: le_imp_less_or_eq dest!: field_value_weight intro: le_imp_less_Suc data_weight_wrap)

declare bind_struct.simps [simp del]

text \<open>What \<open>Bind\<close> is given: nothing, not a pointer, a nil pointer, or a pointer to a value of a type.\<close>

datatype bind_target = NoTarget | NotPointer | NilPointer | PointerTo gotype goval

definition bind_error :: "string \<Rightarrow> goerror" where
  "bind_error m = NewError ErrBindError m []"

fun is_struct :: "gotype \<Rightarrow> bool" where
  "is_struct (KStruct _) = True"
| "is_struct KTime = True"
| "is_struct _ = False"

definition Bind :: "(nat \<Rightarrow> string) \<Rightarrow> Binder \<Rightarrow> Value gomap \<Rightarrow> bind_target \<Rightarrow> (Binder \<times> bind_target \<times> goerror option) option" where
  "Bind other b data target =
     (case target of
        NoTarget \<Rightarrow> Some (b, target, Some (bind_error ''target cannot be nil''))
      | NotPointer \<Rightarrow> Some (b, target, Some (bind_error ''target must be a pointer''))
      | NilPointer \<Rightarrow> Some (b, target, Some (bind_error ''target must be a pointer to struct''))
      | PointerTo rt rv \<Rightarrow>
          if \<not> is_struct rt then Some (b, target, Some (bind_error ''target must be a pointer to struct''))
          else map_option (\<lambda>(b', rv', err). (b', PointerTo rt rv', err)) (bind_struct other b data rt rv))"

definition MustBind :: "(nat \<Rightarrow> string) \<Rightarrow> Binder \<Rightarrow> Value gomap \<Rightarrow> bind_target \<Rightarrow> (Binder \<times> bind_target) option" where
  "MustBind other b data target =
     (case Bind other b data target of
        Some (b', target', None) \<Rightarrow> Some (b', target')
      | _ \<Rightarrow> None)"

text \<open>\<open>ctx_err\<close> is the error of a context that is done.\<close>

definition BindContext ::
  "(nat \<Rightarrow> string) \<Rightarrow> goerror option \<Rightarrow> Binder \<Rightarrow> Value gomap \<Rightarrow> bind_target \<Rightarrow> (Binder \<times> bind_target \<times> goerror option) option" where
  "BindContext other ctx_err b data target =
     (case ctx_err of Some err \<Rightarrow> Some (b, target, Some err) | None \<Rightarrow> Bind other b data target)"

section \<open>Schemas\<close>

datatype schema_field =
  SchemaField (sf_type: string) (sf_description: string) (sf_default: "any option") (sf_required: bool)
    (sf_properties: "(string \<times> schema_field) list option") (sf_items: "schema_field option")

record Schema =
  sc_type :: string
  sc_properties :: "schema_field gomap"
  sc_required :: "string list"

fun fieldType :: "gotype \<Rightarrow> bool \<Rightarrow> any option \<Rightarrow> schema_field" where
  "fieldType KString req def = SchemaField ''string'' [] def req None None"
| "fieldType (KInt _) req def = SchemaField ''integer'' [] def req None None"
| "fieldType KDuration req def =
     SchemaField ''string'' (''duration string (e.g., '' @ in_quotes ''30s'' @ '', '' @ in_quotes ''5m'' @ '')'') def req None None"
| "fieldType (KUint _) req def = SchemaField ''integer'' [] def req None None"
| "fieldType (KFloat _) req def = SchemaField ''number'' [] def req None None"
| "fieldType KBool req def = SchemaField ''boolean'' [] def req None None"
| "fieldType (KSlice e) req def = SchemaField ''array'' [] def req None (Some (fieldType e False None))"
| "fieldType (KMap _ e) req def = SchemaField ''object'' [] def req (Some [(''*'', fieldType e False None)]) None"
| "fieldType KTime req def = SchemaField ''string'' ''RFC3339 timestamp'' def req None None"
| "fieldType (KStruct _) req def = SchemaField ''object'' [] def req (Some []) None"
| "fieldType (KPtr e) req def = fieldType e req def"
| "fieldType (KOther _) req def = SchemaField ''any'' [] def req None None"

definition schema_field_of :: "gotype \<Rightarrow> fieldMeta \<Rightarrow> schema_field" where
  "schema_field_of t fm = fieldType t (fm_required fm) (if fm_hasDefault fm then Some (AString (fm_defaultValue fm)) else None)"

definition last_part :: "string \<Rightarrow> string" where
  "last_part key = (case last_index_of (CHR ''.'') key of Some i \<Rightarrow> drop (Suc i) key | None \<Rightarrow> key)"

fun schema_loop :: "gotype \<Rightarrow> structMeta \<Rightarrow> Schema \<Rightarrow> Schema option" where
  "schema_loop rt [] schema = Some schema"
| "schema_loop rt (fm # fms) schema =
     (case type_by_index True rt (fm_index fm) of
        None \<Rightarrow> None
      | Some t \<Rightarrow>
          let key = last_part (fm_key fm);
              schema1 = schema\<lparr>sc_properties := mput key (schema_field_of t fm) (sc_properties schema)\<rparr>
          in schema_loop rt fms (if fm_required fm then schema1\<lparr>sc_required := sc_required schema1 @ [key]\<rparr> else schema1))"

definition buildSchema :: "gotype \<Rightarrow> structMeta \<Rightarrow> Schema option" where
  "buildSchema rt meta = schema_loop rt meta \<lparr>sc_type = ''object'', sc_properties = [], sc_required = []\<rparr>"

definition Schema_of :: "Binder \<Rightarrow> bind_target \<Rightarrow> (Binder \<times> (goerror + Schema)) option" where
  "Schema_of b target =
     (case target of
        PointerTo rt rv \<Rightarrow>
          if \<not> is_struct rt then Some (b, Inl (bind_error ''target must be a pointer to struct''))
          else (case getMeta rt b of
                  None \<Rightarrow> None
                | Some (meta, b') \<Rightarrow> map_option (\<lambda>s. (b', Inr s)) (buildSchema rt meta))
      | NilPointer \<Rightarrow> Some (b, Inl (bind_error ''target must be a pointer to struct''))
      | _ \<Rightarrow> Some (b, Inl (bind_error ''target must be a pointer'')))"

section \<open>Binding keeps the types of the target\<close>

lemma scalar_done_type:
  assumes "scalar_done b fv f r = Some (b', v', err)" and "has_type fv t" and "\<And>x. r = Some (Inr x) \<Longrightarrow> has_type (f x) t"
  shows "has_type v' t"
  using assms by (auto simp: scalar_done_def split: option.splits sum.splits)

lemma setReflectValue_type:
  "has_type v t \<Longrightarrow> setReflectValue other v raw t = Inr v' \<Longrightarrow> has_type v' t"
  by (auto simp: setReflectValue_def split: if_splits gotype.splits any.splits option.splits)

lemma slice_loop_type: "slice_loop other e fm i es = Inr vs \<Longrightarrow> \<forall>v\<in>set vs. has_type v e"
  by (induction other e fm i es arbitrary: vs rule: slice_loop.induct)
     (auto split: sum.splits dest: setReflectValue_type [OF has_type_zero_of(1)])

lemma map_sum_Inr: "map_sum id f z = Inr v \<longleftrightarrow> (\<exists>x. z = Inr x \<and> v = f x)"
  by (cases z) auto

lemma setSlice_type: "setSlice other e value fm = Inr v \<Longrightarrow> has_type v (KSlice e)"
  by (auto simp: setSlice_def map_sum_Inr split: any.splits dest: slice_loop_type)

lemma map_key_type: "map_key t k = Some v \<Longrightarrow> has_type v t"
  by (cases t) (auto split: if_splits)

lemma set_mput: "kv \<in> set (mput k v m) \<Longrightarrow> kv = (k, v) \<or> kv \<in> set m"
  by (induction m) (auto split: if_splits)

lemma map_loop_type:
  "map_loop other kt e fm m acc = Some (Inr kvs) \<Longrightarrow>
     \<forall>kv\<in>set acc. has_type (fst kv) kt \<and> has_type (snd kv) e \<Longrightarrow>
     \<forall>kv\<in>set kvs. has_type (fst kv) kt \<and> has_type (snd kv) e"
proof (induction other kt e fm m acc arbitrary: kvs rule: map_loop.induct)
  case (2 other kt e fm k v m acc)
  obtain key x where k: "map_key kt k = Some key" and x: "setReflectValue other (zero_of e) v e = Inr x"
    using 2(2) by (auto split: option.splits sum.splits)
  have "\<forall>kv\<in>set (mput key x acc). has_type (fst kv) kt \<and> has_type (snd kv) e"
    using 2(3) map_key_type [OF k] setReflectValue_type [OF has_type_zero_of(1) x] by (auto dest!: set_mput)
  then show ?case using 2(1) [OF k x] 2(2) k x by simp
qed simp

lemma setMap_type: "setMap other kt e value fm = Some (Inr v) \<Longrightarrow> has_type v (KMap kt e)"
proof -
  assume s: "setMap other kt e value fm = Some (Inr v)"
  obtain m kvs where m: "map_loop other kt e fm m [] = Some (Inr kvs)" and v: "v = VMap (Some kvs)"
    using s by (cases "vraw value") (auto simp: setMap_def map_sum_Inr)
  from map_loop_type [OF m] show ?thesis by (simp add: v)
qed

lemma struct_field_type:
  assumes "struct_field t v i = Some (f, u)" and "has_type v t"
  shows "has_type u (f_type f)"
    and "has_type (put_at u is x) (f_type f) \<Longrightarrow> has_type (put_at v (i # is) x) t"
proof -
  consider fs vs where "t = KStruct fs" "v = VStruct vs" "i < length fs" "f = fs ! i" "u = vs ! i"
    | n where "t = KTime" "v = VTime n" "f = time_fields ! i" "u = zero_of (f_type f)"
    using assms(1) by (cases "(t, v, i)" rule: struct_field.cases) (auto split: if_splits)
  then have "has_type u (f_type f)
      \<and> (has_type (put_at u is x) (f_type f) \<longrightarrow> has_type (put_at v (i # is) x) t)"
  proof cases
    case 1
    then show ?thesis using assms(2) by (auto simp: have_types_iff nth_list_update)
  next
    case 2
    then show ?thesis by simp
  qed
  then show "has_type u (f_type f)"
    and "has_type (put_at u is x) (f_type f) \<Longrightarrow> has_type (put_at v (i # is) x) t" by simp_all
qed

text \<open>The pointer that \<open>FieldByIndex\<close> follows before a further step.\<close>

definition deref :: "bool \<Rightarrow> gotype \<Rightarrow> goval \<Rightarrow> (gotype \<times> goval) option" where
  "deref first t v =
     (if first then Some (t, v)
      else case (t, v) of
        (KPtr (KStruct fs), VPtr p) \<Rightarrow> map_option (\<lambda>u. (KStruct fs, u)) p
      | (KPtr KTime, VPtr p) \<Rightarrow> map_option (\<lambda>u. (KTime, u)) p
      | _ \<Rightarrow> Some (t, v))"

lemma deref_cases:
  assumes "deref first t v = Some (t', v')"
  shows "t' = t \<and> v' = v \<or> t = KPtr t' \<and> v = VPtr (Some v')"
  using assms by (auto simp: deref_def split: if_splits gotype.splits goval.splits option.splits)

lemma field_by_index_Cons:
  "field_by_index first ro t v (i # is) =
     (case deref first t v of
        None \<Rightarrow> None
      | Some (t', v') \<Rightarrow>
          case struct_field t' v' i of
            None \<Rightarrow> None
          | Some (f, u) \<Rightarrow>
              if is = [] then Some (f_type f, u, \<not> ro \<and> f_exported f)
              else field_by_index False (ro \<or> \<not> f_exported f \<and> \<not> f_embedded f) (f_type f) u is)"
  by (simp add: deref_def)

lemma field_by_index_type:
  assumes "field_by_index first ro t v is = Some (ft, fv, c)" and "has_type v t"
  shows "has_type fv ft \<and> (has_type x ft \<longrightarrow> has_type (put_at v is x) t)"
  using assms
proof (induction "is" arbitrary: first ro t v)
  case (Cons i "is")
  obtain t' v' where d: "deref first t v = Some (t', v')"
    using Cons(2) unfolding field_by_index_Cons by (auto split: option.splits)
  obtain f u where s: "struct_field t' v' i = Some (f, u)"
    using Cons(2) d unfolding field_by_index_Cons by (auto split: option.splits)
  have v': "has_type v' t'" and put: "has_type (put_at v' (i # is) x) t' \<Longrightarrow> has_type (put_at v (i # is) x) t"
    using deref_cases [OF d] Cons(3) by auto
  show ?case
  proof (cases "is = []")
    case True
    then show ?thesis
      using Cons(2) d s struct_field_type [OF s v'] put unfolding field_by_index_Cons by simp
  next
    case False
    then have "field_by_index False (ro \<or> \<not> f_exported f \<and> \<not> f_embedded f) (f_type f) u is = Some (ft, fv, c)"
      using Cons(2) d s unfolding field_by_index_Cons by simp
    from Cons(1) [OF this struct_field_type(1) [OF s v']] show ?thesis
      using struct_field_type(2) [OF s v'] put by blast
  qed
qed simp

lemma FieldByIndex_type:
  assumes "FieldByIndex t v is = Some (ft, fv, c)" and "has_type v t"
  shows "has_type fv ft" and "has_type x ft \<Longrightarrow> has_type (put_at v is x) t"
  using field_by_index_type [OF assms(1) [unfolded FieldByIndex_def] assms(2)] by auto

lemma bind_types:
  "bind_struct other b data rt rv = Some (b', rv', err) \<Longrightarrow> has_type rv rt \<Longrightarrow> has_type rv' rt"
  "bind_loop other b data fms rt rv = Some (b', rv', err) \<Longrightarrow> has_type rv rt \<Longrightarrow> has_type rv' rt"
  "setValue other b t fv value field = Some (b', rv', err) \<Longrightarrow> has_type fv t \<Longrightarrow> has_type rv' t"
  "set_kind other b t fv value field = Some (b', rv', err) \<Longrightarrow> has_type fv t \<Longrightarrow> has_type rv' t"
proof (induction other b data rt rv and other b data fms rt rv and other b t fv "value" field
    and other b t fv "value" field arbitrary: b' rv' err and b' rv' err and b' rv' err and b' rv' err
    rule: bind_struct_bind_loop_setValue_set_kind.induct)
  case (3 other b data field fms rt rv)
  obtain ft fv c where f: "FieldByIndex rt rv (fm_index field) = Some (ft, fv, c)"
    using "3.prems"(1) by (auto split: option.splits)
  show ?case
  proof (cases "c \<and> field_value data field \<noteq> None")
    case False
    then show ?thesis using "3.prems" f "3.IH"(1,2) by (auto split: if_splits)
  next
    case True
    then obtain w where w: "field_value data field = Some w" by auto
    obtain b1 v1 e1 where s: "setValue other b ft fv w field = Some (b1, v1, e1)"
      using "3.prems"(1) f True w by (auto split: option.splits)
    have v1: "has_type (put_at rv (fm_index field) v1) rt"
      using "3.IH"(3) [OF f refl refl _ w s] True FieldByIndex_type [OF f "3.prems"(2)] by simp
    show ?thesis
    proof (cases e1)
      case None
      then show ?thesis using "3.prems"(1) f True w s v1 "3.IH"(4) [OF f refl refl _ w s] by simp
    next
      case (Some err)
      then show ?thesis using "3.prems"(1) f True w s v1 by simp
    qed
  qed
qed (auto simp: bind_struct.simps scalar_done_def setSlice_type setMap_type has_type_KPtr
    split: option.splits prod.splits sum.splits goval.splits any.splits)


definition port_type :: gotype where
  "port_type = KStruct [Field ''Port'' (KInt W8) [] True False, Field ''Name'' (KPtr KString) ''name,required'' True False]"

definition port_data :: "Value gomap" where
  "port_data = [(''port'', NewValue (AInt 300) TypeInt SourceFile 10), (''name'', NewValue (AString ''a'') TypeString SourceFile 10)]"

lemma bind_port:
  "Bind (\<lambda>_. []) NewBinder port_data (PointerTo port_type (zero_of port_type))
    = Some (\<lparr>b_cache = [(port_type, the (buildMeta port_type))]\<rparr>,
        PointerTo port_type (VStruct [VInt 44, VPtr (Some (VString ''a''))]), None)"
  by code_simp


section \<open>The cache is transparent\<close>

definition cache_ok :: "Binder \<Rightarrow> bool" where
  "cache_ok b \<longleftrightarrow> (\<forall>rt m. mget (b_cache b) rt = Some m \<longrightarrow> buildMeta rt = Some m)"

text \<open>Two outcomes that differ in the cache only, both caches holding true metadata.\<close>

definition same_outcome :: "(Binder \<times> 'a) option \<Rightarrow> (Binder \<times> 'a) option \<Rightarrow> bool" where
  "same_outcome r s \<longleftrightarrow>
     (case (r, s) of
        (None, None) \<Rightarrow> True
      | (Some (b, x), Some (c, y)) \<Rightarrow> cache_ok b \<and> cache_ok c \<and> x = y
      | _ \<Rightarrow> False)"

lemma cache_ok_New [simp]: "cache_ok NewBinder"
  by (simp add: cache_ok_def NewBinder_def)

lemma getMeta_ok:
  assumes "cache_ok b"
  shows "(case getMeta rt b of None \<Rightarrow> buildMeta rt = None | Some (m, b') \<Rightarrow> buildMeta rt = Some m \<and> cache_ok b')"
  using assms by (auto simp: getMeta_def cache_ok_def split: option.splits)

lemma same_outcome_Some: "same_outcome (Some (b, x)) (Some (c, y)) \<longleftrightarrow> cache_ok b \<and> cache_ok c \<and> x = y"
  by (simp add: same_outcome_def)

lemma same_outcome_scalar:
  "cache_ok b \<Longrightarrow> cache_ok c \<Longrightarrow> same_outcome (scalar_done b fv f r) (scalar_done c fv f r)"
  by (auto simp: same_outcome_def scalar_done_def split: option.splits sum.splits)

lemma same_outcome_ptr:
  "same_outcome r s \<Longrightarrow> same_outcome (map_option (\<lambda>(b', v', err). (b', VPtr (Some v'), err)) r)
     (map_option (\<lambda>(b', v', err). (b', VPtr (Some v'), err)) s)"
  by (auto simp: same_outcome_def split: option.splits)

lemma bind_cache:
  "cache_ok b \<Longrightarrow> cache_ok c \<Longrightarrow> same_outcome (bind_struct other b data rt rv) (bind_struct other c data rt rv)"
  "cache_ok b \<Longrightarrow> cache_ok c \<Longrightarrow> same_outcome (bind_loop other b data fms rt rv) (bind_loop other c data fms rt rv)"
  "cache_ok b \<Longrightarrow> cache_ok c \<Longrightarrow> same_outcome (setValue other b t fv val field) (setValue other c t fv val field)"
  "cache_ok b \<Longrightarrow> cache_ok c \<Longrightarrow> same_outcome (set_kind other b t fv val field) (set_kind other c t fv val field)"
proof (induction other b data rt rv and other b data fms rt rv and other b t fv val field
    and other b t fv val field arbitrary: c and c and c and c
    rule: bind_struct_bind_loop_setValue_set_kind.induct)
  case (1 other b data rt rv)
  show ?case
  proof (cases "buildMeta rt")
    case None
    then show ?thesis using getMeta_ok [OF "1.prems"(1), of rt] getMeta_ok [OF "1.prems"(2), of rt]
      by (auto simp: bind_struct.simps same_outcome_def split: option.splits)
  next
    case (Some m)
    obtain b' where b': "getMeta rt b = Some (m, b')" "cache_ok b'"
      using Some getMeta_ok [OF "1.prems"(1), of rt] by (auto split: option.splits)
    obtain c' where c': "getMeta rt c = Some (m, c')" "cache_ok c'"
      using Some getMeta_ok [OF "1.prems"(2), of rt] by (auto split: option.splits)
    show ?thesis using "1.IH" [OF b'(1) refl b'(2) c'(2)] by (simp add: bind_struct.simps b'(1) c'(1))
  qed
next
  case (3 other b data field fms rt rv)
  show ?case
  proof (cases "FieldByIndex rt rv (fm_index field)")
    case None
    then show ?thesis by (simp add: same_outcome_def)
  next
    case (Some r)
    then obtain ft fv s where f: "FieldByIndex rt rv (fm_index field) = Some (ft, fv, s)" by (cases r) auto
    consider "\<not> s" | "s" "field_value data field = None" | w where "s" "field_value data field = Some w"
      by fastforce
    then show ?thesis
    proof cases
      case 3
      have r: "same_outcome (setValue other b ft fv w field) (setValue other c ft fv w field)"
        using "3.IH"(3) [OF f refl refl _ 3(2) "3.prems"] 3(1) by simp
      show ?thesis
      proof (cases "setValue other b ft fv w field")
        case None
        then show ?thesis using r f 3 by (simp add: same_outcome_def split: option.splits)
      next
        case (Some x)
        then obtain b1 v1 e1 where sb: "setValue other b ft fv w field = Some (b1, v1, e1)" by (cases x) auto
        with r obtain c1 where sc: "setValue other c ft fv w field = Some (c1, v1, e1)" "cache_ok b1" "cache_ok c1"
          by (auto simp: same_outcome_def split: option.splits)
        show ?thesis
        proof (cases e1)
          case None
          then show ?thesis
            using "3.IH"(4) [OF f refl refl _ 3(2) sb refl refl None sc(2,3)] f 3 sb sc by simp
        qed (use f 3 sb sc in \<open>simp add: same_outcome_def\<close>)
      qed
    qed (use f "3.prems" "3.IH"(1,2) in \<open>auto simp: same_outcome_def split: if_splits\<close>)
  qed
next
  case (4 other b et fv val field)
  then show ?case by (simp add: same_outcome_ptr)
qed (auto simp: same_outcome_scalar same_outcome_Some split: option.splits any.splits)

fun bind_calls :: "(nat \<Rightarrow> string) \<Rightarrow> (Value gomap \<times> bind_target) list \<Rightarrow> Binder \<Rightarrow> Binder option" where
  "bind_calls other [] b = Some b"
| "bind_calls other ((data, target) # calls) b =
     (case Bind other b data target of None \<Rightarrow> None | Some (b', _) \<Rightarrow> bind_calls other calls b')"

lemma Bind_cache:
  assumes "cache_ok b" and "cache_ok c"
  shows "same_outcome (Bind other b data target) (Bind other c data target)"
proof (cases target)
  case (PointerTo rt rv)
  then show ?thesis using assms bind_cache(1) [OF assms, of other data rt rv]
    by (auto simp: Bind_def same_outcome_def split: option.splits)
qed (use assms in \<open>simp_all add: Bind_def same_outcome_def\<close>)

lemma bind_calls_ok: "bind_calls other calls b = Some b' \<Longrightarrow> cache_ok b \<Longrightarrow> cache_ok b'"
proof (induction other calls b rule: bind_calls.induct)
  case (2 other data target calls b)
  then show ?case using Bind_cache [of b b other data target]
    by (auto simp: same_outcome_def split: option.splits)
qed simp

text \<open>
  C13: the cache is transparent.  Starting from an empty cache, after any calls of \<open>Bind\<close> the next call
  does to its target what it would do with a new binder: the same struct, the same error or panic.
\<close>

theorem bind_cache_transparent:
  assumes "bind_calls other calls NewBinder = Some b"
  shows "map_option snd (Bind other b data target) = map_option snd (Bind other NewBinder data target)"
  using Bind_cache [OF bind_calls_ok [OF assms cache_ok_New] cache_ok_New, of other data target]
  by (auto simp: same_outcome_def split: option.splits)

theorem bind_cache_transparent_witness:
  "map_option snd (Bind (\<lambda>_. []) \<lparr>b_cache = [(port_type, the (buildMeta port_type))]\<rparr> port_data
       (PointerTo port_type (zero_of port_type)))
   = Some (PointerTo port_type (VStruct [VInt 44, VPtr (Some (VString ''a''))]), None)"
proof -
  have "bind_calls (\<lambda>_. []) [(port_data, PointerTo port_type (zero_of port_type))] NewBinder
      = Some \<lparr>b_cache = [(port_type, the (buildMeta port_type))]\<rparr>"
    by (simp add: bind_port)
  from bind_cache_transparent [OF this, of port_data "PointerTo port_type (zero_of port_type)"]
  show ?thesis by (simp add: bind_port)
qed

section \<open>Flat structs, field by field\<close>

text \<open>A field whose binding does not go into a nested struct.\<close>

fun plain_type :: "gotype \<Rightarrow> bool" where
  "plain_type (KStruct _) = False"
| "plain_type (KPtr (KStruct _)) = False"
| "plain_type _ = True"

definition plain_field :: "gofield \<Rightarrow> bool" where
  "plain_field f \<longleftrightarrow> f_exported f \<and> \<not> f_embedded f \<and> f_tag f \<noteq> ''-'' \<and> plain_type (f_type f)"

definition meta_of :: "nat \<Rightarrow> gofield \<Rightarrow> fieldMeta" where
  "meta_of i f = parseTag (f_name f) i (f_tag f) [] []"

text \<open>
  What binding makes of one field: \<open>None\<close> when it is an error (or a panic).  A key that is set is
  converted; otherwise the default of the tag is, and without one the field is an error when it is
  required and left alone when it is not.
\<close>

definition converted :: "(nat \<Rightarrow> string) \<Rightarrow> nat \<Rightarrow> gofield \<Rightarrow> goval \<Rightarrow> Value \<Rightarrow> goval option" where
  "converted other i f v w =
     (case setValue other NewBinder (f_type f) v w (meta_of i f) of Some (_, v', None) \<Rightarrow> Some v' | _ \<Rightarrow> None)"

definition field_outcome :: "(nat \<Rightarrow> string) \<Rightarrow> Value gomap \<Rightarrow> nat \<Rightarrow> gofield \<Rightarrow> goval \<Rightarrow> goval option" where
  "field_outcome other data i f v =
     (let fm = meta_of i f
      in case mget data (fm_key fm) of
           Some w \<Rightarrow> converted other i f v w
         | None \<Rightarrow>
             if fm_hasDefault fm
             then converted other i f v (NewValue (AString (fm_defaultValue fm)) TypeString SourceDefault (- 1))
             else if fm_required fm then None else Some v)"

lemma field_outcome_value:
  "field_outcome other data i f v =
     (case field_value data (meta_of i f) of
        None \<Rightarrow> if fm_required (meta_of i f) then None else Some v
      | Some w \<Rightarrow> (case setValue other NewBinder (f_type f) v w (meta_of i f) of
                     Some (_, v', None) \<Rightarrow> Some v' | _ \<Rightarrow> None))"
  by (auto simp: field_outcome_def field_value_def converted_def Let_def split: option.split)

lemma walk_plain:
  "\<forall>f\<in>set fs. plain_field f \<Longrightarrow>
     walk_loop fs i [] [] = Some (map (\<lambda>(j, f). meta_of j f) (zip [i..<i + length fs] fs))"
proof (induction fs arbitrary: i)
  case (Cons f fs)
  obtain n t tag ex em where f: "f = Field n t tag ex em" by (cases f)
  have "ex" "\<not> em" "tag \<noteq> ''-''" "plain_type t" using Cons(2) f by (auto simp: plain_field_def)
  moreover have "zip [i..<i + length (f # fs)] (f # fs) = (i, f) # zip [Suc i..<Suc i + length fs] fs"
    by (subst upt_conv_Cons) simp_all
  ultimately show ?case using Cons by (cases t) (simp_all add: f meta_of_def)
qed simp

lemma meta_of_index [simp]: "fm_index (meta_of i f) = [i]"
proof -
  have k: "fm_index (tag_parts ps fm) = fm_index fm" for ps fm
    by (induction ps fm rule: tag_parts.induct) (auto split: prod.splits option.splits)
  show ?thesis by (simp add: meta_of_def parseTag_def Let_def k)
qed

lemma scalar_done_cache: "scalar_done b fv f r = map_option (\<lambda>(_, x). (b, x)) (scalar_done NewBinder fv f r)"
  by (auto simp: scalar_done_def split: option.splits sum.splits)

lemma set_kind_plain_cache:
  assumes "\<forall>fs. t \<noteq> KStruct fs"
  shows "set_kind other b t fv w fm = map_option (\<lambda>(_, x). (b, x)) (set_kind other NewBinder t fv w fm)"
  using assms by (cases t) (simp_all add: scalar_done_cache [of b] split: option.splits)

lemma setValue_plain_cache:
  assumes "plain_type t"
  shows "setValue other b t fv w fm = map_option (\<lambda>(_, x). (b, x)) (setValue other NewBinder t fv w fm)"
proof (cases t)
  case (KPtr et)
  with assms have "\<forall>fs. et \<noteq> KStruct fs" by auto
  from set_kind_plain_cache [OF this, of other b] show ?thesis
    by (simp add: KPtr option.map_comp o_def case_prod_beta)
qed (use assms set_kind_plain_cache [of t other b fv w fm] in simp_all)

text \<open>The loop over the metadata of the fields from \<open>i\<close> on, the earlier ones being set.\<close>

lemma FieldByIndex_plain:
  "i < length fs \<Longrightarrow> i < length vs \<Longrightarrow>
     FieldByIndex (KStruct fs) (VStruct vs) [i] = Some (f_type (fs ! i), vs ! i, f_exported (fs ! i))"
  by (simp add: FieldByIndex_def)

lemma bind_loop_flat:
  assumes "\<forall>f\<in>set fs. plain_field f" and "length vs = length fs" and "i \<le> length fs"
  shows "(\<exists>b'. bind_loop other b data (map (\<lambda>(j, f). meta_of j f) (zip [i..<length fs] (drop i fs)))
            (KStruct fs) (VStruct vs) = Some (b', VStruct vs', None))
    \<longleftrightarrow> length vs' = length fs \<and> (\<forall>j<i. vs' ! j = vs ! j)
        \<and> (\<forall>j. i \<le> j \<and> j < length fs \<longrightarrow> field_outcome other data j (fs ! j) (vs ! j) = Some (vs' ! j))"
    (is "?L i vs \<longleftrightarrow> ?R i vs")
  using assms(2,3)
proof (induction "length fs - i" arbitrary: i vs b)
  case 0
  then have "i = length fs" by simp
  then show ?case using 0 by (auto intro: nth_equalityI)
next
  case (Suc n)
  let ?fms = "\<lambda>i. map (\<lambda>(j, f). meta_of j f) (zip [i..<length fs] (drop i fs))"
  let ?f = "fs ! i"
  have i: "i < length fs" "i < length vs" "n = length fs - Suc i" "Suc i \<le> length fs" using Suc by simp_all
  have fms: "?fms i = meta_of i ?f # ?fms (Suc i)"
    using i(1) by (simp add: upt_conv_Cons Cons_nth_drop_Suc [symmetric])
  have f: "FieldByIndex (KStruct fs) (VStruct vs) [i] = Some (f_type ?f, vs ! i, True)" "plain_type (f_type ?f)"
    using assms(1) i by (auto simp: FieldByIndex_plain plain_field_def)
  note set = setValue_plain_cache [OF f(2), of other b]
  show ?case
  proof (cases "field_outcome other data i ?f (vs ! i)")
    case None
    then show ?thesis using i f fms set
      by (auto simp: field_outcome_value split: option.splits prod.splits if_splits)
  next
    case (Some v')
    have step: "(\<exists>b'. bind_loop other b data (?fms i) (KStruct fs) (VStruct vs) = Some (b', VStruct vs', None))
        \<longleftrightarrow> (\<exists>b'. bind_loop other b data (?fms (Suc i)) (KStruct fs) (VStruct (vs[i := v'])) = Some (b', VStruct vs', None))"
      using Some i f fms set
      by (auto simp: field_outcome_value list_update_id split: option.splits prod.splits if_splits)
    have "(\<exists>b'. bind_loop other b data (?fms (Suc i)) (KStruct fs) (VStruct (vs[i := v'])) = Some (b', VStruct vs', None))
        \<longleftrightarrow> ?R (Suc i) (vs[i := v'])"
      using Suc.hyps(1) [OF i(3), of "vs[i := v']" b] Suc.prems i by simp
    also have "\<dots> \<longleftrightarrow> ?R i vs"
      using Some i by (auto simp: less_Suc_eq nth_list_update Suc_le_eq le_less)
    finally show ?thesis using step by simp
  qed
qed

lemma Bind_flat:
  assumes "\<forall>f\<in>set fs. plain_field f" and "length vs = length fs" and "cache_ok b"
  shows "(\<exists>b'. Bind other b data (PointerTo (KStruct fs) (VStruct vs)) = Some (b', PointerTo (KStruct fs) (VStruct vs'), None))
    \<longleftrightarrow> length vs' = length fs \<and> (\<forall>i < length fs. field_outcome other data i (fs ! i) (vs ! i) = Some (vs' ! i))"
proof -
  let ?meta = "map (\<lambda>(j, f). meta_of j f) (zip [0..<length fs] (drop 0 fs))"
  have "buildMeta (KStruct fs) = Some ?meta"
    using walk_plain [OF assms(1), of 0] by (simp add: buildMeta_def)
  then obtain b1 where "getMeta (KStruct fs) b = Some (?meta, b1)"
    using getMeta_ok [OF assms(3), of "KStruct fs"] by (auto split: option.splits)
  then have "(\<exists>b'. Bind other b data (PointerTo (KStruct fs) (VStruct vs)) = Some (b', PointerTo (KStruct fs) (VStruct vs'), None))
      \<longleftrightarrow> (\<exists>b'. bind_loop other b1 data ?meta (KStruct fs) (VStruct vs) = Some (b', VStruct vs', None))"
    by (auto simp: Bind_def bind_struct.simps)
  then show ?thesis using bind_loop_flat [OF assms(1,2), of 0 other b1 data vs'] by simp
qed

text \<open>
  C12: a flat struct is bound field by field.  For a struct of exported, untagged-out fields that are
  not structs themselves, \<open>Bind\<close> succeeds exactly when every field has an outcome, that is when no
  required value is missing and no value fails to convert; then each field is the outcome of its own
  value, from the data or from the default of its tag, and a field without a value keeps its content.
\<close>

theorem bind_flat_fields:
  assumes "\<forall>f\<in>set fs. plain_field f" and "length vs = length fs" and "bind_calls other calls NewBinder = Some b"
  shows "(\<exists>b'. Bind other b data (PointerTo (KStruct fs) (VStruct vs)) = Some (b', PointerTo (KStruct fs) (VStruct vs'), None))
    \<longleftrightarrow> length vs' = length fs \<and> (\<forall>i < length fs. field_outcome other data i (fs ! i) (vs ! i) = Some (vs' ! i))"
  by (rule Bind_flat [OF assms(1,2) bind_calls_ok [OF assms(3) cache_ok_New]])

definition server_fields :: "gofield list" where
  "server_fields =
     [Field ''Host'' KString ''host,required'' True False, Field ''Port'' (KInt W) ''port,default=80'' True False,
      Field ''Debug'' KBool [] True False]"

definition server_data :: "Value gomap" where
  "server_data = [(''host'', NewValue (AString ''h'') TypeString SourceFile 10)]"

theorem bind_flat_fields_witness:
  "\<exists>b'. Bind (\<lambda>_. []) NewBinder server_data (PointerTo (KStruct server_fields) (VStruct [VString [], VInt 0, VBool True]))
     = Some (b', PointerTo (KStruct server_fields) (VStruct [VString ''h'', VInt 80, VBool True]), None)"
proof -
  have p: "\<forall>f\<in>set server_fields. plain_field f" by (simp add: server_fields_def plain_field_def)
  have o: "\<forall>i\<in>{..<3}. field_outcome (\<lambda>_. []) server_data i (server_fields ! i) ([VString [], VInt 0, VBool True] ! i)
      = Some ([VString ''h'', VInt 80, VBool True] ! i)"
    by code_simp
  have l: "length server_fields = 3" by (simp add: server_fields_def)
  show ?thesis
    using o bind_flat_fields [OF p, where calls = "[]" and b = NewBinder and other = "\<lambda>_. []" and data = server_data
        and vs = "[VString [], VInt 0, VBool True]" and vs' = "[VString ''h'', VInt 80, VBool True]"]
    by (simp add: l)
qed

section \<open>Narrow integers\<close>

lemma set_int_width:
  "\<exists>n. set_int w k = VInt n \<and> int_fits w n \<and> n mod 2 ^ bits w = k mod 2 ^ bits w \<and> (n = k \<longleftrightarrow> int_fits w k)"
proof -
  have "take_bit (bits w) (signed_take_bit (bits w - Suc 0) k) = take_bit (bits w) k"
    by (simp add: take_bit_signed_take_bit)
  then show ?thesis
    by (simp add: set_int_def take_bit_eq_mod int_fits_def [of w k] signed_take_bit_int_eq_self_iff)
qed

text \<open>
  C35: an integer is cut to the width of its field without an error.  Binding an \<open>int\<close> value to a
  signed field always succeeds; the result is within the width and agrees with the value modulo the
  width, and it is the value itself exactly when the value fits.  On an unsigned field a negative value
  is an error, any other one is stored modulo the width.
\<close>

theorem bind_int_width:
  assumes "Value_Int v = Some (i, True)"
  shows "(\<exists>n. setValue other b (KInt w) fv v fm = Some (b, VInt n, None) \<and> int_fits w n
        \<and> n mod 2 ^ bits w = sint i mod 2 ^ bits w \<and> (n = sint i \<longleftrightarrow> int_fits w (sint i)))
    \<and> setValue other b (KUint w) fv v fm =
      (if sint i < 0
       then Some (b, fv, Some (mismatch (''invalid uint for field '' @ in_quotes (fm_key fm) @ '': negative value'') None))
       else Some (b, VUint (sint i mod 2 ^ bits w), None))"
  using assms set_int_width [of w "sint i"]
  by (auto simp: scalar_done_def scalar_int_def scalar_uint_def set_uint_def take_bit_eq_mod)

theorem bind_int_width_witness:
  "setValue (\<lambda>_. []) NewBinder (KInt W8) (VInt 0) (NewValue (AInt 300) TypeInt SourceFile 10) (meta_of 0 (Field ''A'' (KInt W8) [] True False))
     = Some (NewBinder, VInt 44, None)"
proof -
  let ?v = "NewValue (AInt 300) TypeInt SourceFile 10" and ?fm = "meta_of 0 (Field ''A'' (KInt W8) [] True False)"
  have "Value_Int ?v = Some (300, True)" by (simp add: Value_Int_def)
  from bind_int_width [OF this, of "\<lambda>_. []" NewBinder W8 "VInt 0" ?fm]
  obtain n where n: "setValue (\<lambda>_. []) NewBinder (KInt W8) (VInt 0) ?v ?fm = Some (NewBinder, VInt n, None)"
    "- 128 \<le> n" "n < 128" "n mod 256 = 44"
    by (auto simp: int_fits_def)
  define q where "q = n div 256"
  have q: "n = 256 * q + 44" using n(4) mult_div_mod_eq [of 256 n] by (simp add: q_def)
  have "q < 1" "- 1 < q" using n(2,3) unfolding q by linarith+
  then have "n = 44" using q by simp
  with n(1) show ?thesis by simp
qed

section \<open>Embedded structs\<close>

text \<open>
  C36: the fields of an embedded struct are bound to the wrong places.  When the first field embeds a
  struct, the metadata of its \<open>j\<close>-th field has the index \<open>j\<close> in the outer struct, the same index as the
  metadata of the outer field there; the embedded field's own path \<open>[0, j]\<close> occurs nowhere.
\<close>

theorem embedded_fields_misplaced:
  assumes "\<forall>f\<in>set es. plain_field f" and "\<forall>f\<in>set fs. plain_field f"
  shows "\<exists>m. buildMeta (KStruct (Field n (KStruct es) tag True True # fs)) = Some m
    \<and> map fm_index m = map (\<lambda>j. [j]) [0..<length es] @ map (\<lambda>i. [Suc i]) [0..<length fs]"
proof -
  have idx: "map fm_index (map (\<lambda>(j, f). meta_of j f) (zip [k..<k + length gs] gs)) = map (\<lambda>j. [k + j]) [0..<length gs]"
    for k gs by (rule nth_equalityI) simp_all
  show ?thesis
    using walk_plain [OF assms(1), of 0] walk_plain [OF assms(2), of 1] idx [of 0 es] idx [of 1 fs]
    by (simp add: buildMeta_def)
qed

theorem embedded_fields_misplaced_witness:
  "\<exists>m. buildMeta (KStruct [Field ''Base'' (KStruct server_fields) [] True True, Field ''Name'' KString [] True False]) = Some m
     \<and> map fm_index m = [[0], [1], [2], [1]]"
proof -
  have p: "\<forall>f\<in>set server_fields. plain_field f" "\<forall>f\<in>set [Field ''Name'' KString [] True False]. plain_field f"
    by (simp_all add: server_fields_def plain_field_def)
  show ?thesis using embedded_fields_misplaced [OF p, of "''Base''" "[]"]
    by (simp add: server_fields_def numeral_2_eq_2)
qed

text \<open>So the value meant for the embedded port ends up in the name.\<close>

lemma embedded_port_in_name:
  "map_option snd (Bind (\<lambda>_. []) NewBinder [(''port'', NewValue (AInt 5) TypeInt SourceFile 10)]
     (PointerTo (KStruct [Field ''Base'' (KStruct [Field ''Host'' KString [] True False, Field ''Port'' (KInt W) [] True False]) [] True True,
          Field ''Name'' KString [] True False])
        (VStruct [VStruct [VString [], VInt 0], VString []])))
   = Some (PointerTo (KStruct [Field ''Base'' (KStruct [Field ''Host'' KString [] True False, Field ''Port'' (KInt W) [] True False]) [] True True,
          Field ''Name'' KString [] True False])
        (VStruct [VStruct [VString [], VInt 0], VString ''5'']), None)"
  by code_simp

section \<open>Schemas list the fields\<close>

text \<open>The last metadata whose key ends in \<open>k\<close>: it is the one that stays.\<close>

fun last_with :: "string \<Rightarrow> structMeta \<Rightarrow> fieldMeta option" where
  "last_with k [] = None"
| "last_with k (fm # m) =
     (case last_with k m of
        Some fm' \<Rightarrow> Some fm'
      | None \<Rightarrow> if last_part (fm_key fm) = k then Some fm else None)"

lemma schema_loop_result:
  assumes "schema_loop rt m s = Some s'"
  shows "sc_type s' = sc_type s
     \<and> sc_required s' = sc_required s @ map (\<lambda>fm. last_part (fm_key fm)) (filter fm_required m)
     \<and> (\<forall>k. mget (sc_properties s') k = (case last_with k m of
            None \<Rightarrow> mget (sc_properties s) k
          | Some fm \<Rightarrow> map_option (\<lambda>t. schema_field_of t fm) (type_by_index True rt (fm_index fm))))"
  using assms
proof (induction rt m s rule: schema_loop.induct)
  case (2 rt fm fms schema)
  obtain t where t: "type_by_index True rt (fm_index fm) = Some t"
    using 2(2) by (auto split: option.splits)
  show ?case using 2(1) [OF t refl refl] 2(2) t by (auto simp: Let_def split: option.splits if_splits)
qed simp

text \<open>
  A schema has one property for every last part of a key, from the last field with it, of the
  type of that field; its required names are those of the required fields, in the order of the struct.
\<close>

theorem schema_lists_fields:
  assumes "Schema_of NewBinder (PointerTo rt rv) = Some (b, Inr s)" and "buildMeta rt = Some m"
  shows "sc_type s = ''object'' \<and> sc_required s = map (\<lambda>fm. last_part (fm_key fm)) (filter fm_required m)
    \<and> (\<forall>k. mget (sc_properties s) k =
         Option.bind (last_with k m) (\<lambda>fm. map_option (\<lambda>t. schema_field_of t fm) (type_by_index True rt (fm_index fm))))"
proof -
  have "buildSchema rt m = Some s"
    using assms getMeta_ok [OF cache_ok_New, of rt] by (auto simp: Schema_of_def split: if_splits option.splits)
  from schema_loop_result [OF this [unfolded buildSchema_def]] show ?thesis
    by (auto split: option.splits)
qed

theorem schema_lists_fields_witness:
  "\<exists>b s. Schema_of NewBinder (PointerTo (KStruct server_fields) (zero_of (KStruct server_fields))) = Some (b, Inr s)
     \<and> sc_required s = [''host'']"
proof -
  obtain b s where s: "Schema_of NewBinder (PointerTo (KStruct server_fields) (zero_of (KStruct server_fields))) = Some (b, Inr s)"
  proof -
    have "Schema_of NewBinder (PointerTo (KStruct server_fields) (zero_of (KStruct server_fields))) \<noteq> None
      \<and> \<not> isl (snd (the (Schema_of NewBinder (PointerTo (KStruct server_fields) (zero_of (KStruct server_fields))))))"
      by code_simp
    then show ?thesis using that by (metis option.exhaust_sel prod.collapse sum.collapse(2))
  qed
  have m: "buildMeta (KStruct server_fields) = Some (map (\<lambda>(j, f). meta_of j f) (zip [0..<3] server_fields))"
  proof -
    have p: "\<forall>f\<in>set server_fields. plain_field f" by (simp add: server_fields_def plain_field_def)
    have l: "length server_fields = 3" by (simp add: server_fields_def)
    show ?thesis using walk_plain [OF p, of 0] by (simp add: buildMeta_def l)
  qed
  have "map (\<lambda>fm. last_part (fm_key fm)) (filter fm_required (map (\<lambda>(j, f). meta_of j f) (zip [0..<3] server_fields))) = [''host'']"
    by code_simp
  then show ?thesis using schema_lists_fields [OF s m] s by auto
qed

end
