(* ===== verification/Watch.thy ===== *)
theory Watch
  imports Types
begin

text \<open>
  Package watch (watch/watch.go): the polling file watcher, the debouncer, the watcher of several files
  and the manager with its callbacks.

  A channel is its queue and whether it is closed.  The goroutines of a file watcher stand in a list,
  each with the point it has reached and whether its context is done; \<open>fw_stopping\<close> counts the calls of
  \<open>Stop\<close> that wait for the goroutine.  Operations and the branches of each \<open>select\<close> are definitions; the
  step relations let them happen in any order.  Sending on a closed channel and closing one twice are
  panics, the value \<open>None\<close>.
\<close>

section \<open>Changes\<close>

datatype ChangeType = ChangeModified | ChangeCreated | ChangeDeleted | ChangeReload

record Change =
  ch_type :: ChangeType
  ch_source :: string
  ch_time :: int
  ch_error :: "goerror option"

section \<open>The file watcher\<close>

datatype fw_point = Polling | Sending Change | Returning | Returned

record FileWatcher =
  fw_path :: string
  fw_interval :: int
  fw_changes :: "Change list"
  fw_closed :: bool
  fw_lastMod :: int
  fw_running :: bool
  fw_stop :: bool
  fw_stopped :: bool
  fw_gos :: "(fw_point \<times> bool) list"
  fw_stopping :: nat
  fw_received :: "Change list"

definition change_capacity :: nat where "change_capacity = 10"

definition WithInterval :: "int \<Rightarrow> FileWatcher \<Rightarrow> FileWatcher" where
  "WithInterval d w = w\<lparr>fw_interval := d\<rparr>"

definition NewFileWatcher :: "string \<Rightarrow> (FileWatcher \<Rightarrow> FileWatcher) list \<Rightarrow> FileWatcher" where
  "NewFileWatcher path opts =
     fold (\<lambda>opt w. opt w) opts
       \<lparr>fw_path = path, fw_interval = 1000000000, fw_changes = [], fw_closed = False, fw_lastMod = 0,
        fw_running = False, fw_stop = False, fw_stopped = False, fw_gos = [], fw_stopping = 0, fw_received = []\<rparr>"

text \<open>\<open>info\<close> is the outcome of \<open>getFileInfo\<close>, reduced to the modification time.\<close>

definition FileWatcher_Start :: "goerror + int \<Rightarrow> FileWatcher \<Rightarrow> FileWatcher" where
  "FileWatcher_Start info w =
     (if fw_running w then w
      else w\<lparr>fw_running := True, fw_lastMod := (case info of Inr t \<Rightarrow> t | Inl _ \<Rightarrow> fw_lastMod w),
             fw_gos := fw_gos w @ [(Polling, False)]\<rparr>)"

text \<open>\<open>checkFile\<close> up to its send: the change to send, if any.\<close>

definition checkFile :: "goerror + int \<Rightarrow> int \<Rightarrow> FileWatcher \<Rightarrow> Change option \<times> FileWatcher" where
  "checkFile info now w =
     (case info of
        Inl err \<Rightarrow> (Some \<lparr>ch_type = ChangeDeleted, ch_source = [], ch_time = now, ch_error = Some err\<rparr>, w)
      | Inr t \<Rightarrow>
          if fw_lastMod w < t
          then (Some \<lparr>ch_type = ChangeModified, ch_source = [], ch_time = now, ch_error = None\<rparr>, w\<lparr>fw_lastMod := t\<rparr>)
          else (None, w))"

definition set_go :: "nat \<Rightarrow> fw_point \<Rightarrow> FileWatcher \<Rightarrow> FileWatcher" where
  "set_go i p w = w\<lparr>fw_gos := (fw_gos w)[i := (p, snd (fw_gos w ! i))]\<rparr>"

definition watch_tick :: "nat \<Rightarrow> goerror + int \<Rightarrow> int \<Rightarrow> FileWatcher \<Rightarrow> FileWatcher" where
  "watch_tick i info now w =
     (case checkFile info now w of
        (None, w') \<Rightarrow> w'
      | (Some c, w') \<Rightarrow> set_go i (Sending c) w')"

definition watch_send :: "nat \<Rightarrow> Change \<Rightarrow> FileWatcher \<Rightarrow> FileWatcher option" where
  "watch_send i c w =
     (if fw_closed w then None else Some (set_go i Polling (w\<lparr>fw_changes := fw_changes w @ [c]\<rparr>)))"

text \<open>The deferred closes, the changes first.\<close>

definition watch_exit :: "nat \<Rightarrow> FileWatcher \<Rightarrow> FileWatcher option" where
  "watch_exit i w =
     (if fw_closed w \<or> fw_stopped w then None
      else Some (set_go i Returned (w\<lparr>fw_closed := True, fw_stopped := True\<rparr>)))"

definition FileWatcher_Stop :: "FileWatcher \<Rightarrow> FileWatcher option" where
  "FileWatcher_Stop w =
     (if \<not> fw_running w then Some w
      else if fw_stop w then None
      else Some (w\<lparr>fw_running := False, fw_stop := True, fw_stopping := fw_stopping w + 1\<rparr>))"

text \<open>The steps of a watcher, its callers and the reader of its changes.\<close>

datatype fw_label =
    FStart "goerror + int"
  | FTick nat "goerror + int" int
  | FSend nat
  | FSendDone nat
  | FLeave nat
  | FExit nat
  | FContext nat
  | FStop
  | FStopReturns
  | FReceive

inductive fw_step :: "FileWatcher \<Rightarrow> fw_label \<Rightarrow> FileWatcher \<Rightarrow> bool" where
  start: "fw_step w (FStart info) (FileWatcher_Start info w)"
| tick: "i < length (fw_gos w) \<Longrightarrow> fst (fw_gos w ! i) = Polling \<Longrightarrow>
     fw_step w (FTick i info now) (watch_tick i info now w)"
| send: "i < length (fw_gos w) \<Longrightarrow> fst (fw_gos w ! i) = Sending c \<Longrightarrow>
     length (fw_changes w) < change_capacity \<Longrightarrow> watch_send i c w = Some w' \<Longrightarrow> fw_step w (FSend i) w'"
| send_done: "i < length (fw_gos w) \<Longrightarrow> fw_gos w ! i = (Sending c, True) \<Longrightarrow>
     fw_step w (FSendDone i) (set_go i Polling w)"
| leave: "i < length (fw_gos w) \<Longrightarrow> fst (fw_gos w ! i) = Polling \<Longrightarrow> fw_stop w \<or> snd (fw_gos w ! i) \<Longrightarrow>
     fw_step w (FLeave i) (set_go i Returning w)"
| exit: "i < length (fw_gos w) \<Longrightarrow> fst (fw_gos w ! i) = Returning \<Longrightarrow> watch_exit i w = Some w' \<Longrightarrow>
     fw_step w (FExit i) w'"
| context_done: "i < length (fw_gos w) \<Longrightarrow>
     fw_step w (FContext i) (w\<lparr>fw_gos := (fw_gos w)[i := (fst (fw_gos w ! i), True)]\<rparr>)"
| stop: "FileWatcher_Stop w = Some w' \<Longrightarrow> fw_step w FStop w'"
| stop_returns: "0 < fw_stopping w \<Longrightarrow> fw_stopped w \<Longrightarrow>
     fw_step w FStopReturns (w\<lparr>fw_stopping := fw_stopping w - 1\<rparr>)"
| receive: "fw_changes w = c # q \<Longrightarrow>
     fw_step w FReceive (w\<lparr>fw_changes := q, fw_received := fw_received w @ [c]\<rparr>)"

inductive fw_run :: "FileWatcher \<Rightarrow> fw_label list \<Rightarrow> FileWatcher \<Rightarrow> bool" where
  start: "fw_run w [] w"
| snoc: "fw_run w ls w' \<Longrightarrow> fw_step w' l w'' \<Longrightarrow> fw_run w (ls @ [l]) w''"

inductive_cases fw_stepE: "fw_step w l w'"
inductive_cases fw_run_NilE: "fw_run w [] w'"

lemma fw_run_single: "fw_run w [l] w' \<Longrightarrow> fw_step w l w'"
  by (erule fw_run.cases) (auto elim: fw_run_NilE)

section \<open>What a run keeps\<close>

definition returned :: "FileWatcher \<Rightarrow> nat" where
  "returned w = length (filter (\<lambda>g. fst g = Returned) (fw_gos w))"

text \<open>
  The channels close together when a goroutine returns; more than one goroutine needs a \<open>Stop\<close> in
  between, and a waiting \<open>Stop\<close> has closed the stop channel.
\<close>

definition fw_inv :: "FileWatcher \<Rightarrow> bool" where
  "fw_inv w \<longleftrightarrow>
     length (fw_changes w) \<le> change_capacity
     \<and> fw_closed w = fw_stopped w
     \<and> returned w = (if fw_stopped w then 1 else 0)
     \<and> (fw_running w \<and> fw_stop w \<longrightarrow> 2 \<le> length (fw_gos w))
     \<and> (fw_stop w \<longrightarrow> fw_gos w \<noteq> [])
     \<and> (\<not> fw_stop w \<longrightarrow> length (fw_gos w) = (if fw_running w then 1 else 0))"

lemma returned_map: "returned w = length (filter (\<lambda>p. p = Returned) (map fst (fw_gos w)))"
  by (simp add: returned_def filter_map o_def)

lemma length_set_go [simp]: "length (fw_gos (set_go i p w)) = length (fw_gos w)"
  by (simp add: set_go_def)

lemma set_go_sel [simp]:
  "fw_changes (set_go i p w) = fw_changes w" "fw_closed (set_go i p w) = fw_closed w"
  "fw_stop (set_go i p w) = fw_stop w" "fw_stopped (set_go i p w) = fw_stopped w"
  "fw_running (set_go i p w) = fw_running w" "fw_stopping (set_go i p w) = fw_stopping w"
  "fw_lastMod (set_go i p w) = fw_lastMod w" "fw_received (set_go i p w) = fw_received w"
  by (simp_all add: set_go_def)

lemma set_go_empty [simp]: "fw_gos (set_go i p w) = [] \<longleftrightarrow> fw_gos w = []"
  by (simp add: set_go_def)

lemma returned_set_go:
  assumes "i < length (fw_gos w)" and "fst (fw_gos w ! i) \<noteq> Returned"
  shows "returned (set_go i p w) = returned w + (if p = Returned then 1 else 0)"
  using count_list_update [of i "fw_gos w" "\<lambda>g. fst g = Returned" "(p, snd (fw_gos w ! i))"] assms by (simp add: returned_def set_go_def)

lemma NewFileWatcher_sel:
  "fw_changes (NewFileWatcher path (map WithInterval ds)) = []"
  "fw_closed (NewFileWatcher path (map WithInterval ds)) = False"
  "fw_stop (NewFileWatcher path (map WithInterval ds)) = False"
  "fw_stopped (NewFileWatcher path (map WithInterval ds)) = False"
  "fw_running (NewFileWatcher path (map WithInterval ds)) = False"
  "fw_gos (NewFileWatcher path (map WithInterval ds)) = []"
proof -
  have "fold (\<lambda>opt w. opt w) (map WithInterval ds) w
      = w\<lparr>fw_interval := (if ds = [] then fw_interval w else last ds)\<rparr>" for w
    by (induction ds arbitrary: w) (simp_all add: WithInterval_def)
  then show
    "fw_changes (NewFileWatcher path (map WithInterval ds)) = []"
    "fw_closed (NewFileWatcher path (map WithInterval ds)) = False"
    "fw_stop (NewFileWatcher path (map WithInterval ds)) = False"
    "fw_stopped (NewFileWatcher path (map WithInterval ds)) = False"
    "fw_running (NewFileWatcher path (map WithInterval ds)) = False"
    "fw_gos (NewFileWatcher path (map WithInterval ds)) = []"
    by (simp_all add: NewFileWatcher_def)
qed

lemma fw_inv_New: "fw_inv (NewFileWatcher path (map WithInterval ds))"
  by (simp add: fw_inv_def NewFileWatcher_sel returned_def)

lemma returned_simps [simp]:
  "returned (w\<lparr>fw_changes := q\<rparr>) = returned w" "returned (w\<lparr>fw_lastMod := t\<rparr>) = returned w"
  "returned (w\<lparr>fw_closed := b\<rparr>) = returned w" "returned (w\<lparr>fw_stopped := b\<rparr>) = returned w"
  "returned (w\<lparr>fw_stopping := n\<rparr>) = returned w" "returned (w\<lparr>fw_received := r\<rparr>) = returned w"
  "returned (w\<lparr>fw_running := b\<rparr>) = returned w" "returned (w\<lparr>fw_stop := b\<rparr>) = returned w"
  by (simp_all add: returned_def)

lemma fw_inv_step:
  assumes "fw_step w l w'" and "fw_inv w"
  shows "fw_inv w'"
  using assms
proof (cases rule: fw_step.cases)
  case (start info)
  then show ?thesis using assms(2)
    by (auto simp: fw_inv_def FileWatcher_Start_def returned_def Suc_le_eq)
next
  case (tick i info now)
  then show ?thesis using assms(2) returned_set_go [of i _ "Sending _"]
    by (auto simp: fw_inv_def watch_tick_def checkFile_def split: sum.splits if_splits)
next
  case (send i c)
  then show ?thesis using assms(2) returned_set_go [of i "w\<lparr>fw_changes := fw_changes w @ [c]\<rparr>" Polling]
    by (auto simp: fw_inv_def watch_send_def split: if_splits)
next
  case (send_done i c)
  then show ?thesis using assms(2) returned_set_go [of i w Polling] by (auto simp: fw_inv_def)
next
  case (leave i)
  then show ?thesis using assms(2) returned_set_go [of i w Returning] by (auto simp: fw_inv_def)
next
  case (exit i)
  then show ?thesis using assms(2) returned_set_go [of i "w\<lparr>fw_closed := True, fw_stopped := True\<rparr>" Returned]
    by (auto simp: fw_inv_def watch_exit_def split: if_splits)
next
  case (context_done i)
  have "map fst ((fw_gos w)[i := (fst (fw_gos w ! i), True)]) = map fst (fw_gos w)"
    using context_done(3) by (intro nth_equalityI) (auto simp: nth_list_update)
  then have "returned w' = returned w"
    unfolding returned_map context_done(2) by simp
  then show ?thesis using assms(2) context_done by (simp add: fw_inv_def)
next
  case stop
  then show ?thesis using assms(2) by (auto simp: fw_inv_def FileWatcher_Stop_def split: if_splits)
next
  case stop_returns
  then show ?thesis using assms(2) by (auto simp: fw_inv_def)
next
  case (receive c q)
  then show ?thesis using assms(2) by (auto simp: fw_inv_def)
qed

lemma fw_inv_run: "fw_run w ls w' \<Longrightarrow> fw_inv w \<Longrightarrow> fw_inv w'"
  by (induction rule: fw_run.induct) (auto intro: fw_inv_step)

section \<open>Panics and waiting\<close>

text \<open>
  C29: a file watcher can be used once.  In every run of a new watcher at most ten changes are queued,
  and its goroutines and \<open>Stop\<close> can panic exactly after a restart: a goroutine that leaves its loop or
  sends a change does so when another one has returned before it (both channels are closed then), and
  \<open>Stop\<close> does when it is called on a watcher that was started again.
\<close>

theorem watcher_panics_after_restart:
  assumes "fw_run (NewFileWatcher path (map WithInterval ds)) ls w" and "i < length (fw_gos w)"
  shows "length (fw_changes w) \<le> 10
    \<and> (fst (fw_gos w ! i) = Returning \<longrightarrow> (watch_exit i w = None \<longleftrightarrow> 2 \<le> length (fw_gos w) \<and> returned w = 1))
    \<and> (fst (fw_gos w ! i) = Sending c \<longrightarrow> (watch_send i c w = None \<longleftrightarrow> 2 \<le> length (fw_gos w) \<and> returned w = 1))
    \<and> (FileWatcher_Stop w = None \<longleftrightarrow> fw_running w \<and> 2 \<le> length (fw_gos w))"
proof -
  have "fw_inv w" by (rule fw_inv_run [OF assms(1) fw_inv_New])
  then have cap: "length (fw_changes w) \<le> 10" and closed: "fw_closed w = fw_stopped w"
    and ret: "returned w = 1 \<longleftrightarrow> fw_stopped w"
    and stop: "fw_running w \<Longrightarrow> fw_stop w \<longleftrightarrow> 2 \<le> length (fw_gos w)"
    by (auto simp: fw_inv_def change_capacity_def)
  have two: "2 \<le> length (fw_gos w)" if "fst (fw_gos w ! i) \<noteq> Returned" "fw_stopped w"
  proof (rule ccontr)
    assume "\<not> 2 \<le> length (fw_gos w)"
    then obtain g where "fw_gos w = [g]" using assms(2) by (cases "fw_gos w") (auto simp: Suc_le_eq)
    then have "returned w = 0" using that(1) assms(2) by (simp add: returned_def)
    then show False using ret that(2) by simp
  qed
  have "fst (fw_gos w ! i) = Returning \<longrightarrow> (watch_exit i w = None \<longleftrightarrow> 2 \<le> length (fw_gos w) \<and> returned w = 1)"
    using two ret by (cases "fw_stopped w") (simp_all add: watch_exit_def closed)
  moreover have "fst (fw_gos w ! i) = Sending c \<longrightarrow> (watch_send i c w = None \<longleftrightarrow> 2 \<le> length (fw_gos w) \<and> returned w = 1)"
    using two ret by (cases "fw_stopped w") (simp_all add: watch_send_def closed)
  moreover have "FileWatcher_Stop w = None \<longleftrightarrow> fw_running w \<and> 2 \<le> length (fw_gos w)"
    using stop by (cases "fw_running w") (simp_all add: FileWatcher_Stop_def)
  ultimately show ?thesis using cap by blast
qed

text \<open>The steps are deterministic and can be computed.\<close>

definition fw_next :: "FileWatcher \<Rightarrow> fw_label \<Rightarrow> FileWatcher option" where
  "fw_next w l =
     (let at = (\<lambda>i. if i < length (fw_gos w) then Some (fw_gos w ! i) else None)
      in case l of
        FStart info \<Rightarrow> Some (FileWatcher_Start info w)
      | FTick i info now \<Rightarrow> (case at i of Some (Polling, _) \<Rightarrow> Some (watch_tick i info now w) | _ \<Rightarrow> None)
      | FSend i \<Rightarrow>
          (case at i of Some (Sending c, _) \<Rightarrow> if length (fw_changes w) < change_capacity then watch_send i c w else None
           | _ \<Rightarrow> None)
      | FSendDone i \<Rightarrow> (case at i of Some (Sending c, True) \<Rightarrow> Some (set_go i Polling w) | _ \<Rightarrow> None)
      | FLeave i \<Rightarrow>
          (case at i of Some (Polling, d) \<Rightarrow> if fw_stop w \<or> d then Some (set_go i Returning w) else None | _ \<Rightarrow> None)
      | FExit i \<Rightarrow> (case at i of Some (Returning, _) \<Rightarrow> watch_exit i w | _ \<Rightarrow> None)
      | FContext i \<Rightarrow> (case at i of Some (p, _) \<Rightarrow> Some (w\<lparr>fw_gos := (fw_gos w)[i := (p, True)]\<rparr>) | None \<Rightarrow> None)
      | FStop \<Rightarrow> FileWatcher_Stop w
      | FStopReturns \<Rightarrow> if 0 < fw_stopping w \<and> fw_stopped w then Some (w\<lparr>fw_stopping := fw_stopping w - 1\<rparr>) else None
      | FReceive \<Rightarrow> (case fw_changes w of c # q \<Rightarrow> Some (w\<lparr>fw_changes := q, fw_received := fw_received w @ [c]\<rparr>) | [] \<Rightarrow> None))"

lemma context_step:
  "i < length (fw_gos w) \<Longrightarrow> fw_gos w ! i = (p, d) \<Longrightarrow>
     fw_step w (FContext i) (w\<lparr>fw_gos := (fw_gos w)[i := (p, True)]\<rparr>)"
  using fw_step.context_done [of i w] by simp

lemma fw_next_step: "fw_next w l = Some w' \<Longrightarrow> fw_step w l w'"
  by (cases l)
     (auto simp: fw_next_def Let_def simp del: One_nat_def intro: fw_step.intros context_step
       split: if_splits prod.splits fw_point.splits list.splits bool.splits)

fun fw_exec :: "FileWatcher \<Rightarrow> fw_label list \<Rightarrow> FileWatcher option" where
  "fw_exec w [] = Some w"
| "fw_exec w (l # ls) = Option.bind (fw_next w l) (\<lambda>w'. fw_exec w' ls)"

lemma fw_run_Cons: "fw_run w' ls w'' \<Longrightarrow> fw_step w l w' \<Longrightarrow> fw_run w (l # ls) w''"
proof (induction rule: fw_run.induct)
  case (start w')
  then show ?case using fw_run.snoc [OF fw_run.start, of w l w'] by simp
next
  case (snoc w' ls v l' v')
  then show ?case using fw_run.snoc [of w "l # ls" v l' v'] by simp
qed

lemma fw_exec_run: "fw_exec w ls = Some w' \<Longrightarrow> fw_run w ls w'"
  by (induction ls arbitrary: w) (auto intro: fw_run.start fw_run_Cons fw_next_step split: Option.bind_splits)

definition restarted :: FileWatcher where
  "restarted = the (fw_exec (NewFileWatcher ''app.yaml'' [])
     [FStart (Inr 5), FStop, FLeave 0, FExit 0, FStopReturns, FStart (Inr 5), FLeave 1])"

theorem watcher_panics_after_restart_witness:
  "fw_gos restarted = [(Returned, False), (Returning, False)] \<and> watch_exit 1 restarted = None"
proof -
  have g: "fw_gos restarted = [(Returned, False), (Returning, False)]" by code_simp
  have "fw_exec (NewFileWatcher ''app.yaml'' (map WithInterval []))
     [FStart (Inr 5), FStop, FLeave 0, FExit 0, FStopReturns, FStart (Inr 5), FLeave 1] = Some restarted"
    by code_simp
  from watcher_panics_after_restart [OF fw_exec_run [OF this], of 1] show ?thesis
    by (simp add: g returned_def)
qed

definition stop_stuck :: "FileWatcher \<Rightarrow> bool" where
  "stop_stuck w \<longleftrightarrow>
     (case fw_gos w of [(Sending c, False)] \<Rightarrow> True | _ \<Rightarrow> False) \<and> length (fw_changes w) = change_capacity
     \<and> \<not> fw_running w \<and> fw_stop w \<and> \<not> fw_stopped w \<and> 0 < fw_stopping w"

definition helps :: "fw_label \<Rightarrow> bool" where
  "helps l \<longleftrightarrow> (case l of FReceive \<Rightarrow> True | FContext _ \<Rightarrow> True | FStart _ \<Rightarrow> True | _ \<Rightarrow> False)"

lemma stop_stuck_step:
  assumes "fw_step w l w'" and "stop_stuck w" and "\<not> helps l"
  shows "w' = w"
  using assms
  by (cases rule: fw_step.cases)
     (auto simp: stop_stuck_def helps_def FileWatcher_Stop_def split: list.splits prod.splits fw_point.splits bool.splits)

text \<open>
  C30: \<open>Stop\<close> hangs when nobody reads.  In a state where \<open>Stop\<close> waits, the context is alive, the queue
  is full and the goroutine is sending, nothing but a read, the end of the context or a new \<open>Start\<close>
  helps: after any other steps \<open>Stop\<close> still waits and the goroutine is still sending.
\<close>

theorem stop_hangs_when_full:
  assumes "stop_stuck w" and "fw_run w ls w'" and "\<forall>l\<in>set ls. \<not> helps l"
  shows "w' = w \<and> 0 < fw_stopping w'"
  using assms(2,1,3)
proof (induction rule: fw_run.induct)
  case (snoc w ls w' l w'')
  then show ?case using stop_stuck_step [of w' l w''] by auto
qed (simp add: stop_stuck_def)

definition full_run :: "fw_label list" where
  "full_run =
     FStart (Inr 0) # concat (map (\<lambda>n. [FTick 0 (Inr (int n)) (int n), FSend 0]) [1..<11]) @ [FTick 0 (Inr 11) 11, FStop]"

theorem stop_hangs_when_full_witness:
  "\<exists>w. fw_run (NewFileWatcher ''app.yaml'' []) full_run w \<and> (\<forall>w'. \<not> fw_run w [FStopReturns] w')"
proof -
  let ?w = "the (fw_exec (NewFileWatcher ''app.yaml'' []) full_run)"
  have run: "fw_exec (NewFileWatcher ''app.yaml'' []) full_run = Some ?w" by code_simp
  have stuck: "stop_stuck ?w" by code_simp
  have "fw_run ?w [FStopReturns] w' \<Longrightarrow> False" for w'
  proof -
    assume r: "fw_run ?w [FStopReturns] w'"
    have "w' = ?w" using stop_hangs_when_full [OF stuck r] by (simp add: helps_def)
    then have "fw_step ?w FStopReturns ?w" using fw_run_single [OF r] by simp
    moreover have "\<not> fw_stopped ?w" using stuck by (simp add: stop_stuck_def)
    ultimately show False by (cases rule: fw_step.cases) auto
  qed
  then show ?thesis using fw_exec_run [OF run] by blast
qed

end
