(* ===== verification/WatchGroup.thy ===== *)
theory WatchGroup
  imports Watch "HOL-Library.Sublist"
begin

text \<open>
  The rest of package watch (watch/watch.go): the debouncer as a timed step relation, the watcher of
  several files, and the manager with its callbacks.
\<close>

section \<open>The debouncer\<close>

text \<open>
  One goroutine with its pending change and its timer, armed for \<open>db_deadline\<close>.  \<open>db_now\<close> is the clock;
  \<open>db_seen\<close> and \<open>db_emitted\<close> record, with their times, the changes taken from the source and those put
  into the output; \<open>db_flushed\<close> is the one put there when the source ends.  A second \<open>Start\<close> before the goroutine has returned is not modelled.
\<close>

datatype db_point = Idle | Waiting | Emitting Change | Leaving | Left

record Debouncer =
  db_interval :: int
  db_output :: "Change list"
  db_closed :: bool
  db_running :: bool
  db_stop :: bool
  db_stopped :: bool
  db_pending :: "Change option"
  db_deadline :: "int option"
  db_point :: db_point
  db_ctx_done :: bool
  db_now :: int
  db_seen :: "(int \<times> Change) list"
  db_emitted :: "(int \<times> Change) list"
  db_flushed :: "(int \<times> Change) list"

definition NewDebouncer :: "int \<Rightarrow> int \<Rightarrow> Debouncer" where
  "NewDebouncer interval now =
     \<lparr>db_interval = interval, db_output = [], db_closed = False, db_running = False, db_stop = False,
      db_stopped = False, db_pending = None, db_deadline = None, db_point = Idle, db_ctx_done = False,
      db_now = now, db_seen = [], db_emitted = [], db_flushed = []\<rparr>"

definition Debouncer_Start :: "Debouncer \<Rightarrow> Debouncer" where
  "Debouncer_Start d =
     (if db_running d then d
      else d\<lparr>db_running := True, db_point := Waiting, db_pending := None, db_deadline := None\<rparr>)"

text \<open>The branches of the \<open>select\<close> of \<open>run\<close>: a change, the end of the source, the timer.\<close>

definition run_change :: "Change \<Rightarrow> Debouncer \<Rightarrow> Debouncer" where
  "run_change c d =
     d\<lparr>db_pending := Some c, db_deadline := Some (db_now d + db_interval d),
       db_seen := db_seen d @ [(db_now d, c)]\<rparr>"

definition emit :: "Change \<Rightarrow> Debouncer \<Rightarrow> Debouncer" where
  "emit c d = d\<lparr>db_output := db_output d @ [c], db_emitted := db_emitted d @ [(db_now d, c)]\<rparr>"

definition run_source_closed :: "Debouncer \<Rightarrow> Debouncer" where
  "run_source_closed d =
     (case db_pending d of
        Some c \<Rightarrow>
          (if length (db_output d) < change_capacity
           then d\<lparr>db_output := db_output d @ [c], db_flushed := db_flushed d @ [(db_now d, c)], db_point := Leaving\<rparr>
           else d\<lparr>db_point := Leaving\<rparr>)
      | None \<Rightarrow> d\<lparr>db_point := Leaving\<rparr>)"

definition run_timer :: "Debouncer \<Rightarrow> Debouncer" where
  "run_timer d =
     (case db_pending d of
        Some c \<Rightarrow> d\<lparr>db_deadline := None, db_point := Emitting c\<rparr>
      | None \<Rightarrow> d\<lparr>db_deadline := None\<rparr>)"

definition run_send :: "Change \<Rightarrow> Debouncer \<Rightarrow> Debouncer option" where
  "run_send c d = (if db_closed d then None else Some ((emit c d)\<lparr>db_pending := None, db_point := Waiting\<rparr>))"

definition run_exit :: "Debouncer \<Rightarrow> Debouncer option" where
  "run_exit d =
     (if db_closed d \<or> db_stopped d then None else Some (d\<lparr>db_closed := True, db_stopped := True, db_point := Left\<rparr>))"

definition Debouncer_Stop :: "Debouncer \<Rightarrow> Debouncer option" where
  "Debouncer_Stop d =
     (if \<not> db_running d then Some d
      else if db_stop d then None
      else Some (d\<lparr>db_running := False, db_stop := True\<rparr>))"

inductive db_step :: "Debouncer \<Rightarrow> Debouncer \<Rightarrow> bool" where
  clock: "db_now d \<le> t \<Longrightarrow> db_step d (d\<lparr>db_now := t\<rparr>)"
| start: "db_point d \<in> {Idle, Left} \<Longrightarrow> db_step d (Debouncer_Start d)"
| change: "db_point d = Waiting \<Longrightarrow> db_step d (run_change c d)"
| source_closed: "db_point d = Waiting \<Longrightarrow> db_step d (run_source_closed d)"
| timer: "db_point d = Waiting \<Longrightarrow> db_deadline d = Some t \<Longrightarrow> t \<le> db_now d \<Longrightarrow> db_step d (run_timer d)"
| send: "db_point d = Emitting c \<Longrightarrow> length (db_output d) < change_capacity \<Longrightarrow> run_send c d = Some d' \<Longrightarrow>
     db_step d d'"
| send_done: "db_point d = Emitting c \<Longrightarrow> db_ctx_done d \<Longrightarrow> db_step d (d\<lparr>db_point := Leaving\<rparr>)"
| leave: "db_point d = Waiting \<Longrightarrow> db_ctx_done d \<or> db_stop d \<Longrightarrow> db_step d (d\<lparr>db_point := Leaving\<rparr>)"
| exit: "db_point d = Leaving \<Longrightarrow> run_exit d = Some d' \<Longrightarrow> db_step d d'"
| context_done: "db_step d (d\<lparr>db_ctx_done := True\<rparr>)"
| stop: "Debouncer_Stop d = Some d' \<Longrightarrow> db_step d d'"
| receive: "db_output d = c # q \<Longrightarrow> db_step d (d\<lparr>db_output := q\<rparr>)"

text \<open>
  A change \<open>c\<close> emitted at time \<open>te\<close> is quiet: it was taken from the source a whole interval before, no
  other change came between, and the later ones came after it was emitted.
\<close>

definition quiet :: "Debouncer \<Rightarrow> int \<Rightarrow> Change \<Rightarrow> bool" where
  "quiet d te c \<longleftrightarrow>
     (\<exists>xs t ys. db_seen d = xs @ (t, c) # ys \<and> t + db_interval d \<le> te \<and> (\<forall>(t', _)\<in>set ys. te \<le> t'))"

text \<open>The pending change is the last one taken, and nothing of it has been emitted.\<close>

definition last_pending :: "Debouncer \<Rightarrow> Change \<Rightarrow> int \<Rightarrow> bool" where
  "last_pending d c t \<longleftrightarrow> (\<exists>xs. db_seen d = xs @ [(t, c)] \<and> subseq (map snd (db_emitted d)) (map snd xs))"

definition db_inv :: "Debouncer \<Rightarrow> bool" where
  "db_inv d \<longleftrightarrow>
     length (db_output d) \<le> change_capacity
     \<and> (\<forall>(t, _)\<in>set (db_seen d). t \<le> db_now d)
     \<and> (\<forall>(te, c)\<in>set (db_emitted d). te \<le> db_now d \<and> quiet d te c)
     \<and> subseq (map snd (db_emitted d)) (map snd (db_seen d))
     \<and> (case db_point d of
          Waiting \<Rightarrow> (\<forall>c. db_pending d = Some c \<longrightarrow>
             (\<exists>t. last_pending d c t \<and> db_deadline d = Some (t + db_interval d)))
        | Emitting c \<Rightarrow> db_pending d = Some c \<and> (\<exists>t. last_pending d c t \<and> t + db_interval d \<le> db_now d)
        | _ \<Rightarrow> True)"

lemma db_inv_New [simp]: "db_inv (NewDebouncer i now)"
  by (simp add: db_inv_def NewDebouncer_def)

lemma quiet_upd [simp]:
  "quiet (d\<lparr>db_output := x0\<rparr>) te c = quiet d te c"
  "quiet (d\<lparr>db_closed := x1\<rparr>) te c = quiet d te c"
  "quiet (d\<lparr>db_running := x2\<rparr>) te c = quiet d te c"
  "quiet (d\<lparr>db_stop := x3\<rparr>) te c = quiet d te c"
  "quiet (d\<lparr>db_stopped := x4\<rparr>) te c = quiet d te c"
  "quiet (d\<lparr>db_pending := x5\<rparr>) te c = quiet d te c"
  "quiet (d\<lparr>db_deadline := x6\<rparr>) te c = quiet d te c"
  "quiet (d\<lparr>db_point := x7\<rparr>) te c = quiet d te c"
  "quiet (d\<lparr>db_ctx_done := x8\<rparr>) te c = quiet d te c"
  "quiet (d\<lparr>db_now := x9\<rparr>) te c = quiet d te c"
  "quiet (d\<lparr>db_emitted := x10\<rparr>) te c = quiet d te c"
  "quiet (d\<lparr>db_flushed := x11\<rparr>) te c = quiet d te c"
  by (simp_all add: quiet_def)

lemma last_pending_upd [simp]:
  "last_pending (d\<lparr>db_output := x0\<rparr>) c t = last_pending d c t"
  "last_pending (d\<lparr>db_closed := x1\<rparr>) c t = last_pending d c t"
  "last_pending (d\<lparr>db_running := x2\<rparr>) c t = last_pending d c t"
  "last_pending (d\<lparr>db_stop := x3\<rparr>) c t = last_pending d c t"
  "last_pending (d\<lparr>db_stopped := x4\<rparr>) c t = last_pending d c t"
  "last_pending (d\<lparr>db_pending := x5\<rparr>) c t = last_pending d c t"
  "last_pending (d\<lparr>db_deadline := x6\<rparr>) c t = last_pending d c t"
  "last_pending (d\<lparr>db_point := x7\<rparr>) c t = last_pending d c t"
  "last_pending (d\<lparr>db_ctx_done := x8\<rparr>) c t = last_pending d c t"
  "last_pending (d\<lparr>db_now := x9\<rparr>) c t = last_pending d c t"
  "last_pending (d\<lparr>db_flushed := x10\<rparr>) c t = last_pending d c t"
  by (simp_all add: last_pending_def)

lemma quiet_snoc:
  assumes "quiet d te c" and "db_seen d' = db_seen d @ [(t', c')]" and "db_interval d' = db_interval d" and "te \<le> t'"
  shows "quiet d' te c"
proof -
  obtain xs t ys where "db_seen d = xs @ (t, c) # ys" "t + db_interval d \<le> te" "\<forall>(t', _)\<in>set ys. te \<le> t'"
    using assms(1) by (auto simp: quiet_def)
  then show ?thesis using assms(2-4) unfolding quiet_def
    by (intro exI [of _ xs] exI [of _ t] exI [of _ "ys @ [(t', c')]"]) auto
qed

lemma db_inv_step:
  assumes "db_step d d'" and "db_inv d"
  shows "db_inv d'"
  using assms
proof (cases rule: db_step.cases)
  case (clock t)
  then show ?thesis using assms(2) by (force simp: db_inv_def split: db_point.splits)
next
  case start
  then show ?thesis using assms(2) by (auto simp: db_inv_def Debouncer_Start_def)
next
  case (change c)
  have seen: "db_seen (run_change c d) = db_seen d @ [(db_now d, c)]"
    and ival: "db_interval (run_change c d) = db_interval d" by (simp_all add: run_change_def)
  have "quiet (run_change c d) te x" if "(te, x) \<in> set (db_emitted d)" for te x
    using quiet_snoc [OF _ seen ival, of te x] assms(2) that by (auto simp: db_inv_def)
  moreover have "last_pending (run_change c d) c (db_now d)"
    using assms(2) by (auto simp: last_pending_def run_change_def db_inv_def)
  moreover have "subseq (map snd (db_emitted d)) (map snd (db_seen d) @ [c])"
    using assms(2) by (auto simp: db_inv_def intro: subseq_order.order_trans)
  ultimately show ?thesis using assms(2) change by (auto simp: db_inv_def run_change_def)
next
  case source_closed
  then show ?thesis using assms(2)
    by (auto simp: db_inv_def run_source_closed_def split: option.splits)
next
  case (timer t)
  then show ?thesis using assms(2)
    by (auto simp: db_inv_def run_timer_def split: option.splits)
next
  case (send c)
  obtain t xs where xs: "db_seen d = xs @ [(t, c)]" "subseq (map snd (db_emitted d)) (map snd xs)"
    "t + db_interval d \<le> db_now d"
    using assms(2) send(1) by (auto simp: db_inv_def last_pending_def)
  have d': "d' = (emit c d)\<lparr>db_pending := None, db_point := Waiting\<rparr>"
    using send(3) by (simp add: run_send_def split: if_splits)
  have "quiet d (db_now d) c"
    unfolding quiet_def using xs by (intro exI [of _ xs] exI [of _ t] exI [of _ "[]"]) simp
  moreover have "subseq (map snd (db_emitted d) @ [c]) (map snd (db_seen d))"
    using xs by (simp add: list_emb_append_mono)
  ultimately show ?thesis using assms(2) send(2) by (auto simp: db_inv_def d' emit_def)
next
  case stop
  then show ?thesis using assms(2)
    by (auto simp: db_inv_def Debouncer_Stop_def split: if_splits db_point.splits)
qed (use assms(2) in \<open>auto simp: db_inv_def run_exit_def split: if_splits db_point.splits\<close>)


definition burst_change :: "int \<Rightarrow> Change" where
  "burst_change n = \<lparr>ch_type = ChangeModified, ch_source = [], ch_time = n, ch_error = None\<rparr>"

text \<open>Two changes three time units apart with an interval of five: the second is emitted at time eight.\<close>

lemma burst_run:
  "\<exists>d. db_step\<^sup>*\<^sup>* (NewDebouncer 5 0) d \<and> db_emitted d = [(8, burst_change 2)]
     \<and> db_seen d = [(0, burst_change 1), (3, burst_change 2)] \<and> db_interval d = 5"
proof -
  let ?d0 = "NewDebouncer 5 0"
  let ?d1 = "Debouncer_Start ?d0"
  let ?d2 = "run_change (burst_change 1) ?d1"
  let ?d3 = "?d2\<lparr>db_now := 3\<rparr>"
  let ?d4 = "run_change (burst_change 2) ?d3"
  let ?d5 = "?d4\<lparr>db_now := 8\<rparr>"
  let ?d6 = "run_timer ?d5"
  let ?d7 = "the (run_send (burst_change 2) ?d6)"
  note defs = NewDebouncer_def Debouncer_Start_def run_change_def run_timer_def run_send_def emit_def change_capacity_def
  have s1: "db_step ?d0 ?d1" by (rule db_step.start) (simp add: defs)
  have s2: "db_step ?d1 ?d2" by (rule db_step.change) (simp add: defs)
  have s3: "db_step ?d2 ?d3" by (rule db_step.clock) (simp add: defs)
  have s4: "db_step ?d3 ?d4" by (rule db_step.change) (simp add: defs)
  have s5: "db_step ?d4 ?d5" by (rule db_step.clock) (simp add: defs)
  have s6: "db_step ?d5 ?d6" by (rule db_step.timer [where t = 8]) (simp_all add: defs)
  have s7: "db_step ?d6 ?d7" by (rule db_step.send [where c = "burst_change 2"]) (simp_all add: defs)
  note step = converse_rtranclp_into_rtranclp [of db_step]
  have "db_step\<^sup>*\<^sup>* ?d0 ?d7"
    by (rule step [OF s1 step [OF s2 step [OF s3 step [OF s4 step [OF s5 step [OF s6 step [OF s7 rtranclp.rtrancl_refl]]]]]]])
  then show ?thesis by (intro exI [of _ ?d7]) (simp add: defs)
qed


section \<open>The watcher of several files\<close>

text \<open>
  One forwarding goroutine per file: it takes a change from its watcher, holds it until the common
  queue has room, and returns when the context is done or its watcher's channel is closed and empty.
\<close>

datatype forward_point = FwdIdle | FwdHolding Change | FwdDone

record MultiWatcher =
  mw_watchers :: "FileWatcher list"
  mw_changes :: "Change list"
  mw_closed :: bool
  mw_running :: bool
  mw_cancelled :: bool
  mw_forwarders :: "forward_point list"

definition multi_capacity :: nat where "multi_capacity = 20"

definition NewMultiWatcher :: "string list \<Rightarrow> MultiWatcher" where
  "NewMultiWatcher paths =
     \<lparr>mw_watchers = map (\<lambda>path. NewFileWatcher path []) paths, mw_changes = [], mw_closed = False,
      mw_running = False, mw_cancelled = False, mw_forwarders = []\<rparr>"

text \<open>\<open>infos i\<close> is the outcome for watcher \<open>i\<close> of \<open>getFileInfo\<close>; starting a file watcher does not fail.\<close>

definition MultiWatcher_Start :: "(nat \<Rightarrow> goerror + int) \<Rightarrow> MultiWatcher \<Rightarrow> MultiWatcher" where
  "MultiWatcher_Start infos mw =
     (if mw_running mw then mw
      else mw\<lparr>mw_running := True, mw_cancelled := False,
              mw_watchers := map (\<lambda>(i, w). FileWatcher_Start (infos i) w) (List.enumerate 0 (mw_watchers mw)),
              mw_forwarders := map (\<lambda>_. FwdIdle) (mw_watchers mw)\<rparr>)"

definition forward_take :: "nat \<Rightarrow> MultiWatcher \<Rightarrow> MultiWatcher" where
  "forward_take i mw =
     (case fw_changes (mw_watchers mw ! i) of
        c # q \<Rightarrow> mw\<lparr>mw_watchers := (mw_watchers mw)[i := (mw_watchers mw ! i)\<lparr>fw_changes := q\<rparr>],
                   mw_forwarders := (mw_forwarders mw)[i := FwdHolding c]\<rparr>
      | [] \<Rightarrow> if fw_closed (mw_watchers mw ! i) then mw\<lparr>mw_forwarders := (mw_forwarders mw)[i := FwdDone]\<rparr> else mw)"

definition forward_send :: "nat \<Rightarrow> Change \<Rightarrow> MultiWatcher \<Rightarrow> MultiWatcher option" where
  "forward_send i c mw =
     (if mw_closed mw then None
      else if length (mw_changes mw) < multi_capacity
      then Some (mw\<lparr>mw_changes := mw_changes mw @ [c], mw_forwarders := (mw_forwarders mw)[i := FwdIdle]\<rparr>)
      else Some mw)"

definition forward_done :: "nat \<Rightarrow> MultiWatcher \<Rightarrow> MultiWatcher" where
  "forward_done i mw = (if mw_cancelled mw then mw\<lparr>mw_forwarders := (mw_forwarders mw)[i := FwdDone]\<rparr> else mw)"

fun stop_watchers :: "FileWatcher list \<Rightarrow> FileWatcher list option" where
  "stop_watchers [] = Some []"
| "stop_watchers (w # ws) =
     (case FileWatcher_Stop (w\<lparr>fw_gos := map (\<lambda>(p, _). (p, True)) (fw_gos w)\<rparr>) of
        None \<Rightarrow> None
      | Some w' \<Rightarrow> map_option ((#) w') (stop_watchers ws))"

text \<open>\<open>Stop\<close> up to its waits, and its end, when the forwarders are done or five seconds are over.\<close>

definition MultiWatcher_Stop_begin :: "MultiWatcher \<Rightarrow> MultiWatcher option" where
  "MultiWatcher_Stop_begin mw =
     (if \<not> mw_running mw then Some mw
      else map_option (\<lambda>ws. mw\<lparr>mw_running := False, mw_cancelled := True, mw_watchers := ws\<rparr>)
             (stop_watchers (mw_watchers mw)))"

definition MultiWatcher_Stop_end :: "MultiWatcher \<Rightarrow> MultiWatcher option" where
  "MultiWatcher_Stop_end mw = (if mw_closed mw then None else Some (mw\<lparr>mw_closed := True\<rparr>))"

text \<open>Forwarding neither loses nor invents a change.\<close>

definition held_change :: "forward_point \<Rightarrow> Change list" where
  "held_change p = (case p of FwdHolding c \<Rightarrow> [c] | _ \<Rightarrow> [])"

definition in_transit :: "nat \<Rightarrow> MultiWatcher \<Rightarrow> Change list" where
  "in_transit i mw = held_change (mw_forwarders mw ! i) @ fw_changes (mw_watchers mw ! i)"

lemma forward_take_keeps:
  "i < length (mw_watchers mw) \<Longrightarrow> i < length (mw_forwarders mw) \<Longrightarrow> mw_forwarders mw ! i = FwdIdle \<Longrightarrow>
     in_transit i (forward_take i mw) = in_transit i mw \<and> mw_changes (forward_take i mw) = mw_changes mw"
  by (auto simp: in_transit_def held_change_def forward_take_def split: list.splits)

lemma forward_send_keeps:
  "i < length (mw_forwarders mw) \<Longrightarrow> mw_forwarders mw ! i = FwdHolding c \<Longrightarrow> forward_send i c mw = Some mw' \<Longrightarrow>
     mw_changes mw' @ in_transit i mw' = mw_changes mw @ in_transit i mw"
  by (auto simp: in_transit_def held_change_def forward_send_def split: if_splits)

section \<open>The manager\<close>

text \<open>
  A watcher is its two methods on the world.  The error of a callback is dropped and its panic is
  recovered, so all that is left of it is its effect.  \<open>wm_forwarding\<close> lists the forwarding goroutines.
\<close>

record 'w Watcher =
  wt_start :: "'w \<Rightarrow> goerror option \<times> 'w"
  wt_stop :: "'w \<Rightarrow> goerror option \<times> 'w"

record 'w WatchManager =
  wm_watchers :: "(string \<times> 'w Watcher) list"
  wm_callbacks :: "(Change \<Rightarrow> 'w \<Rightarrow> 'w) list"
  wm_running :: bool
  wm_forwarding :: "string list"

definition NewWatchManager :: "'w WatchManager" where
  "NewWatchManager = \<lparr>wm_watchers = [], wm_callbacks = [], wm_running = False, wm_forwarding = []\<rparr>"

definition WatchManager_Register :: "string \<Rightarrow> 'w Watcher \<Rightarrow> 'w WatchManager \<Rightarrow> 'w WatchManager" where
  "WatchManager_Register i x m = m\<lparr>wm_watchers := mput i x (wm_watchers m)\<rparr>"

definition WatchManager_Subscribe :: "(Change \<Rightarrow> 'w \<Rightarrow> 'w) \<Rightarrow> 'w WatchManager \<Rightarrow> 'w WatchManager" where
  "WatchManager_Subscribe cb m = m\<lparr>wm_callbacks := wm_callbacks m @ [cb]\<rparr>"

text \<open>The loop of \<open>Start\<close>; \<open>done\<close> are the forwarders started before.\<close>

fun start_loop :: "(string \<times> 'w Watcher) list \<Rightarrow> string list \<Rightarrow> 'w \<Rightarrow> goerror option \<times> string list \<times> 'w" where
  "start_loop [] started w = (None, started, w)"
| "start_loop ((i, x) # ws) started w =
     (case wt_start x w of
        (Some err, w') \<Rightarrow> (Some (NewError ErrWatchError (''failed to start watcher: '' @ i) [WithCause err]), started, w')
      | (None, w') \<Rightarrow> start_loop ws (started @ [i]) w')"

definition WatchManager_Start :: "'w WatchManager \<Rightarrow> 'w \<Rightarrow> goerror option \<times> 'w WatchManager \<times> 'w" where
  "WatchManager_Start m w =
     (if wm_running m then (None, m, w)
      else case start_loop (wm_watchers m) [] w of
        (err, started, w') \<Rightarrow> (err, m\<lparr>wm_running := True, wm_forwarding := started\<rparr>, w'))"

text \<open>What a forwarder does with one change of the watcher \<open>i\<close>.\<close>

definition forwardChange :: "string \<Rightarrow> Change \<Rightarrow> 'w WatchManager \<Rightarrow> 'w \<Rightarrow> 'w" where
  "forwardChange i change m w = fold (\<lambda>cb. cb (change\<lparr>ch_source := i\<rparr>)) (wm_callbacks m) w"

fun stop_loop :: "(string \<times> 'w Watcher) list \<Rightarrow> goerror option \<Rightarrow> 'w \<Rightarrow> goerror option \<times> 'w" where
  "stop_loop [] lastErr w = (lastErr, w)"
| "stop_loop ((i, x) # ws) lastErr w =
     (case wt_stop x w of (err, w') \<Rightarrow> stop_loop ws (case err of Some e \<Rightarrow> Some e | None \<Rightarrow> lastErr) w')"

text \<open>The forwarders end when the context is cancelled, callbacks permitting.\<close>

definition WatchManager_Stop :: "'w WatchManager \<Rightarrow> 'w \<Rightarrow> goerror option \<times> 'w WatchManager \<times> 'w" where
  "WatchManager_Stop m w =
     (if \<not> wm_running m then (None, m, w)
      else case stop_loop (wm_watchers m) None w of
        (err, w') \<Rightarrow> (err, m\<lparr>wm_running := False, wm_forwarding := []\<rparr>, w'))"

definition WatchManager_Running :: "'w WatchManager \<Rightarrow> bool" where
  "WatchManager_Running m = wm_running m"

text \<open>The watchers whose start succeeds before the first that fails.\<close>

fun started_before :: "(string \<times> 'w Watcher) list \<Rightarrow> 'w \<Rightarrow> string list" where
  "started_before [] w = []"
| "started_before ((i, x) # ws) w =
     (case wt_start x w of (Some _, _) \<Rightarrow> [] | (None, w') \<Rightarrow> i # started_before ws w')"

lemma start_loop_started: "fst (snd (start_loop ws started w)) = started @ started_before ws w"
  by (induction ws started w rule: start_loop.induct) (auto split: prod.splits option.splits)

text \<open>
  A failed start leaves the manager running.  When a watcher does not start, \<open>Start\<close> returns the
  error with the watchers before it forwarded and the others not started, but the manager counts as
  running: calling \<open>Start\<close> again reports success and starts nothing.
\<close>

theorem failed_start_stays_running:
  assumes "\<not> wm_running m" and "WatchManager_Start m w = (Some err, m', w')"
  shows "WatchManager_Running m' \<and> wm_forwarding m' = started_before (wm_watchers m) w
    \<and> (\<forall>w2. WatchManager_Start m' w2 = (None, m', w2))"
  using assms start_loop_started [of "wm_watchers m" "[]" w]
  by (auto simp: WatchManager_Start_def WatchManager_Running_def split: prod.splits)

theorem failed_start_stays_running_witness:
  "\<exists>m' err. WatchManager_Start (WatchManager_Register ''a'' \<lparr>wt_start = \<lambda>w. (Some (PlainError ''no''), w), wt_stop = \<lambda>w. (None, w)\<rparr>
        NewWatchManager) (0 :: nat) = (Some err, m', 0) \<and> WatchManager_Running m' \<and> WatchManager_Start m' 1 = (None, m', 1)"
proof -
  let ?m = "WatchManager_Register ''a'' \<lparr>wt_start = \<lambda>w :: nat. (Some (PlainError ''no''), w), wt_stop = \<lambda>w. (None, w)\<rparr> NewWatchManager"
  have n: "\<not> wm_running ?m" by (simp add: WatchManager_Register_def NewWatchManager_def)
  obtain err m' where s: "WatchManager_Start ?m 0 = (Some err, m', 0)"
    by (simp add: WatchManager_Start_def WatchManager_Register_def NewWatchManager_def)
  from failed_start_stays_running [OF n s] s show ?thesis by blast
qed

end
