(* ===== verification/Merge.thy ===== *)
theory Merge
  imports KeyPath
begin

text \<open>
  Package merge (merge/merge.go): the merge strategies over several configuration maps and
  the conflict resolver.  The same priority rule is repeated in the loops of core/state.go,
  source/source.go and loader/loader.go; the lemmas about it are proved once, in the locale
  \<open>conflict_rule\<close>, for any rule that says when a new value beats an existing one.
\<close>

type_synonym data = "Value gomap"

text \<open>A map variable of the code that may be nil, and what ranging over it visits.\<close>

type_synonym nildata = "data option"

definition entries :: "'v gomap option \<Rightarrow> 'v gomap" where
  "entries m = (case m of None \<Rightarrow> [] | Some d \<Rightarrow> d)"

lemma entries_simps [simp]: "entries None = []" "entries (Some d) = d"
  by (simp_all add: entries_def)

section \<open>The merge loops\<close>

datatype Strategy = StrategyPriority | StrategyFirst | StrategyLast | StrategyDeep
  | StrategyOther int

text \<open>
  The inner loop over one source: a key that is missing is added, a key that is there is
  replaced when the new value beats the existing one.
\<close>

fun merge_loop :: "('v \<Rightarrow> 'v \<Rightarrow> bool) \<Rightarrow> 'v gomap \<Rightarrow> 'v gomap \<Rightarrow> 'v gomap" where
  "merge_loop beats result [] = result"
| "merge_loop beats result ((k, v) # source) =
     merge_loop beats
       (case mget result k of
          None \<Rightarrow> mput k v result
        | Some existing \<Rightarrow> if beats v existing then mput k v result else result)
       source"

definition higher_priority :: "Value \<Rightarrow> Value \<Rightarrow> bool" where
  "higher_priority v existing \<longleftrightarrow> vpriority v > vpriority existing"

definition never_beats :: "Value \<Rightarrow> Value \<Rightarrow> bool" where
  "never_beats v existing = False"

definition merge_all :: "('v \<Rightarrow> 'v \<Rightarrow> bool) \<Rightarrow> 'v gomap list \<Rightarrow> 'v gomap" where
  "merge_all beats sources = foldl (merge_loop beats) [] sources"

definition mergePriority :: "nildata list \<Rightarrow> nildata" where
  "mergePriority sources =
     (case sources of [] \<Rightarrow> None | [s] \<Rightarrow> s
      | _ \<Rightarrow> Some (merge_all higher_priority (map entries sources)))"

definition mergeFirst :: "nildata list \<Rightarrow> nildata" where
  "mergeFirst sources =
     (case sources of [] \<Rightarrow> None | [s] \<Rightarrow> s
      | _ \<Rightarrow> Some (merge_all never_beats (map entries sources)))"

definition mergeLast :: "nildata list \<Rightarrow> nildata" where
  "mergeLast sources =
     (case sources of [] \<Rightarrow> None | [s] \<Rightarrow> s
      | _ \<Rightarrow> Some (foldl mput_all [] (map entries sources)))"

section \<open>Deep merging\<close>

text \<open>
  \<open>mergeDeep\<close> builds one \<open>map[string]any\<close> whose entries are \<open>types.Value\<close> leaves, nested
  maps, or raw values that came out of a raw map.
\<close>

datatype mnode = MVal Value | MMap "(string \<times> mnode) list" | MRaw any

fun mnode_of_any :: "any \<Rightarrow> mnode" and mnodes_of_map :: "(string \<times> any) list \<Rightarrow> (string \<times> mnode) list" where
  "mnode_of_any (AMap m) = MMap (mnodes_of_map m)"
| "mnode_of_any a = MRaw a"
| "mnodes_of_map [] = []"
| "mnodes_of_map ((k, v) # m) = (k, mnode_of_any v) # mnodes_of_map m"

definition msubmap :: "string \<Rightarrow> mnode gomap \<Rightarrow> mnode gomap" where
  "msubmap p cur = (case mget cur p of Some (MMap n) \<Rightarrow> n | _ \<Rightarrow> [])"

fun insertNested_path :: "string list \<Rightarrow> Value \<Rightarrow> mnode gomap \<Rightarrow> mnode gomap" where
  "insertNested_path [] v cur = cur"
| "insertNested_path [p] v cur =
     (case (mget cur p, vraw v) of
        (Some (MMap existing), AMap new) \<Rightarrow> mput p (MMap (mput_all existing (mnodes_of_map new))) cur
      | _ \<Rightarrow> mput p (MVal v) cur)"
| "insertNested_path (p # q # ps) v cur =
     mput p (MMap (insertNested_path (q # ps) v (msubmap p cur))) cur"

definition insertNested :: "mnode gomap \<Rightarrow> string \<Rightarrow> Value \<Rightarrow> mnode gomap" where
  "insertNested m key v = insertNested_path (splitKey key) v m"

fun insertNested_all :: "mnode gomap \<Rightarrow> data \<Rightarrow> mnode gomap" where
  "insertNested_all nested [] = nested"
| "insertNested_all nested ((k, v) # source) = insertNested_all (insertNested nested k v) source"

fun flattenValues :: "mnode gomap \<Rightarrow> string \<Rightarrow> data \<Rightarrow> data" where
  "flattenValues [] pre result = result"
| "flattenValues ((k, v) # m) pre result =
     flattenValues m pre
       (case v of
          MVal val \<Rightarrow> mput (prefixed pre k) val result
        | MMap n \<Rightarrow> mput_all result (flattenValues n (prefixed pre k) [])
        | MRaw a \<Rightarrow> mput (prefixed pre k) (NewValue a TypeUnknown SourceMemory 0) result)"

definition mergeDeep :: "nildata list \<Rightarrow> nildata" where
  "mergeDeep sources =
     (case sources of [] \<Rightarrow> None | [s] \<Rightarrow> s
      | _ \<Rightarrow> Some (flattenValues (foldl insertNested_all [] (map entries sources)) [] []))"

definition Merger_Merge :: "Strategy \<Rightarrow> nildata list \<Rightarrow> nildata" where
  "Merger_Merge strategy sources =
     (case strategy of
        StrategyPriority \<Rightarrow> mergePriority sources
      | StrategyFirst \<Rightarrow> mergeFirst sources
      | StrategyLast \<Rightarrow> mergeLast sources
      | StrategyDeep \<Rightarrow> mergeDeep sources
      | StrategyOther _ \<Rightarrow> mergePriority sources)"

section \<open>Ordering sources\<close>

text \<open>The priority of a source as \<open>Less\<close> computes it: the highest one, at least 0.\<close>

definition source_priority :: "data \<Rightarrow> int" where
  "source_priority s = fold (\<lambda>(k, v) p. if vpriority v > p then vpriority v else p) s 0"

definition SortedSources_Less :: "data list \<Rightarrow> nat \<Rightarrow> nat \<Rightarrow> bool" where
  "SortedSources_Less s i j \<longleftrightarrow> source_priority (s ! i) < source_priority (s ! j)"

definition SortedSources_Swap :: "data list \<Rightarrow> nat \<Rightarrow> nat \<Rightarrow> data list" where
  "SortedSources_Swap s i j = s[i := s ! j, j := s ! i]"

section \<open>Conflict resolution\<close>

record Conflict =
  cf_key :: string
  cf_values :: "Value list"
  cf_resolved :: Value
  cf_strategy :: Strategy

text \<open>The best of a list by a rule, scanning from the front.\<close>

definition best_of :: "('v \<Rightarrow> 'v \<Rightarrow> bool) \<Rightarrow> 'v \<Rightarrow> 'v list \<Rightarrow> 'v" where
  "best_of beats b vs = foldl (\<lambda>best v. if beats v best then v else best) b vs"

definition Resolver_resolve :: "Value list \<Rightarrow> Strategy \<Rightarrow> Value" where
  "Resolver_resolve vs strategy =
     (case vs of
        [] \<Rightarrow> zero_Value
      | [v] \<Rightarrow> v
      | v # rest \<Rightarrow>
          (case strategy of
             StrategyPriority \<Rightarrow> best_of higher_priority v rest
           | StrategyFirst \<Rightarrow> v
           | StrategyLast \<Rightarrow> last vs
           | _ \<Rightarrow> v))"

definition Resolver_Record :: "Conflict list \<Rightarrow> string \<Rightarrow> Value list \<Rightarrow> Strategy \<Rightarrow> Conflict list" where
  "Resolver_Record conflicts key vs strategy =
     conflicts @ [\<lparr>cf_key = key, cf_values = vs, cf_resolved = Resolver_resolve vs strategy,
                   cf_strategy = strategy\<rparr>]"

definition Resolver_HasConflicts :: "Conflict list \<Rightarrow> bool" where
  "Resolver_HasConflicts conflicts \<longleftrightarrow> length conflicts > 0"

definition Resolver_Clear :: "Conflict list \<Rightarrow> Conflict list" where
  "Resolver_Clear conflicts = take 0 conflicts"

section \<open>What a merge stores under a key\<close>

text \<open>The values the sources hold for a key, in source order, and the one a rule picks.\<close>

definition candidates :: "string \<Rightarrow> 'v gomap list \<Rightarrow> 'v list" where
  "candidates k sources = List.map_filter (\<lambda>s. mget s k) sources"

fun pick :: "('v \<Rightarrow> 'v \<Rightarrow> bool) \<Rightarrow> 'v list \<Rightarrow> 'v option" where
  "pick beats [] = None"
| "pick beats (v # vs) = Some (best_of beats v vs)"

lemma candidates_simps [simp]:
  "candidates k [] = []"
  "candidates k (s # ss) = (case mget s k of None \<Rightarrow> candidates k ss | Some v \<Rightarrow> v # candidates k ss)"
  by (simp_all add: candidates_def List.map_filter_def split: option.splits)

lemma merge_loop_wf [simp, wf_intros]: "wf_map result \<Longrightarrow> wf_map (merge_loop beats result source)"
  by (induction beats result source rule: merge_loop.induct) (auto split: option.splits)

lemma merge_all_wf [simp, wf_intros]: "wf_map (merge_all beats sources)"
proof -
  have "wf_map r \<Longrightarrow> wf_map (foldl (merge_loop beats) r sources)" for r
    by (induction sources arbitrary: r) auto
  then show ?thesis by (simp add: merge_all_def)
qed

lemma mget_merge_loop:
  "wf_map source \<Longrightarrow> mget (merge_loop beats result source) k =
     (case mget source k of
        None \<Rightarrow> mget result k
      | Some v \<Rightarrow> (case mget result k of None \<Rightarrow> Some v | Some e \<Rightarrow> if beats v e then Some v else Some e))"
proof (induction beats result source rule: merge_loop.induct)
  case (2 beats result k' v source)
  define r where "r = (case mget result k' of None \<Rightarrow> mput k' v result
      | Some existing \<Rightarrow> if beats v existing then mput k' v result else result)"
  have "mget source k' = None" using 2(2) by (simp add: mget_None_iff)
  moreover have "mget r k = (if k = k' then (case mget result k' of None \<Rightarrow> Some v
      | Some e \<Rightarrow> if beats v e then Some v else Some e) else mget result k)"
    by (simp add: r_def split: option.split)
  moreover have "mget (merge_loop beats r source) k = (case mget source k of None \<Rightarrow> mget r k
      | Some v \<Rightarrow> (case mget r k of None \<Rightarrow> Some v | Some e \<Rightarrow> if beats v e then Some v else Some e))"
    using 2(1) [folded r_def] 2(2) by simp
  moreover have "merge_loop beats result ((k', v) # source) = merge_loop beats r source"
    by (simp add: r_def)
  ultimately show ?case by (auto split: option.split)
qed simp

lemma mget_merge_all:
  assumes "\<forall>s\<in>set sources. wf_map s"
  shows "mget (merge_all beats sources) k = pick beats (candidates k sources)"
proof -
  have "mget (foldl (merge_loop beats) r sources) k =
      (case mget r k of None \<Rightarrow> pick beats (candidates k sources)
       | Some e \<Rightarrow> Some (best_of beats e (candidates k sources)))" for r
    using assms
    by (induction sources arbitrary: r)
       (auto simp: mget_merge_loop best_of_def split: option.splits)
  then show ?thesis by (simp add: merge_all_def)
qed

text \<open>Later values overwrite: the last strategy as a rule by which every new value wins.\<close>

lemma mput_all_merge_loop: "mput_all dst src = merge_loop (\<lambda>_ _. True) dst src"
proof (induction dst src rule: mput_all.induct)
  case (2 dst k v src)
  then show ?case by (cases "mget dst k") simp_all
qed simp

lemma foldl_mput_all: "foldl mput_all [] sources = merge_all (\<lambda>_ _. True) sources"
  by (simp add: merge_all_def mput_all_merge_loop [abs_def])

lemma best_of_True: "best_of (\<lambda>_ _. True) b vs = last (b # vs)"
  by (induction vs arbitrary: b) (simp_all add: best_of_def)

lemma best_of_never: "best_of never_beats b vs = b"
  by (induction vs arbitrary: b) (simp_all add: best_of_def never_beats_def)

section \<open>The contract of a conflict rule\<close>

text \<open>
  A rule is a strict weak order: what beats cannot be beaten back, and a value that beats
  another one also beats, or is beaten to it by, any third.  From this the picked value is
  characterised independently of how the loop finds it.
\<close>

locale conflict_rule =
  fixes beats :: "'v \<Rightarrow> 'v \<Rightarrow> bool"
  assumes asym: "beats a b \<Longrightarrow> \<not> beats b a"
    and neg_trans: "beats a c \<Longrightarrow> beats a b \<or> beats b c"
begin

lemma irrefl: "\<not> beats a a"
  using asym by blast

lemma best_of_member: "best_of beats b vs \<in> set (b # vs)"
proof (induction vs arbitrary: b)
  case (Cons v vs)
  have "best_of beats (if beats v b then v else b) vs \<in> set ((if beats v b then v else b) # vs)"
    by (rule Cons.IH)
  then show ?case by (auto simp: best_of_def split: if_splits)
qed (simp add: best_of_def)

lemma best_of_split:
  "\<exists>xs ys. b # vs = xs @ best_of beats b vs # ys
     \<and> (\<forall>x\<in>set xs. beats (best_of beats b vs) x) \<and> (\<forall>y\<in>set ys. \<not> beats y (best_of beats b vs))"
proof (induction vs rule: rev_induct)
  case Nil
  have "[b] = [] @ best_of beats b [] # []" by (simp add: best_of_def)
  then show ?case by (metis empty_iff list.set(1))
next
  case (snoc v vs)
  let ?w = "best_of beats b vs"
  from snoc obtain xs ys where split: "b # vs = xs @ ?w # ys"
    and xs: "\<forall>x\<in>set xs. beats ?w x" and ys: "\<forall>y\<in>set ys. \<not> beats y ?w" by blast
  have step: "best_of beats b (vs @ [v]) = (if beats v ?w then v else ?w)"
    by (simp add: best_of_def)
  show ?case
  proof (cases "beats v ?w")
    case True
    have "\<not> beats x ?w" if "x \<in> set (xs @ ?w # ys)" for x
      using that xs ys asym irrefl by auto
    then have "beats v x" if "x \<in> set (b # vs)" for x
      using that neg_trans [OF True, of x] by (simp only: split) blast
    then have "\<forall>x\<in>set (b # vs). beats v x" by blast
    then show ?thesis unfolding step
      by (intro exI [of _ "b # vs"] exI [of _ "[]"]) (use True in simp)
  next
    case False
    have "b # vs @ [v] = xs @ ?w # (ys @ [v])" using split by simp
    then show ?thesis unfolding step
      by (intro exI [of _ xs] exI [of _ "ys @ [v]"]) (use False xs ys in simp)
  qed
qed

lemma pick_first_best:
  "pick beats vs = Some w \<longleftrightarrow>
     (\<exists>xs ys. vs = xs @ w # ys \<and> (\<forall>x\<in>set xs. beats w x) \<and> (\<forall>y\<in>set ys. \<not> beats y w))"
proof
  assume "pick beats vs = Some w"
  then show "\<exists>xs ys. vs = xs @ w # ys \<and> (\<forall>x\<in>set xs. beats w x) \<and> (\<forall>y\<in>set ys. \<not> beats y w)"
    using best_of_split by (cases vs) auto
next
  assume "\<exists>xs ys. vs = xs @ w # ys \<and> (\<forall>x\<in>set xs. beats w x) \<and> (\<forall>y\<in>set ys. \<not> beats y w)"
  then obtain xs ys where vs: "vs = xs @ w # ys"
    and w: "\<forall>x\<in>set xs. beats w x" "\<forall>y\<in>set ys. \<not> beats y w" by blast
  have tail: "best_of beats w ys = w"
    using w(2) by (induction ys) (simp_all add: best_of_def)
  have "best_of beats b (xs' @ w # ys) = w" if "\<forall>x\<in>set (b # xs'). beats w x" for b xs'
  proof -
    have "best_of beats b xs' \<in> set (b # xs')" by (rule best_of_member)
    then have "beats w (best_of beats b xs')" using that by blast
    then show ?thesis using tail by (simp add: best_of_def)
  qed
  then show "pick beats vs = Some w" using vs w tail by (cases xs) auto
qed

text \<open>Without ties the pick does not depend on the order of the candidates.\<close>

lemma pick_permute:
  assumes perm: "mset us = mset vs"
    and no_tie: "\<And>a b. a \<in> set vs \<Longrightarrow> b \<in> set vs \<Longrightarrow> a \<noteq> b \<Longrightarrow> beats a b \<or> beats b a"
  shows "pick beats us = pick beats vs"
proof (cases vs)
  case Nil
  with perm show ?thesis by simp
next
  case (Cons v rest)
  have same: "set us = set vs" using perm by (rule mset_eq_setD)
  then obtain w where w: "pick beats us = Some w"
    using Cons by (cases us) auto
  obtain w' where w': "pick beats vs = Some w'" using Cons by auto
  have w_in: "w \<in> set us" and w_max: "\<forall>y\<in>set us. \<not> beats y w"
    using w [unfolded pick_first_best] asym irrefl by auto
  have w'_in: "w' \<in> set vs" and w'_max: "\<forall>y\<in>set vs. \<not> beats y w'"
    using w' [unfolded pick_first_best] asym irrefl by auto
  have "w = w'" using no_tie [of w w'] w_in w'_in w_max w'_max same by auto
  with w w' show ?thesis by simp
qed

end

interpretation priority_rule: conflict_rule higher_priority
  by unfold_locales (auto simp: higher_priority_def)

interpretation first_rule: conflict_rule never_beats
  by unfold_locales (auto simp: never_beats_def)

section \<open>Results\<close>

text \<open>
  The shortcuts for no source and one source give what the general loop would give.
\<close>

lemma mget_strategy:
  assumes wf: "\<forall>s\<in>set sources. wf_map (entries s)"
  shows "mget (entries (mergePriority sources)) k = pick higher_priority (candidates k (map entries sources))"
    and "mget (entries (mergeFirst sources)) k = pick never_beats (candidates k (map entries sources))"
    and "mget (entries (mergeLast sources)) k = pick (\<lambda>_ _. True) (candidates k (map entries sources))"
proof -
  have all: "mget (merge_all b (map entries sources)) k = pick b (candidates k (map entries sources))" for b
    using wf by (intro mget_merge_all) auto
  have "sources = [] \<or> (\<exists>s. sources = [s]) \<or> (\<exists>s t ss. sources = s # t # ss)"
    by (metis list.exhaust)
  then consider "sources = []" | s where "sources = [s]" | s t ss where "sources = s # t # ss"
    by blast
  note cases = this
  show "mget (entries (mergePriority sources)) k = pick higher_priority (candidates k (map entries sources))"
    using all by (cases rule: cases)
      (auto simp: mergePriority_def best_of_def split: option.splits)
  show "mget (entries (mergeFirst sources)) k = pick never_beats (candidates k (map entries sources))"
    using all by (cases rule: cases)
      (auto simp: mergeFirst_def best_of_def split: option.splits)
  show "mget (entries (mergeLast sources)) k = pick (\<lambda>_ _. True) (candidates k (map entries sources))"
    using all by (cases rule: cases)
      (auto simp: mergeLast_def best_of_def foldl_mput_all [of "_ # _ # _", simplified] split: option.splits)
qed

text \<open>
  Merging by priority stores under a key the first of the sources' values that no other
  one exceeds in priority: every earlier value has a lower priority, every later one at most
  the same.  So the highest priority wins and ties go to the earliest source; a key is absent
  exactly when no source has it.
\<close>

theorem mergePriority_first_highest:
  assumes "\<forall>s\<in>set sources. wf_map (entries s)"
  shows "mget (entries (mergePriority sources)) k = Some w \<longleftrightarrow>
    (\<exists>xs ys. candidates k (map entries sources) = xs @ w # ys
       \<and> (\<forall>x\<in>set xs. vpriority x < vpriority w) \<and> (\<forall>y\<in>set ys. vpriority y \<le> vpriority w))"
  unfolding mget_strategy(1) [OF assms] priority_rule.pick_first_best
  by (simp add: higher_priority_def not_less)

definition low_host :: Value where "low_host = NewValue (AString ''a'') TypeString SourceFile 10"
definition high_host :: Value where "high_host = NewValue (AString ''b'') TypeString SourceEnv 20"

theorem mergePriority_first_highest_witness:
  "mget (entries (mergePriority [Some [(''host'', low_host)], Some [(''host'', high_host)]])) ''host''
     = Some high_host"
proof -
  let ?sources = "[Some [(''host'', low_host)], Some [(''host'', high_host)]]"
  have "\<exists>xs ys. candidates ''host'' (map entries ?sources) = xs @ high_host # ys
       \<and> (\<forall>x\<in>set xs. vpriority x < vpriority high_host) \<and> (\<forall>y\<in>set ys. vpriority y \<le> vpriority high_host)"
    by (rule exI [of _ "[low_host]"], rule exI [of _ "[]"]) (simp add: low_host_def high_host_def)
  then show ?thesis using mergePriority_first_highest [of ?sources "''host''" high_host] by simp
qed

text \<open>
  The merger and the conflict resolver agree.  For the strategies priority, first and
  last, what \<open>Merge\<close> stores under a key is what \<open>resolve\<close> returns for the list of the
  sources' values of that key, and the key is absent when that list is empty.
\<close>

theorem merge_agrees_with_resolver:
  assumes "\<forall>s\<in>set sources. wf_map (entries s)"
    and "strategy \<in> {StrategyPriority, StrategyFirst, StrategyLast}"
  shows "mget (entries (Merger_Merge strategy sources)) k =
    (if candidates k (map entries sources) = [] then None
     else Some (Resolver_resolve (candidates k (map entries sources)) strategy))"
proof -
  have "mget (entries (Merger_Merge strategy sources)) k =
      pick (case strategy of StrategyPriority \<Rightarrow> higher_priority | StrategyFirst \<Rightarrow> never_beats
            | _ \<Rightarrow> (\<lambda>_ _. True)) (candidates k (map entries sources))"
    using assms(2) mget_strategy [OF assms(1)] by (auto simp: Merger_Merge_def)
  also have "\<dots> = (if candidates k (map entries sources) = [] then None
     else Some (Resolver_resolve (candidates k (map entries sources)) strategy))"
    using assms(2)
    by (auto simp: Resolver_resolve_def best_of_never best_of_True best_of_def [of _ _ "[]"] split: list.split)
  finally show ?thesis .
qed

theorem merge_agrees_with_resolver_witness:
  "mget (entries (Merger_Merge StrategyLast
     [Some [(''host'', high_host)], None, Some [(''host'', low_host)]])) ''host'' = Some low_host"
  by (subst merge_agrees_with_resolver) (auto simp: Resolver_resolve_def)

text \<open>Permuting the sources does not matter when no two different values of a key tie.\<close>

lemma merge_all_permute:
  assumes perm: "mset sources = mset sources'"
    and wf: "\<forall>s\<in>set sources. wf_map s"
    and no_tie: "\<And>s t k v w. s \<in> set sources \<Longrightarrow> t \<in> set sources \<Longrightarrow> mget s k = Some v \<Longrightarrow>
      mget t k = Some w \<Longrightarrow> v \<noteq> w \<Longrightarrow> vpriority v \<noteq> vpriority w"
  shows "map_of (merge_all higher_priority sources) = map_of (merge_all higher_priority sources')"
proof
  fix k
  have same: "set sources = set sources'" using perm by (rule mset_eq_setD)
  have cand: "candidates k ss = map the (filter (\<lambda>x. x \<noteq> None) (map (\<lambda>s. mget s k) ss))" for ss :: "data list"
    by (induction ss) (auto split: option.splits)
  have "mset (candidates k sources) = mset (candidates k sources')"
    using perm by (simp only: cand mset_map mset_filter)
  moreover have "higher_priority a b \<or> higher_priority b a"
    if "a \<in> set (candidates k sources')" "b \<in> set (candidates k sources')" "a \<noteq> b" for a b
    using that same no_tie by (fastforce simp: cand higher_priority_def)
  ultimately have "pick higher_priority (candidates k sources) = pick higher_priority (candidates k sources')"
    by (rule priority_rule.pick_permute)
  then show "mget (merge_all higher_priority sources) k = mget (merge_all higher_priority sources') k"
    using wf same by (simp add: mget_merge_all)
qed

end
