(* ===== verification/Observers.thy ===== *)
theory Observers
  imports Types
begin

text \<open>
  core/observer.go: the observer manager, a fan-out of events into one bounded queue per
  subscription, each drained by a goroutine of its own.

  A subscription stays in \<open>om_subs\<close> for its whole life; \<open>sub_registered\<close> says whether it is
  still in the manager's \<open>sync.Map\<close>.  \<open>sub_cancelled\<close> is the state of its context (cancelled
  by \<open>unsubscribe\<close>, by \<open>Close\<close> or by the context given to \<open>Subscribe\<close>), \<open>sub_closed\<close> says that
  \<open>processEvents\<close> has returned and closed the queue.  \<open>sub_delivered\<close> records the events
  handed to the observer; the observer's own error or panic is discarded by the code.
  A send on a closed channel is a panic, the value \<open>None\<close>.
\<close>

section \<open>State and operations\<close>

record subscription =
  sub_id :: i64
  sub_queue :: "Event list"
  sub_active :: bool
  sub_registered :: bool
  sub_cancelled :: bool
  sub_closed :: bool
  sub_delivered :: "Event list"

record ObserverManager =
  om_subs :: "subscription list"
  om_nextID :: i64
  om_queueSize :: nat
  om_closed :: bool

definition NewObserverManager :: "nat \<Rightarrow> ObserverManager" where
  "NewObserverManager qsize = \<lparr>om_subs = [], om_nextID = 0, om_queueSize = qsize, om_closed = False\<rparr>"

definition upd_sub :: "i64 \<Rightarrow> (subscription \<Rightarrow> subscription) \<Rightarrow> ObserverManager \<Rightarrow> ObserverManager" where
  "upd_sub i f m = m\<lparr>om_subs := map (\<lambda>s. if sub_id s = i then f s else s) (om_subs m)\<rparr>"

text \<open>
  \<open>Subscribe\<close>; \<open>done\<close> says whether the caller's context is done already.  The result is the
  subscription's id, which the returned cancel function passes to \<open>unsubscribe\<close>.
\<close>

definition Subscribe :: "bool \<Rightarrow> ObserverManager \<Rightarrow> (goerror + i64) \<times> ObserverManager" where
  "Subscribe ctx_done m =
     (if om_closed m then (Inl (NewError ErrContextCanceled ''observer manager is closed'' []), m)
      else let i = om_nextID m + 1;
               sub = \<lparr>sub_id = i, sub_queue = [], sub_active = True, sub_registered = True,
                      sub_cancelled = ctx_done, sub_closed = False, sub_delivered = []\<rparr>
           in (Inr i, m\<lparr>om_nextID := i, om_subs := om_subs m @ [sub]\<rparr>))"

definition unsubscribe :: "i64 \<Rightarrow> ObserverManager \<Rightarrow> ObserverManager" where
  "unsubscribe i m = upd_sub i (\<lambda>s. if sub_registered s
      then s\<lparr>sub_registered := False, sub_active := False, sub_cancelled := True\<rparr> else s) m"

text \<open>The non-blocking send of \<open>Notify\<close> to one subscription: queue it, drop it, or panic.\<close>

definition notify_sub :: "nat \<Rightarrow> Event \<Rightarrow> subscription \<Rightarrow> subscription option" where
  "notify_sub qsize e s =
     (if \<not> sub_registered s \<or> \<not> sub_active s then Some s
      else if sub_closed s then None
      else if length (sub_queue s) < qsize then Some (s\<lparr>sub_queue := sub_queue s @ [e]\<rparr>)
      else Some s)"

fun notify_all :: "nat \<Rightarrow> Event \<Rightarrow> subscription list \<Rightarrow> subscription list option" where
  "notify_all qsize e [] = Some []"
| "notify_all qsize e (s # ss) =
     (case notify_sub qsize e s of
        None \<Rightarrow> None
      | Some s' \<Rightarrow> (case notify_all qsize e ss of None \<Rightarrow> None | Some ss' \<Rightarrow> Some (s' # ss')))"

definition Notify :: "Event \<Rightarrow> ObserverManager \<Rightarrow> ObserverManager option" where
  "Notify e m =
     (if om_closed m then Some m
      else case notify_all (om_queueSize m) e (om_subs m) of
        None \<Rightarrow> None
      | Some ss \<Rightarrow> Some (m\<lparr>om_subs := ss\<rparr>))"

text \<open>
  The two branches of the \<open>select\<close> in \<open>processEvents\<close>: hand the next event to the observer, or
  return when the context is done, closing the queue.
\<close>

definition process_receive :: "subscription \<Rightarrow> subscription option" where
  "process_receive s =
     (if sub_closed s then None
      else case sub_queue s of
        [] \<Rightarrow> None
      | e # q \<Rightarrow> Some (s\<lparr>sub_queue := q, sub_delivered := sub_delivered s @ [e]\<rparr>))"

definition process_exit :: "subscription \<Rightarrow> subscription option" where
  "process_exit s = (if sub_cancelled s \<and> \<not> sub_closed s then Some (s\<lparr>sub_closed := True\<rparr>) else None)"

text \<open>\<open>Close\<close> up to the wait for the goroutines; the wait is over when \<open>all_exited\<close>.\<close>

definition Close_begin :: "ObserverManager \<Rightarrow> ObserverManager" where
  "Close_begin m =
     (if om_closed m then m
      else m\<lparr>om_closed := True,
             om_subs := map (\<lambda>s. if sub_registered s then s\<lparr>sub_active := False, sub_cancelled := True\<rparr> else s)
               (om_subs m)\<rparr>)"

definition all_exited :: "ObserverManager \<Rightarrow> bool" where
  "all_exited m \<longleftrightarrow> (\<forall>s\<in>set (om_subs m). sub_closed s)"

record ObserverStats =
  ActiveSubscribers :: nat
  TotalQueueSize :: nat

definition Stats :: "ObserverManager \<Rightarrow> ObserverStats" where
  "Stats m =
     (let regs = filter sub_registered (om_subs m)
      in \<lparr>ActiveSubscribers = length regs, TotalQueueSize = sum_list (map (length \<circ> sub_queue) regs)\<rparr>)"

section \<open>Steps\<close>

datatype om_label =
    LSubscribe bool
  | LUnsubscribe i64
  | LNotify Event
  | LReceive i64
  | LExit i64
  | LContextDone i64
  | LClose

inductive om_step :: "ObserverManager \<Rightarrow> om_label \<Rightarrow> ObserverManager \<Rightarrow> bool" where
  subscribe: "Subscribe d m = (r, m') \<Longrightarrow> om_step m (LSubscribe d) m'"
| unsubscribe: "om_step m (LUnsubscribe i) (unsubscribe i m)"
| notify: "Notify e m = Some m' \<Longrightarrow> om_step m (LNotify e) m'"
| receive: "om_subs m = xs @ s # ys \<Longrightarrow> process_receive s = Some s' \<Longrightarrow>
     om_step m (LReceive (sub_id s)) (m\<lparr>om_subs := xs @ s' # ys\<rparr>)"
| exit: "om_subs m = xs @ s # ys \<Longrightarrow> process_exit s = Some s' \<Longrightarrow>
     om_step m (LExit (sub_id s)) (m\<lparr>om_subs := xs @ s' # ys\<rparr>)"
| context_done: "om_step m (LContextDone i) (upd_sub i (\<lambda>s. s\<lparr>sub_cancelled := True\<rparr>) m)"
| close: "om_step m LClose (Close_begin m)"

inductive om_run :: "ObserverManager \<Rightarrow> om_label list \<Rightarrow> ObserverManager \<Rightarrow> bool" where
  start: "om_run m [] m"
| snoc: "om_run m ls m' \<Longrightarrow> om_step m' l m'' \<Longrightarrow> om_run m (ls @ [l]) m''"

fun notified :: "om_label list \<Rightarrow> Event list" where
  "notified [] = []"
| "notified (LNotify e # ls) = e # notified ls"
| "notified (_ # ls) = notified ls"

inductive_cases om_stepE: "om_step m l m'"

lemmas om_defs [step_defs] = Subscribe_def unsubscribe_def upd_sub_def Notify_def process_receive_def
  process_exit_def Close_begin_def NewObserverManager_def

lemma notified_append [simp]: "notified (xs @ ys) = notified xs @ notified ys"
  by (induction xs rule: notified.induct) auto

lemma notify_all_origin:
  "notify_all qsize e ss = Some ss' \<Longrightarrow> s' \<in> set ss' \<Longrightarrow> \<exists>s\<in>set ss. notify_sub qsize e s = Some s'"
  by (induction ss arbitrary: ss') (auto split: option.splits)

lemma notify_all_None: "notify_all qsize e ss = None \<longleftrightarrow> (\<exists>s\<in>set ss. notify_sub qsize e s = None)"
  by (induction qsize e ss rule: notify_all.induct) (auto split: option.splits)

section \<open>The invariant of a subscription\<close>

text \<open>
  With respect to the events notified so far: the queue is bounded, what was delivered
  followed by what is queued is a subsequence of them, an unregistered subscription is
  inactive and cancelled, and only a cancelled one has exited.
\<close>

definition sub_ok :: "nat \<Rightarrow> Event list \<Rightarrow> subscription \<Rightarrow> bool" where
  "sub_ok q log s \<longleftrightarrow>
     length (sub_queue s) \<le> q
     \<and> subseq (sub_delivered s @ sub_queue s) log
     \<and> (\<not> sub_registered s \<longrightarrow> \<not> sub_active s \<and> sub_cancelled s)
     \<and> (sub_closed s \<longrightarrow> sub_cancelled s)"

definition om_inv :: "Event list \<Rightarrow> ObserverManager \<Rightarrow> bool" where
  "om_inv log m \<longleftrightarrow>
     (\<forall>s\<in>set (om_subs m). sub_ok (om_queueSize m) log s \<and> (om_closed m \<longrightarrow> sub_cancelled s))"

lemma sub_ok_mono: "sub_ok q log s \<Longrightarrow> sub_ok q (log @ es) s"
  by (auto simp: sub_ok_def intro: list_emb_prefix)

lemma subseq_snoc_both: "subseq xs ys \<Longrightarrow> subseq (xs @ [e]) (ys @ [e])"
  by (rule list_emb_append_mono) auto

lemma sub_ok_notify:
  "sub_ok q log s \<Longrightarrow> notify_sub q e s = Some s' \<Longrightarrow> sub_ok q (log @ [e]) s'"
  using sub_ok_mono [of q log s "[e]"]
  by (auto simp: notify_sub_def sub_ok_def split: if_splits)
     (metis append_assoc subseq_snoc_both)

lemma notify_sub_flags:
  "notify_sub q e s = Some s' \<Longrightarrow>
     sub_id s' = sub_id s \<and> sub_cancelled s' = sub_cancelled s \<and> sub_closed s' = sub_closed s
     \<and> sub_active s' = sub_active s \<and> sub_registered s' = sub_registered s"
  by (auto simp: notify_sub_def split: if_splits)

lemma sub_ok_receive: "sub_ok q log s \<Longrightarrow> process_receive s = Some s' \<Longrightarrow> sub_ok q log s'"
  by (auto simp: process_receive_def sub_ok_def split: if_splits list.splits)

lemma process_receive_flags:
  "process_receive s = Some s' \<Longrightarrow>
     sub_id s' = sub_id s \<and> sub_cancelled s' = sub_cancelled s \<and> sub_closed s' = sub_closed s
     \<and> sub_active s' = sub_active s"
  by (auto simp: process_receive_def split: if_splits list.splits)

lemma sub_ok_exit: "sub_ok q log s \<Longrightarrow> process_exit s = Some s' \<Longrightarrow> sub_ok q log s'"
  by (auto simp: process_exit_def sub_ok_def split: if_splits)

lemma process_exit_flags:
  "process_exit s = Some s' \<Longrightarrow>
     sub_id s' = sub_id s \<and> sub_cancelled s' \<and> sub_active s' = sub_active s \<and> sub_cancelled s"
  by (auto simp: process_exit_def split: if_splits)

lemma om_inv_Notify: "om_inv log m \<Longrightarrow> Notify e m = Some m' \<Longrightarrow> om_inv (log @ [e]) m'"
proof -
  assume inv: "om_inv log m" and n: "Notify e m = Some m'"
  show ?thesis
  proof (cases "om_closed m")
    case True
    with inv n show ?thesis by (auto simp: Notify_def om_inv_def sub_ok_mono)
  next
    case False
    with n obtain ss where ss: "notify_all (om_queueSize m) e (om_subs m) = Some ss"
      and m': "m' = m\<lparr>om_subs := ss\<rparr>" by (auto simp: Notify_def split: option.splits)
    have "\<forall>s'\<in>set ss. sub_ok (om_queueSize m) (log @ [e]) s'"
      using notify_all_origin [OF ss] inv by (fastforce simp: om_inv_def intro: sub_ok_notify)
    with False m' show ?thesis by (simp add: om_inv_def)
  qed
qed

lemma om_inv_step: "om_step m l m' \<Longrightarrow> om_inv log m \<Longrightarrow> om_inv (log @ notified [l]) m'"
proof (induction rule: om_step.induct)
  case (subscribe d m r m')
  then show ?case by (auto simp: Subscribe_def om_inv_def sub_ok_def Let_def split: if_splits)
next
  case (unsubscribe m i)
  then show ?case by (auto simp: unsubscribe_def upd_sub_def om_inv_def sub_ok_def)
next
  case (notify e m m')
  then show ?case by (simp add: om_inv_Notify)
next
  case (receive m xs s ys s')
  then show ?case
    using sub_ok_receive [of _ log s s'] process_receive_flags [of s s'] by (auto simp: om_inv_def)
next
  case (exit m xs s ys s')
  then show ?case
    using sub_ok_exit [of _ log s s'] process_exit_flags [of s s'] by (auto simp: om_inv_def)
next
  case (context_done m i)
  then show ?case by (auto simp: upd_sub_def om_inv_def sub_ok_def)
next
  case (close m)
  then show ?case by (auto simp: Close_begin_def om_inv_def sub_ok_def)
qed

lemma om_run_inv: "om_run m ls m' \<Longrightarrow> om_inv log m \<Longrightarrow> om_inv (log @ notified ls) m'"
proof (induction rule: om_run.induct)
  case (snoc m ls m' l m'')
  then show ?case using om_inv_step [of m' l m'' "log @ notified ls"] by simp
qed simp

lemma om_inv_New: "om_inv [] (NewObserverManager q)"
  by (simp add: om_inv_def NewObserverManager_def)

lemma queueSize_step: "om_step m l m' \<Longrightarrow> om_queueSize m' = om_queueSize m"
  by (induction rule: om_step.induct)
     (auto simp: om_defs Let_def split: if_splits option.splits)

lemma queueSize_run: "om_run m ls m' \<Longrightarrow> om_queueSize m' = om_queueSize m"
  by (induction rule: om_run.induct) (auto dest: queueSize_step)

section \<open>When a notification cannot panic\<close>

text \<open>The manager is ready when no active subscription's queue has been closed.\<close>

definition om_ready :: "ObserverManager \<Rightarrow> bool" where
  "om_ready m \<longleftrightarrow> (\<forall>s\<in>set (om_subs m). sub_registered s \<and> sub_active s \<longrightarrow> \<not> sub_closed s)"

text \<open>Notifying a list of events in order, stopping at a panic.\<close>

fun notify_list :: "('e \<Rightarrow> 'm \<Rightarrow> 'm option) \<Rightarrow> 'e list \<Rightarrow> 'm \<Rightarrow> 'm option" where
  "notify_list notify [] m = Some m"
| "notify_list notify (e # es) m =
     (case notify e m of None \<Rightarrow> None | Some m' \<Rightarrow> notify_list notify es m')"

text \<open>
  What the engine needs of its observers: in a ready state a notification returns, and
  leaves the state ready.
\<close>

locale event_sink =
  fixes notify :: "'e \<Rightarrow> 'm \<Rightarrow> 'm option" and ready :: "'m \<Rightarrow> bool"
  assumes notify_returns: "ready m \<Longrightarrow> \<exists>m'. notify e m = Some m' \<and> ready m'"
begin

lemma notify_list_returns: "ready m \<Longrightarrow> \<exists>m'. notify_list notify es m = Some m' \<and> ready m'"
proof (induction es arbitrary: m)
  case (Cons e es)
  then obtain m1 where "notify e m = Some m1" "ready m1" using notify_returns by blast
  then show ?case using Cons.IH by simp
qed simp

end

lemma Notify_returns:
  assumes "om_ready m"
  shows "\<exists>m'. Notify e m = Some m' \<and> om_ready m'"
proof (cases "om_closed m")
  case True
  with assms show ?thesis by (simp add: Notify_def)
next
  case False
  have "notify_sub (om_queueSize m) e s \<noteq> None" if "s \<in> set (om_subs m)" for s
    using that assms by (auto simp: om_ready_def notify_sub_def)
  then obtain ss where ss: "notify_all (om_queueSize m) e (om_subs m) = Some ss"
    using notify_all_None by (metis not_None_eq)
  have "\<not> sub_closed s'" if "s' \<in> set ss" "sub_registered s'" "sub_active s'" for s'
    using notify_all_origin [OF ss that(1)] that(2,3) assms notify_sub_flags
    by (fastforce simp: om_ready_def)
  then show ?thesis using False ss by (simp add: Notify_def om_ready_def)
qed

interpretation observers: event_sink Notify om_ready
  by unfold_locales (rule Notify_returns)

text \<open>A run in which no subscriber's own context is ever done, as in \<open>Config.Observe\<close>.\<close>

fun own_context_alive :: "om_label \<Rightarrow> bool" where
  "own_context_alive (LSubscribe d) = (\<not> d)"
| "own_context_alive (LContextDone _) = False"
| "own_context_alive _ = True"

definition active_alive :: "ObserverManager \<Rightarrow> bool" where
  "active_alive m \<longleftrightarrow> (\<forall>s\<in>set (om_subs m). sub_active s \<longrightarrow> \<not> sub_cancelled s)"

lemma active_alive_step:
  "om_step m l m' \<Longrightarrow> own_context_alive l \<Longrightarrow> om_inv log m \<Longrightarrow> active_alive m \<Longrightarrow> active_alive m'"
proof (induction rule: om_step.induct)
  case (notify e m m')
  show ?case
  proof (cases "om_closed m")
    case True
    with notify show ?thesis by (simp add: Notify_def)
  next
    case False
    with notify obtain ss where ss: "notify_all (om_queueSize m) e (om_subs m) = Some ss"
      and m': "m' = m\<lparr>om_subs := ss\<rparr>" by (auto simp: Notify_def split: option.splits)
    have "\<not> sub_cancelled s'" if s': "s' \<in> set ss" "sub_active s'" for s'
    proof -
      obtain s where s: "s \<in> set (om_subs m)" "notify_sub (om_queueSize m) e s = Some s'"
        using notify_all_origin [OF ss s'(1)] by blast
      then show ?thesis using notify_sub_flags [OF s(2)] s'(2) notify(4) by (auto simp: active_alive_def)
    qed
    with m' show ?thesis by (simp add: active_alive_def)
  qed
next
  case (receive m xs s ys s')
  then show ?case using process_receive_flags [of s s'] by (auto simp: active_alive_def)
next
  case (exit m xs s ys s')
  then show ?case using process_exit_flags [of s s'] by (auto simp: active_alive_def)
qed (auto simp: om_defs active_alive_def om_inv_def sub_ok_def Let_def split: if_splits)

lemma active_alive_run:
  "om_run m ls m' \<Longrightarrow> list_all own_context_alive ls \<Longrightarrow> om_inv log m \<Longrightarrow> active_alive m \<Longrightarrow> active_alive m'"
proof (induction rule: om_run.induct)
  case (snoc m ls m' l m'')
  from snoc.hyps(1) snoc.prems(2) have "om_inv (log @ notified ls) m'" by (rule om_run_inv)
  with snoc show ?case by (auto intro: active_alive_step)
qed simp

lemma active_alive_ready: "om_inv log m \<Longrightarrow> active_alive m \<Longrightarrow> om_ready m"
  by (auto simp: om_inv_def sub_ok_def active_alive_def om_ready_def)

section \<open>Work left for the goroutines\<close>

definition goroutine_step :: "om_label \<Rightarrow> bool" where
  "goroutine_step l = (case l of LReceive _ \<Rightarrow> True | LExit _ \<Rightarrow> True | _ \<Rightarrow> False)"

definition sub_work :: "subscription \<Rightarrow> nat" where
  "sub_work s = (if sub_closed s then 0 else Suc (length (sub_queue s)))"

definition om_work :: "ObserverManager \<Rightarrow> nat" where
  "om_work m = sum_list (map sub_work (om_subs m))"

lemma om_work_step:
  "om_step m l m' \<Longrightarrow> om_closed m \<Longrightarrow>
     om_closed m' \<and> om_work m' + (if goroutine_step l then 1 else 0) \<le> om_work m"
proof (induction rule: om_step.induct)
  case (receive m xs s ys s')
  then show ?case
    by (auto simp: process_receive_def om_work_def sub_work_def goroutine_step_def
        split: if_splits list.splits)
next
  case (exit m xs s ys s')
  then show ?case
    by (auto simp: process_exit_def om_work_def sub_work_def goroutine_step_def split: if_splits)
next
  case (unsubscribe m i)
  have "map sub_work (om_subs (unsubscribe i m)) = map sub_work (om_subs m)"
    by (simp add: unsubscribe_def upd_sub_def sub_work_def)
  then show ?case using unsubscribe
    by (simp add: om_work_def goroutine_step_def) (simp add: unsubscribe_def upd_sub_def)
next
  case (context_done m i)
  then show ?case
    by (simp add: om_work_def goroutine_step_def upd_sub_def sub_work_def o_def if_distrib cong: if_cong map_cong)
qed (auto simp: Subscribe_def Notify_def Close_begin_def goroutine_step_def)

lemma om_work_run:
  "om_run m ls m' \<Longrightarrow> om_closed m \<Longrightarrow>
     om_closed m' \<and> om_work m' + length (filter goroutine_step ls) \<le> om_work m"
proof (induction rule: om_run.induct)
  case (snoc m ls m' l m'')
  then show ?case using om_work_step [of m' l m''] by (auto split: if_splits)
qed simp

lemma all_exited_or_exit:
  assumes "om_inv log m" and "om_closed m"
  shows "all_exited m \<or> (\<exists>i m'. om_step m (LExit i) m')"
proof (cases "all_exited m")
  case False
  then obtain s where s: "s \<in> set (om_subs m)" "\<not> sub_closed s" by (auto simp: all_exited_def)
  then have "process_exit s = Some (s\<lparr>sub_closed := True\<rparr>)"
    using assms by (auto simp: om_inv_def process_exit_def)
  moreover obtain xs ys where "om_subs m = xs @ s # ys" using s(1) split_list by metis
  ultimately show ?thesis using om_step.exit by blast
qed simp

section \<open>Results\<close>


definition sample_event :: "string \<Rightarrow> Event" where
  "sample_event k = \<lparr>ev_type = EventCreate, ev_key = k, ev_old = zero_Value, ev_new = zero_Value,
     ev_time = 0, ev_source = SourceNone\<rparr>"

definition sample_sub :: "Event list \<Rightarrow> Event list \<Rightarrow> subscription" where
  "sample_sub q d = \<lparr>sub_id = 1, sub_queue = q, sub_active = True, sub_registered = True,
     sub_cancelled = False, sub_closed = False, sub_delivered = d\<rparr>"

lemma sample_run:
  "om_run (NewObserverManager 1)
     [LSubscribe False, LNotify (sample_event ''a''), LReceive 1]
     \<lparr>om_subs = [sample_sub [] [sample_event ''a'']], om_nextID = 1, om_queueSize = 1, om_closed = False\<rparr>"
proof -
  let ?m = "\<lambda>q d. \<lparr>om_subs = [sample_sub q d], om_nextID = 1, om_queueSize = 1, om_closed = False\<rparr>"
  have 1: "om_step (NewObserverManager 1) (LSubscribe False) (?m [] [])"
    by (rule om_step.subscribe) (simp add: Subscribe_def NewObserverManager_def sample_sub_def)
  have 2: "om_step (?m [] []) (LNotify (sample_event ''a'')) (?m [sample_event ''a''] [])"
    by (rule om_step.notify) (simp add: Notify_def notify_sub_def sample_sub_def)
  have "om_step (?m [sample_event ''a''] []) (LReceive (sub_id (sample_sub [sample_event ''a''] [])))
      (?m [sample_event ''a''] []\<lparr>om_subs := [] @ sample_sub [] [sample_event ''a''] # []\<rparr>)"
    by (rule om_step.receive) (simp_all add: process_receive_def sample_sub_def)
  then have 3: "om_step (?m [sample_event ''a''] []) (LReceive 1) (?m [] [sample_event ''a''])"
    by (simp add: sample_sub_def)
  show ?thesis
    using om_run.snoc [OF om_run.snoc [OF om_run.snoc [OF om_run.start 1] 2] 3] by simp
qed




text \<open>
  The manager can panic otherwise.  When the context given to \<open>Subscribe\<close> is done and the
  processing goroutine has returned, the subscription is still registered and active while its
  queue is closed, and the next \<open>Notify\<close>, of any event, sends on the closed channel.
\<close>

theorem notify_panics_after_context_done:
  "\<exists>m. om_run (NewObserverManager q) [LSubscribe False, LContextDone 1, LExit 1] m
     \<and> (\<forall>e. Notify e m = None)"
proof -
  let ?s = "\<lambda>c x. sample_sub [] []\<lparr>sub_cancelled := c, sub_closed := x\<rparr>"
  let ?m = "\<lambda>c x. \<lparr>om_subs = [?s c x], om_nextID = 1, om_queueSize = q, om_closed = False\<rparr>"
  have 1: "om_step (NewObserverManager q) (LSubscribe False) (?m False False)"
    by (rule om_step.subscribe) (simp add: Subscribe_def NewObserverManager_def sample_sub_def)
  have 2: "om_step (?m False False) (LContextDone 1) (?m True False)"
    using om_step.context_done [of "?m False False" 1] by (simp add: upd_sub_def sample_sub_def)
  have "om_step (?m True False) (LExit (sub_id (?s True False))) (?m True False\<lparr>om_subs := [] @ ?s True True # []\<rparr>)"
    by (rule om_step.exit) (simp_all add: process_exit_def)
  then have 3: "om_step (?m True False) (LExit 1) (?m True True)"
    by (simp add: sample_sub_def)
  have "om_run (NewObserverManager q) [LSubscribe False, LContextDone 1, LExit 1] (?m True True)"
    using om_run.snoc [OF om_run.snoc [OF om_run.snoc [OF om_run.start 1] 2] 3] by simp
  moreover have "Notify e (?m True True) = None" for e
    by (simp add: Notify_def notify_sub_def sample_sub_def)
  ultimately show ?thesis by blast
qed



end
