(* ===== verification/Engine.thy ===== *)
theory Engine
  imports Merge Observers
begin

text \<open>
  core/state.go: immutable states, and the engine that swaps them.

  The world \<open>'w\<close> is what hooks and sources act on outside the engine: a hook is a function
  that returns an error or none and changes the world, the \<open>Load\<close> of a source returns a map or
  an error.  Neither calls back into the engine.  The current time is an argument.  An
  operation that notifies observers returns \<open>None\<close> when a send on a closed queue panics.
\<close>

section \<open>States\<close>

record StateMetadata =
  md_sources :: "SourceType list"
  md_encrypted :: "bool gomap"

record State =
  st_data :: nildata
  st_indexed :: "any gomap"
  st_metadata :: StateMetadata
  st_created :: int
  st_version :: u64

fun buildIndexed_loop :: "data \<Rightarrow> any gomap \<Rightarrow> any gomap" where
  "buildIndexed_loop [] indexed = indexed"
| "buildIndexed_loop ((k, v) # d) indexed = buildIndexed_loop d (insertIndexed k (vraw v) indexed)"

definition buildIndexed :: "State \<Rightarrow> State" where
  "buildIndexed s = s\<lparr>st_indexed := buildIndexed_loop (entries (st_data s)) (st_indexed s)\<rparr>"

datatype StateOption = WithVersion u64 | WithMetadata StateMetadata

fun apply_state_option :: "StateOption \<Rightarrow> State \<Rightarrow> State" where
  "apply_state_option (WithVersion v) s = s\<lparr>st_version := v\<rparr>"
| "apply_state_option (WithMetadata m) s = s\<lparr>st_metadata := m\<rparr>"

definition NewState :: "int \<Rightarrow> nildata \<Rightarrow> StateOption list \<Rightarrow> State" where
  "NewState now d opts =
     buildIndexed (fold apply_state_option opts
       \<lparr>st_data = d, st_indexed = [], st_metadata = \<lparr>md_sources = [], md_encrypted = []\<rparr>,
        st_created = now, st_version = 1\<rparr>)"

definition State_Get :: "State \<Rightarrow> string \<Rightarrow> Value \<times> bool" where
  "State_Get s k =
     (case st_data s of
        None \<Rightarrow> (zero_Value, False)
      | Some d \<Rightarrow> (case mget d k of None \<Rightarrow> (zero_Value, False) | Some v \<Rightarrow> (v, True)))"

definition State_GetAll :: "State \<Rightarrow> nildata" where
  "State_GetAll s = map_option mcopy (st_data s)"

definition raws :: "data \<Rightarrow> any gomap" where
  "raws d = map (\<lambda>(k, v). (k, vraw v)) d"

definition State_Export :: "State \<Rightarrow> any gomap option" where
  "State_Export s = map_option (\<lambda>d. mcopy (raws d)) (st_data s)"

definition State_Keys :: "State \<Rightarrow> string list option" where
  "State_Keys s = map_option mkeys (st_data s)"

section \<open>The engine\<close>

type_synonym 'w hook = "'w \<Rightarrow> goerror option \<times> 'w"
type_synonym 'w loader = "'w \<Rightarrow> (goerror + nildata) \<times> 'w"

record 'w Engine =
  eng_state :: State
  eng_hooks :: "HookType \<Rightarrow> 'w hook list"
  eng_observers :: ObserverManager
  eng_closed :: bool
  eng_done :: bool

definition NewEngine :: "int \<Rightarrow> 'w Engine" where
  "NewEngine now = \<lparr>eng_state = NewState now None [], eng_hooks = (\<lambda>_. []),
     eng_observers = NewObserverManager 100, eng_closed = False, eng_done = False\<rparr>"

definition RegisterHook :: "HookType \<Rightarrow> 'w hook \<Rightarrow> 'w Engine \<Rightarrow> 'w Engine" where
  "RegisterHook t h e = e\<lparr>eng_hooks := (eng_hooks e)(t := eng_hooks e t @ [h])\<rparr>"

fun run_hooks :: "'w hook list \<Rightarrow> 'w \<Rightarrow> goerror option \<times> 'w" where
  "run_hooks [] w = (None, w)"
| "run_hooks (h # hs) w =
     (case h w of (Some err, w') \<Rightarrow> (Some err, w') | (None, w') \<Rightarrow> run_hooks hs w')"

definition executeHooks :: "'w Engine \<Rightarrow> HookType \<Rightarrow> 'w \<Rightarrow> goerror option \<times> 'w" where
  "executeHooks e t w = run_hooks (eng_hooks e t) w"

definition valuesEqual :: "Value \<Rightarrow> Value \<Rightarrow> bool" where
  "valuesEqual a b \<longleftrightarrow> deep_equal (vraw a) (vraw b) \<and> vtyp a = vtyp b"

definition update_event :: "int \<Rightarrow> string \<Rightarrow> Value \<Rightarrow> Value \<Rightarrow> Event" where
  "update_event now k oldVal newVal = \<lparr>ev_type = EventUpdate, ev_key = k, ev_old = oldVal,
     ev_new = newVal, ev_time = now, ev_source = vsource newVal\<rparr>"

definition create_event :: "int \<Rightarrow> string \<Rightarrow> Value \<Rightarrow> Event" where
  "create_event now k newVal = \<lparr>ev_type = EventCreate, ev_key = k, ev_old = zero_Value,
     ev_new = newVal, ev_time = now, ev_source = vsource newVal\<rparr>"

definition delete_event :: "int \<Rightarrow> string \<Rightarrow> Value \<Rightarrow> Event" where
  "delete_event now k oldVal = \<lparr>ev_type = EventDelete, ev_key = k, ev_old = oldVal,
     ev_new = zero_Value, ev_time = now, ev_source = vsource oldVal\<rparr>"

text \<open>The two loops of \<open>generateEvents\<close>, over the new data and over the old.\<close>

fun notify_changed :: "int \<Rightarrow> data \<Rightarrow> data \<Rightarrow> ObserverManager \<Rightarrow> ObserverManager option" where
  "notify_changed now old [] om = Some om"
| "notify_changed now old ((k, newVal) # d) om =
     (case mget old k of
        Some oldVal \<Rightarrow>
          if valuesEqual oldVal newVal then notify_changed now old d om
          else (case Notify (update_event now k oldVal newVal) om of
                  None \<Rightarrow> None | Some om' \<Rightarrow> notify_changed now old d om')
      | None \<Rightarrow>
          (case Notify (create_event now k newVal) om of
             None \<Rightarrow> None | Some om' \<Rightarrow> notify_changed now old d om'))"

fun notify_deleted :: "int \<Rightarrow> data \<Rightarrow> data \<Rightarrow> ObserverManager \<Rightarrow> ObserverManager option" where
  "notify_deleted now new [] om = Some om"
| "notify_deleted now new ((k, oldVal) # d) om =
     (case mget new k of
        Some _ \<Rightarrow> notify_deleted now new d om
      | None \<Rightarrow>
          (case Notify (delete_event now k oldVal) om of
             None \<Rightarrow> None | Some om' \<Rightarrow> notify_deleted now new d om'))"

definition generateEvents :: "int \<Rightarrow> State \<Rightarrow> State \<Rightarrow> ObserverManager \<Rightarrow> ObserverManager option" where
  "generateEvents now oldState newState om =
     (let old = entries (st_data oldState); new = entries (st_data newState)
      in case notify_changed now old new om of
           None \<Rightarrow> None
         | Some om' \<Rightarrow> notify_deleted now new old om')"

definition closed_error :: goerror where
  "closed_error = NewError ErrContextCanceled ''engine is closed'' []"

text \<open>
  \<open>Update\<close>.  The version is written into the new state from a read of the current one, and the
  new state is then stored: two separate steps of the code.
\<close>

definition Update_prepare :: "State \<Rightarrow> State \<Rightarrow> State" where
  "Update_prepare oldState newstate = newstate\<lparr>st_version := st_version oldState + 1\<rparr>"

definition Update_store :: "State \<Rightarrow> 'w Engine \<Rightarrow> 'w Engine" where
  "Update_store newstate e = e\<lparr>eng_state := newstate\<rparr>"

definition Update :: "int \<Rightarrow> State \<Rightarrow> 'w Engine \<Rightarrow> 'w \<Rightarrow> (goerror option \<times> 'w Engine \<times> 'w) option" where
  "Update now newstate e w =
     (if eng_closed e then Some (Some closed_error, e, w)
      else case executeHooks e HookBeforeSet w of
        (Some err, w1) \<Rightarrow> Some (Some err, e, w1)
      | (None, w1) \<Rightarrow>
          let oldState = eng_state e;
              newstate' = Update_prepare oldState newstate;
              e1 = Update_store newstate' e
          in (case generateEvents now oldState newstate' (eng_observers e1) of
                None \<Rightarrow> None
              | Some om \<Rightarrow>
                  let e2 = e1\<lparr>eng_observers := om\<rparr>;
                      (r, w2) = executeHooks e2 HookAfterSet w1
                  in Some (r, e2, w2)))"

fun load_sources :: "'w loader list \<Rightarrow> data \<Rightarrow> 'w \<Rightarrow> (goerror + data) \<times> 'w" where
  "load_sources [] allData w = (Inr allData, w)"
| "load_sources (load # rest) allData w =
     (case load w of
        (Inl err, w') \<Rightarrow> (Inl err, w')
      | (Inr d, w') \<Rightarrow> load_sources rest (merge_loop higher_priority allData (entries d)) w')"

definition Load :: "int \<Rightarrow> 'w loader list \<Rightarrow> 'w Engine \<Rightarrow> 'w \<Rightarrow> (goerror option \<times> 'w Engine \<times> 'w) option" where
  "Load now sources e w =
     (if eng_closed e then Some (Some closed_error, e, w)
      else case executeHooks e HookBeforeLoad w of
        (Some err, w1) \<Rightarrow> Some (Some err, e, w1)
      | (None, w1) \<Rightarrow>
          (case load_sources sources [] w1 of
             (Inl err, w2) \<Rightarrow> Some (Some err, e, w2)
           | (Inr allData, w2) \<Rightarrow>
               (case Update now (NewState now (Some allData) []) e w2 of
                  None \<Rightarrow> None
                | Some (Some err, e', w3) \<Rightarrow> Some (Some err, e', w3)
                | Some (None, e', w3) \<Rightarrow>
                    let (r, w4) = executeHooks e' HookAfterLoad w3 in Some (r, e', w4))))"

definition Observe :: "bool \<Rightarrow> 'w Engine \<Rightarrow> (goerror + i64) \<times> 'w Engine" where
  "Observe ctx_done e =
     (let (r, om) = Subscribe ctx_done (eng_observers e) in (r, e\<lparr>eng_observers := om\<rparr>))"

text \<open>\<open>Close\<close>, up to the wait for the observers' goroutines.\<close>

definition Engine_Close :: "'w Engine \<Rightarrow> 'w Engine" where
  "Engine_Close e =
     (if eng_closed e then e
      else e\<lparr>eng_closed := True, eng_done := True, eng_observers := Close_begin (eng_observers e)\<rparr>)"

section \<open>States: the nested view\<close>

lemma buildIndexed_loop_index_all: "buildIndexed_loop d indexed = index_all (raws d) indexed"
  by (induction d indexed rule: buildIndexed_loop.induct) (auto simp: raws_def)

lemma fold_state_options_data [simp]:
  "st_data (fold apply_state_option opts s) = st_data s"
  "st_indexed (fold apply_state_option opts s) = st_indexed s"
  "st_created (fold apply_state_option opts s) = st_created s"
proof (induction opts arbitrary: s)
  case (Cons p opts)
  { case 1 show ?case using Cons by (cases p) auto }
  { case 2 show ?case using Cons by (cases p) auto }
  { case 3 show ?case using Cons by (cases p) auto }
qed auto

lemma NewState_sel [simp]:
  "st_data (NewState now d opts) = d"
  "st_indexed (NewState now d opts) = index_all (raws (entries d)) []"
  "st_created (NewState now d opts) = now"
  "st_version (NewState now d []) = 1"
  by (simp_all add: NewState_def buildIndexed_def buildIndexed_loop_index_all)

lemma wf_map_raws [simp, wf_intros]: "wf_map (raws d) \<longleftrightarrow> wf_map d"
  by (simp add: raws_def)

lemma mget_raws [simp, gomap_simps]: "mget (raws d) k = map_option vraw (mget d k)"
  by (simp add: raws_def)

section \<open>The events of an update\<close>

text \<open>What \<open>generateEvents\<close> notifies, as a list.\<close>

fun changed_events :: "int \<Rightarrow> data \<Rightarrow> data \<Rightarrow> Event list" where
  "changed_events now old [] = []"
| "changed_events now old ((k, newVal) # d) =
     (case mget old k of
        Some oldVal \<Rightarrow> if valuesEqual oldVal newVal then [] else [update_event now k oldVal newVal]
      | None \<Rightarrow> [create_event now k newVal]) @ changed_events now old d"

fun deleted_events :: "int \<Rightarrow> data \<Rightarrow> data \<Rightarrow> Event list" where
  "deleted_events now new [] = []"
| "deleted_events now new ((k, oldVal) # d) =
     (case mget new k of None \<Rightarrow> [delete_event now k oldVal] | Some _ \<Rightarrow> []) @ deleted_events now new d"

definition diff_events :: "int \<Rightarrow> data \<Rightarrow> data \<Rightarrow> Event list" where
  "diff_events now old new = changed_events now old new @ deleted_events now new old"

lemma notify_list_append:
  "notify_list notify (xs @ ys) m =
     (case notify_list notify xs m of None \<Rightarrow> None | Some m' \<Rightarrow> notify_list notify ys m')"
  by (induction xs arbitrary: m) (auto split: option.splits)

lemma notify_changed_list: "notify_changed now old d om = notify_list Notify (changed_events now old d) om"
  by (induction d arbitrary: om rule: changed_events.induct) (auto split: option.splits)

lemma notify_deleted_list: "notify_deleted now new d om = notify_list Notify (deleted_events now new d) om"
  by (induction d arbitrary: om rule: deleted_events.induct) (auto split: option.splits)

lemma generateEvents_list:
  "generateEvents now s s' om =
     notify_list Notify (diff_events now (entries (st_data s)) (entries (st_data s'))) om"
  by (simp add: generateEvents_def Let_def diff_events_def notify_list_append notify_changed_list
      notify_deleted_list split: option.splits)

lemmas event_defs = update_event_def create_event_def delete_event_def

definition changed_event :: "int \<Rightarrow> data \<Rightarrow> string \<Rightarrow> Value \<Rightarrow> Event list" where
  "changed_event now old k v =
     (case mget old k of
        Some ov \<Rightarrow> if valuesEqual ov v then [] else [update_event now k ov v]
      | None \<Rightarrow> [create_event now k v])"

lemma event_sel [simp]:
  "ev_key (update_event now k ov v) = k" "ev_key (create_event now k v) = k"
  "ev_key (delete_event now k ov) = k" "ev_new (update_event now k ov v) = v"
  "ev_new (create_event now k v) = v" "ev_type (update_event now k ov v) = EventUpdate"
  "ev_type (create_event now k v) = EventCreate" "ev_type (delete_event now k ov) = EventDelete"
  by (simp_all add: event_defs)

lemma changed_events_concat:
  "changed_events now old d = concat (map (\<lambda>(k, v). changed_event now old k v) d)"
  by (induction d rule: changed_events.induct) (auto simp: changed_event_def split: option.splits)

lemma deleted_events_concat:
  "deleted_events now new d = map (\<lambda>(k, v). delete_event now k v) (filter (\<lambda>(k, v). mget new k = None) d)"
  by (induction d) (auto split: option.split)

lemma changed_event_key: "ev \<in> set (changed_event now old k v) \<Longrightarrow> ev_key ev = k \<and> ev_new ev = v"
  by (auto simp: changed_event_def split: option.splits if_splits)

lemma changed_events_keys: "ev \<in> set (changed_events now old d) \<Longrightarrow> ev_key ev \<in> fst ` set d"
  by (force simp: changed_events_concat dest: changed_event_key)

lemma deleted_events_keys: "ev \<in> set (deleted_events now new d) \<Longrightarrow> mget new (ev_key ev) = None"
  by (auto simp: deleted_events_concat)

lemma distinct_changed: "wf_map d \<Longrightarrow> distinct (map ev_key (changed_events now old d))"
proof (induction d)
  case (Cons kv d)
  obtain k v where kv: "kv = (k, v)" by (cases kv)
  have "k \<notin> ev_key ` set (changed_events now old d)"
    using Cons.prems changed_events_keys [of _ now old d] by (auto simp: kv)
  moreover have "distinct (map ev_key (changed_event now old k v))"
    by (simp add: changed_event_def split: option.split)
  moreover have "ev_key ` set (changed_event now old k v) \<subseteq> {k}"
    using changed_event_key by blast
  ultimately show ?case
    using Cons by (auto simp: kv changed_events_concat)
qed simp

lemma distinct_deleted: "wf_map d \<Longrightarrow> distinct (map ev_key (deleted_events now new d))"
  by (induction d) (force simp: deleted_events_concat)+

lemma distinct_diff: "wf_map old \<Longrightarrow> wf_map new \<Longrightarrow> distinct (map ev_key (diff_events now old new))"
proof -
  assume wf: "wf_map old" "wf_map new"
  have "ev_key ` set (changed_events now old new) \<inter> ev_key ` set (deleted_events now new old) = {}"
    using changed_events_keys [of _ now old new] deleted_events_keys [of _ now new old]
    by (force simp: mget_None_iff)
  then show ?thesis
    using wf by (simp add: diff_events_def distinct_changed distinct_deleted)
qed

text \<open>The effect an event describes, and the map a subscriber that follows the events has.\<close>

fun apply_event :: "Event \<Rightarrow> data \<Rightarrow> data" where
  "apply_event ev d =
     (case ev_type ev of
        EventCreate \<Rightarrow> mput (ev_key ev) (ev_new ev) d
      | EventUpdate \<Rightarrow> mput (ev_key ev) (ev_new ev) d
      | EventDelete \<Rightarrow> mdel (ev_key ev) d
      | EventReload \<Rightarrow> d)"

lemma fold_apply_other:
  "k \<notin> ev_key ` set evs \<Longrightarrow> mget (fold apply_event evs d) k = mget d k"
  by (induction evs arbitrary: d) (auto simp: gomap_simps split: EventType.splits)

lemma fold_apply_event:
  assumes "distinct (map ev_key evs)" and "ev \<in> set evs"
  shows "mget (fold apply_event evs d) (ev_key ev) = mget (apply_event ev d) (ev_key ev)"
  using assms
proof (induction evs arbitrary: d)
  case (Cons e evs)
  show ?case
  proof (cases "ev = e")
    case True
    with Cons.prems have "ev_key ev \<notin> ev_key ` set evs" by auto
    with True show ?thesis by (simp add: fold_apply_other del: apply_event.simps)
  next
    case False
    with Cons.prems have "ev \<in> set evs" by simp
    moreover have "ev_key e \<notin> ev_key ` set evs" using Cons.prems(1) by simp
    ultimately have m: "ev \<in> set evs" "ev_key ev \<noteq> ev_key e" by (metis image_eqI)+
    then have "mget (apply_event e d) (ev_key ev) = mget d (ev_key ev)"
      by (auto split: EventType.splits)
    then show ?thesis using Cons m by (auto split: EventType.splits)
  qed
qed simp

lemma mem_diff_events:
  assumes "wf_map old" and "wf_map new"
  shows "ev \<in> set (diff_events now old new) \<longleftrightarrow>
    (case mget new (ev_key ev) of
       Some v \<Rightarrow>
         (case mget old (ev_key ev) of
            None \<Rightarrow> ev = create_event now (ev_key ev) v
          | Some ov \<Rightarrow> \<not> valuesEqual ov v \<and> ev = update_event now (ev_key ev) ov v)
     | None \<Rightarrow>
         (case mget old (ev_key ev) of
            None \<Rightarrow> False
          | Some ov \<Rightarrow> ev = delete_event now (ev_key ev) ov))" (is "_ \<longleftrightarrow> ?rhs")
proof
  assume "ev \<in> set (diff_events now old new)"
  then consider (c) k v where "mget new k = Some v" "ev \<in> set (changed_event now old k v)"
    | (d) k v where "mget old k = Some v" "mget new k = None" "ev = delete_event now k v"
    by (auto simp: diff_events_def changed_events_concat deleted_events_concat
        wf_map_mget_iff [OF assms(1)] wf_map_mget_iff [OF assms(2)])
  then show ?rhs
  proof cases
    case c
    then have "ev_key ev = k" by (auto dest: changed_event_key)
    with c show ?thesis
      by (cases "mget old k") (auto simp: changed_event_def split: if_splits)
  qed simp
next
  assume r: ?rhs
  show "ev \<in> set (diff_events now old new)"
  proof (cases "mget new (ev_key ev)")
    case (Some v)
    then have "(ev_key ev, v) \<in> set new" using assms by (simp add: wf_map_mget_iff)
    moreover have "ev \<in> set (changed_event now old (ev_key ev) v)"
      using r Some by (auto simp: changed_event_def split: option.splits)
    ultimately show ?thesis by (force simp: diff_events_def changed_events_concat)
  next
    case None
    with r obtain ov where "(ev_key ev, ov) \<in> set old" "ev = delete_event now (ev_key ev) ov"
      using assms by (auto simp: wf_map_mget_iff [symmetric] split: option.splits)
    with None show ?thesis by (force simp: diff_events_def deleted_events_concat)
  qed
qed

definition same_value :: "Value \<Rightarrow> Value \<Rightarrow> bool" where
  "same_value a b \<longleftrightarrow> a = b \<or> valuesEqual a b"

lemma replay_diff:
  assumes wf: "wf_map old" "wf_map new"
  shows "rel_option same_value (mget (fold apply_event (diff_events now old new) old) k) (mget new k)"
proof (cases "\<exists>ev\<in>set (diff_events now old new). ev_key ev = k")
  case True
  then obtain ev where ev: "ev \<in> set (diff_events now old new)" "ev_key ev = k" by auto
  have m: "mget (fold apply_event (diff_events now old new) old) k = mget (apply_event ev old) k"
    using fold_apply_event [OF distinct_diff [OF wf] ev(1)] ev(2) by simp
  have "mget (apply_event ev old) k = mget new k"
  proof (cases "mget new k")
    case None
    then obtain ov where "ev = delete_event now k ov"
      using ev mem_diff_events [OF wf, of ev now] by (auto split: option.splits)
    with None show ?thesis by simp
  next
    case (Some v)
    then have "ev = create_event now k v \<or> (\<exists>ov. ev = update_event now k ov v)"
      using ev mem_diff_events [OF wf, of ev now] by (auto split: option.splits)
    with Some show ?thesis by auto
  qed
  then show ?thesis
    using m by (simp add: option.rel_refl same_value_def)
next
  case False
  then have m: "mget (fold apply_event (diff_events now old new) old) k = mget old k"
    by (intro fold_apply_other) auto
  have no: "update_event now k ov v \<notin> set (diff_events now old new)"
    "create_event now k v \<notin> set (diff_events now old new)"
    "delete_event now k ov \<notin> set (diff_events now old new)" for ov v
    using False by force+
  show ?thesis
    using no by (cases "mget old k"; cases "mget new k")
      (auto simp: m mem_diff_events [OF wf] same_value_def)
qed

section \<open>Runs of the engine\<close>

lemmas engine_defs [step_defs] = Update_def Load_def RegisterHook_def Observe_def Engine_Close_def
  Update_prepare_def Update_store_def executeHooks_def

text \<open>What an update that stores its state has done to the engine.\<close>

definition stored_by :: "int \<Rightarrow> State \<Rightarrow> 'w Engine \<Rightarrow> 'w Engine \<Rightarrow> bool" where
  "stored_by now s e e' \<longleftrightarrow>
     \<not> eng_closed e
     \<and> (\<exists>om. notify_list Notify (diff_events now (entries (st_data (eng_state e))) (entries (st_data s)))
                (eng_observers e) = Some om
           \<and> e' = e\<lparr>eng_state := s\<lparr>st_version := st_version (eng_state e) + 1\<rparr>, eng_observers := om\<rparr>)"

lemma Update_cases:
  assumes "Update now s e w = Some (r, e', w')"
  shows "(r \<noteq> None \<and> e' = e) \<or> stored_by now s e e'"
proof (cases "eng_closed e")
  case False
  then show ?thesis
    using assms by (auto simp: Update_def stored_by_def generateEvents_list Update_prepare_def
        Update_store_def Let_def split: prod.splits option.splits)
qed (use assms in \<open>auto simp: Update_def\<close>)

lemma Load_cases:
  assumes "Load now srcs e w = Some (r, e', w')"
  shows "(r \<noteq> None \<and> e' = e)
    \<or> (\<exists>d w1 w2. load_sources srcs [] w1 = (Inr d, w2) \<and> stored_by now (NewState now (Some d) []) e e')"
proof (cases "eng_closed e")
  case False
  obtain rb w1 where hb: "executeHooks e HookBeforeLoad w = (rb, w1)" by fastforce
  obtain rl w2 where ld: "load_sources srcs [] w1 = (rl, w2)" by fastforce
  show ?thesis
  proof (cases rb)
    case None
    show ?thesis
    proof (cases rl)
      case (Inr d)
      obtain ru e1 w3 where u: "Update now (NewState now (Some d) []) e w2 = Some (ru, e1, w3)"
        using assms False hb ld None Inr by (auto simp: Load_def split: option.splits)
      then have "e' = e1 \<and> (ru \<noteq> None \<longrightarrow> r = ru)"
        using assms False hb ld None Inr by (auto simp: Load_def split: option.splits prod.splits)
      then show ?thesis using Update_cases [OF u] ld Inr by auto
    qed (use assms False hb ld None in \<open>auto simp: Load_def\<close>)
  qed (use assms False hb in \<open>auto simp: Load_def\<close>)
qed (use assms in \<open>auto simp: Load_def\<close>)

inductive eng_step :: "'w Engine \<Rightarrow> 'w Engine \<Rightarrow> bool" where
  update: "Update now s e w = Some (r, e', w') \<Longrightarrow> eng_step e e'"
| load: "Load now srcs e w = Some (r, e', w') \<Longrightarrow> eng_step e e'"
| register: "eng_step e (RegisterHook t h e)"
| observe: "Observe d e = (r, e') \<Longrightarrow> eng_step e e'"
| observers: "om_step (eng_observers e) l om \<Longrightarrow> eng_step e (e\<lparr>eng_observers := om\<rparr>)"
| close: "eng_step e (Engine_Close e)"

text \<open>A run, with the states stored on the way.\<close>

inductive eng_run :: "'w Engine \<Rightarrow> State list \<Rightarrow> 'w Engine \<Rightarrow> bool" where
  start: "eng_run e [] e"
| keep: "eng_run e hist e' \<Longrightarrow> eng_step e' e'' \<Longrightarrow> eng_state e'' = eng_state e' \<Longrightarrow> eng_run e hist e''"
| store: "eng_run e hist e' \<Longrightarrow> eng_step e' e'' \<Longrightarrow> eng_state e'' \<noteq> eng_state e' \<Longrightarrow>
    eng_run e (hist @ [eng_state e'']) e''"

inductive_cases eng_stepE: "eng_step e e'"

lemma stored_by_sel:
  "stored_by now s e e' \<Longrightarrow>
     st_version (eng_state e') = st_version (eng_state e) + 1 \<and> eng_closed e' = eng_closed e
     \<and> \<not> eng_closed e \<and> eng_done e' = eng_done e \<and> eng_hooks e' = eng_hooks e
     \<and> st_data (eng_state e') = st_data s \<and> st_indexed (eng_state e') = st_indexed s"
  by (auto simp: stored_by_def)

lemma eng_step_state:
  assumes "eng_step e e'"
  shows "(eng_state e' = eng_state e \<or>
            \<not> eng_closed e \<and> st_version (eng_state e') = st_version (eng_state e) + 1)
    \<and> (eng_closed e \<longrightarrow> eng_closed e') \<and> ((eng_closed e \<longleftrightarrow> eng_done e) \<longrightarrow> (eng_closed e' \<longleftrightarrow> eng_done e'))"
  using assms
proof cases
  case update
  then show ?thesis by (auto dest!: Update_cases stored_by_sel)
next
  case load
  then show ?thesis by (auto dest!: Load_cases stored_by_sel)
qed (auto simp: RegisterHook_def Observe_def Engine_Close_def split: prod.splits)

lemma version_succ_neq: "(v :: u64) + 1 \<noteq> v"
  by simp

section \<open>What loading collects\<close>

inductive loads :: "'w loader list \<Rightarrow> 'w \<Rightarrow> nildata list \<Rightarrow> 'w \<Rightarrow> bool" where
  Nil: "loads [] w [] w"
| Cons: "load w = (Inr d, w1) \<Longrightarrow> loads rest w1 ds w' \<Longrightarrow> loads (load # rest) w (d # ds) w'"

inductive_simps loads_Nil [simp]: "loads [] w ds w'"
inductive_simps loads_Cons: "loads (load # rest) w ds w'"

lemma load_sources_Inr:
  "load_sources srcs acc w = (Inr m, w') \<Longrightarrow>
     \<exists>ds. loads srcs w ds w' \<and> m = foldl (merge_loop higher_priority) acc (map entries ds)"
proof (induction srcs acc w rule: load_sources.induct)
  case (2 load rest allData w)
  then obtain d w1 where l: "load w = (Inr d, w1)"
    by (auto split: sum.splits prod.splits)
  with 2 obtain ds where "loads rest w1 ds w'"
    "m = foldl (merge_loop higher_priority) (merge_loop higher_priority allData (entries d)) (map entries ds)"
    by fastforce
  with l show ?case by (intro exI [of _ "d # ds"]) (auto intro: loads.Cons)
qed simp

lemma load_sources_Inl:
  "loads pre w ds w1 \<Longrightarrow> load w1 = (Inl err, w2) \<Longrightarrow> load_sources (pre @ load # post) acc w = (Inl err, w2)"
  by (induction arbitrary: acc rule: loads.induct) auto

lemma loads_wf:
  "loads srcs w ds w' \<Longrightarrow> \<forall>l\<in>set srcs. \<forall>w d w'. l w = (Inr d, w') \<longrightarrow> wf_map (entries d) \<Longrightarrow>
     \<forall>d\<in>set ds. wf_map (entries d)"
  by (induction rule: loads.induct) auto

lemma Load_success:
  assumes "Load now srcs e w = Some (None, e', w')"
  shows "\<exists>ds w2. loads srcs (snd (executeHooks e HookBeforeLoad w)) ds w2
    \<and> stored_by now (NewState now (Some (merge_all higher_priority (map entries ds))) []) e e'"
proof -
  obtain w1 where hb: "executeHooks e HookBeforeLoad w = (None, w1)" and opn: "\<not> eng_closed e"
    using assms by (auto simp: Load_def split: if_splits prod.splits option.splits)
  obtain d w2 where ld: "load_sources srcs [] w1 = (Inr d, w2)"
    using assms opn hb by (auto simp: Load_def split: if_splits prod.splits option.splits sum.splits)
  obtain w3 where u: "Update now (NewState now (Some d) []) e w2 = Some (None, e', w3)"
    using assms opn hb ld by (auto simp: Load_def split: if_splits prod.splits option.splits)
  obtain ds where "loads srcs w1 ds w2" "d = merge_all higher_priority (map entries ds)"
    using load_sources_Inr [OF ld] by (auto simp: merge_all_def)
  then show ?thesis using hb Update_cases [OF u] by auto
qed

lemma State_Get_iff: "State_Get s k = (v, True) \<longleftrightarrow> mget (entries (st_data s)) k = Some v"
  by (auto simp: State_Get_def split: option.splits)

lemma Update_ready:
  assumes "om_ready (eng_observers e)"
    and "executeHooks e HookBeforeSet w = (rb, w1)" and "executeHooks e HookAfterSet w1 = (ra, w2)"
  shows "if eng_closed e then Update now s e w = Some (Some closed_error, e, w)
    else if rb \<noteq> None then Update now s e w = Some (rb, e, w1)
    else (\<exists>e'. Update now s e w = Some (ra, e', w2)
            \<and> eng_state e' = s\<lparr>st_version := st_version (eng_state e) + 1\<rparr>
            \<and> eng_hooks e' = eng_hooks e \<and> \<not> eng_closed e' \<and> om_ready (eng_observers e'))"
proof -
  obtain om where "generateEvents now (eng_state e) (Update_prepare (eng_state e) s) (eng_observers e) = Some om"
    and "om_ready om"
    using observers.notify_list_returns [OF assms(1)] unfolding generateEvents_list by blast
  then show ?thesis
    using assms(2,3)
    by (auto simp: Update_def Update_store_def Update_prepare_def executeHooks_def Let_def)
qed

section \<open>Results\<close>

text \<open>
  C2: every run of the engine, whatever the hooks, sources and observers do, stores states with
  consecutive versions (modulo 2 to the 64), the current state is the last one stored, and once
  the engine is closed it stays closed, stays marked done and its state never changes again.
\<close>

theorem engine_versions_consecutive:
  assumes "eng_run e0 hist e"
  shows "eng_state e = last (eng_state e0 # hist)
    \<and> map st_version hist
        = map (\<lambda>i. st_version (eng_state e0) + of_nat (Suc i)) [0..<length hist]
    \<and> (eng_closed e0 \<longrightarrow> hist = [] \<and> eng_closed e)
    \<and> (eng_closed e0 = eng_done e0 \<longrightarrow> eng_closed e = eng_done e)"
  using assms
proof induction
  case (keep e hist e' e'')
  then show ?case using eng_step_state [OF keep.hyps(2)] by auto
next
  case (store e hist e' e'')
  have "st_version (last (eng_state e # hist)) = st_version (eng_state e) + of_nat (length hist)"
  proof (cases hist rule: rev_cases)
    case (snoc ys y)
    then show ?thesis using store.IH by (auto simp: nth_append)
  qed simp
  then show ?case
    using store eng_step_state [OF store.hyps(2)] by (auto simp: algebra_simps)
qed simp

theorem engine_versions_consecutive_witness:
  "\<exists>e s. eng_run (NewEngine 0 :: nat Engine) [s] e \<and> st_version s = 2 \<and> eng_state e = s"
proof -
  let ?e = "NewEngine 0 :: nat Engine" and ?s = "NewState 1 (Some [(''host'', high_host)]) []"
  obtain r e' w' where u: "Update 1 ?s ?e 0 = Some (r, e', w')"
    and v: "st_version (eng_state e') = 2"
    by (simp add: Update_def executeHooks_def NewEngine_def Let_def NewObserverManager_def
        generateEvents_def Notify_def Update_prepare_def Update_store_def)
  then have "eng_state e' \<noteq> eng_state ?e" by (auto simp: NewEngine_def)
  then have "eng_run ?e ([] @ [eng_state e']) e'"
    using eng_run.store [OF eng_run.start eng_step.update [OF u]] by blast
  then show ?thesis
    using engine_versions_consecutive [of ?e "[eng_state e']" e'] v by auto
qed

text \<open>
  \<open>Update\<close> by case, for observers whose queues are open.  A closed engine refuses and changes
  nothing; a failing before-hook aborts the update, its error is returned and the state, its
  version and the observers are as they were; otherwise the new state is stored with the next
  version, and then even a failing after-hook, whose error is returned, no longer undoes it.
\<close>

theorem update_outcome:
  assumes "om_ready (eng_observers e)"
    and "executeHooks e HookBeforeSet w = (rb, w1)" and "executeHooks e HookAfterSet w1 = (ra, w2)"
  shows "if eng_closed e then Update now s e w = Some (Some closed_error, e, w)
    else if rb \<noteq> None then Update now s e w = Some (rb, e, w1)
    else (\<exists>e'. Update now s e w = Some (ra, e', w2)
            \<and> eng_state e' = s\<lparr>st_version := st_version (eng_state e) + 1\<rparr>
            \<and> eng_hooks e' = eng_hooks e \<and> \<not> eng_closed e' \<and> om_ready (eng_observers e'))"
  by (rule Update_ready [OF assms])

definition sample_hook :: "goerror option \<Rightarrow> nat hook" where
  "sample_hook r w = (r, w + 1)"

definition sample_engine :: "nat Engine" where
  "sample_engine = RegisterHook HookAfterSet (sample_hook (Some (PlainError ''late'')))
     (RegisterHook HookBeforeSet (sample_hook None) (snd (Observe False (NewEngine 0))))"

definition sample_state :: State where
  "sample_state = NewState 1 (Some [(''host'', high_host)]) []"

theorem update_outcome_witness:
  "\<exists>e'. Update 1 sample_state sample_engine 0 = Some (Some (PlainError ''late''), e', 2)
     \<and> st_version (eng_state e') = 2"
proof -
  have ready: "om_ready (eng_observers sample_engine)"
    by (simp add: sample_engine_def om_ready_def RegisterHook_def Observe_def NewEngine_def
        Subscribe_def NewObserverManager_def)
  have "executeHooks sample_engine HookBeforeSet 0 = (None, 1)"
    "executeHooks sample_engine HookAfterSet 1 = (Some (PlainError ''late''), 2)"
    "\<not> eng_closed sample_engine" "st_version (eng_state sample_engine) = 1"
    by (simp_all add: sample_engine_def executeHooks_def sample_hook_def RegisterHook_def
        Observe_def NewEngine_def Subscribe_def NewObserverManager_def)
  with update_outcome [OF ready this(1,2), of 1 sample_state] show ?thesis by auto
qed



text \<open>
  C8: a successful \<open>Load\<close> leaves the engine with the priority merge of what its sources
  returned, in one step: a key has the value \<open>v\<close> exactly when \<open>v\<close> is the first of the sources'
  values that no other exceeds in priority, and the version has gone up by one.
\<close>

theorem load_is_priority_merge:
  assumes "Load now srcs e w = Some (None, e', w')"
    and "\<forall>l\<in>set srcs. \<forall>w d w'. l w = (Inr d, w') \<longrightarrow> wf_map (entries d)"
  shows "\<exists>ds w2. loads srcs (snd (executeHooks e HookBeforeLoad w)) ds w2
    \<and> (\<forall>k v. State_Get (eng_state e') k = (v, True) \<longleftrightarrow>
         (\<exists>xs ys. candidates k (map entries ds) = xs @ v # ys
            \<and> (\<forall>x\<in>set xs. vpriority x < vpriority v) \<and> (\<forall>y\<in>set ys. vpriority y \<le> vpriority v)))
    \<and> st_version (eng_state e') = st_version (eng_state e) + 1"
proof -
  obtain ds w2 where ds: "loads srcs (snd (executeHooks e HookBeforeLoad w)) ds w2"
    and st: "stored_by now (NewState now (Some (merge_all higher_priority (map entries ds))) []) e e'"
    using Load_success [OF assms(1)] by blast
  have "\<forall>s\<in>set (map entries ds). wf_map s" using loads_wf [OF ds assms(2)] by simp
  then have "State_Get (eng_state e') k = (v, True) \<longleftrightarrow>
      pick higher_priority (candidates k (map entries ds)) = Some v" for k v
    using stored_by_sel [OF st] by (simp add: State_Get_iff mget_merge_all)
  then show ?thesis
    using ds stored_by_sel [OF st]
    by (auto simp: priority_rule.pick_first_best higher_priority_def not_less intro!: exI [of _ ds])
qed

definition sample_load :: "data \<Rightarrow> nat loader" where
  "sample_load d w = (Inr (Some d), w)"

theorem load_is_priority_merge_witness:
  "\<exists>e' w'. Load 1 [sample_load [(''host'', low_host)], sample_load [(''host'', high_host)]]
       (NewEngine 0) 0 = Some (None, e', w') \<and> st_version (eng_state e') = 2"
proof -
  let ?srcs = "[sample_load [(''host'', low_host)], sample_load [(''host'', high_host)]]"
  obtain e' w' where l: "Load 1 ?srcs (NewEngine 0) 0 = Some (None, e', w')"
    by (simp add: Load_def executeHooks_def NewEngine_def sample_load_def Update_def Let_def
        generateEvents_list NewObserverManager_def Notify_def diff_events_def
        Update_prepare_def Update_store_def low_host_def high_host_def higher_priority_def)
  have wf: "\<forall>l\<in>set ?srcs. \<forall>w d w'. l w = (Inr d, w') \<longrightarrow> wf_map (entries d)"
    by (auto simp: sample_load_def)
  show ?thesis using load_is_priority_merge [OF l wf] l by (auto simp: NewEngine_def)
qed

text \<open>
  A failing source makes \<open>Load\<close> fail as a whole: the error is returned, the sources after
  it are not asked, and the engine, its state and its observers are as before.
\<close>

theorem load_failure_keeps_engine:
  assumes "\<not> eng_closed e" and "executeHooks e HookBeforeLoad w = (None, w1)"
    and "loads pre w1 ds w2" and "load w2 = (Inl err, w3)"
  shows "Load now (pre @ load # post) e w = Some (Some err, e, w3)"
  using assms load_sources_Inl [of pre w1 ds w2 load err w3 post "[]"] by (simp add: Load_def)

theorem load_failure_keeps_engine_witness:
  "Load 1 ([sample_load [(''host'', low_host)]] @ (\<lambda>w. (Inl (PlainError ''down''), w)) # [sample_load []])
     (NewEngine 0) 0 = Some (Some (PlainError ''down''), NewEngine 0, 0)"
  by (rule load_failure_keeps_engine [where ?w1.0 = 0 and ?w2.0 = 0 and ds = "[Some [(''host'', low_host)]]"])
     (auto simp: NewEngine_def executeHooks_def sample_load_def loads_Cons)

text \<open>
  The nested view of a state loses nothing.  When no key is a prefix of another and none has
  empty parts, flattening the nested map that \<open>NewState\<close> builds gives back, key by key, what
  \<open>Export\<close> returns, in whatever order the map was ranged over.
\<close>

theorem indexed_roundtrip:
  assumes "flat_ok (raws d)"
  shows "map_of (Flatten (st_indexed (NewState now (Some d) opts)) []) = map_of (the (State_Export (NewState now (Some d) opts)))"
proof -
  have "wf_map (raws d)" using assms by (simp add: flat_ok_def)
  then show ?thesis using Flatten_index_all [OF assms] by (simp add: State_Export_def)
qed

theorem indexed_roundtrip_witness:
  "mget (Flatten (st_indexed (NewState 0 (Some [(''db.host'', high_host), (''db.port'', low_host)]) [])) [])
     ''db.host'' = Some (AString ''b'')"
proof -
  have "flat_ok (raws [(''db.host'', high_host), (''db.port'', low_host)])"
    by code_simp
  from indexed_roundtrip [OF this, of 0 "[]"] show ?thesis
    by (simp add: State_Export_def raws_def high_host_def)
qed

end
