(* ===== verification/Parser.thy ===== *)
theory Parser
  imports Engine GoText
begin

text \<open>
  Package confparser (confparser/parser.go): format detection, the line-based YAML and TOML
  parsers with their scalar rules, the JSON number conversion and the parser registry.

  The parsers write into maps reached through pointers; here a pointer is the path of keys from
  the root, which is the same thing because a map stays attached at its place for as long as the
  parser holds a pointer to it.  A slice expression out of range is a panic, the value \<open>None\<close>.
  Decoding JSON text into a tree is the work of \<open>encoding/json\<close>, an argument here.
\<close>

section \<open>Formats\<close>

datatype Format = FormatYAML | FormatJSON | FormatTOML | FormatAuto | FormatOther string

definition DetectFormat :: "string \<Rightarrow> Format" where
  "DetectFormat filename =
     (let low = to_lower filename;
          ext = (case last_index_of (CHR ''.'') low of
                   None \<Rightarrow> low | Some idx \<Rightarrow> if idx > 0 then drop idx low else low)
      in if ext = ''.yaml'' \<or> ext = ''.yml'' then FormatYAML
         else if ext = ''.json'' then FormatJSON
         else if ext = ''.toml'' then FormatTOML
         else FormatAuto)"

section \<open>Scalars\<close>

abbreviation dquote :: char where "dquote \<equiv> CHR 0x22"
abbreviation squote :: char where "squote \<equiv> CHR 0x27"
abbreviation backslash :: char where "backslash \<equiv> CHR 0x5C"

definition quoted_by :: "char \<Rightarrow> string \<Rightarrow> bool" where
  "quoted_by q s \<longleftrightarrow> has_prefix s [q] \<and> has_suffix s [q]"

text \<open>The Go slice \<open>s[1 : len(s)-1]\<close>.\<close>

definition inner :: "string \<Rightarrow> string option" where
  "inner s = (if length s - 1 < 1 then None else Some (take (length s - 2) (drop 1 s)))"

definition parse_number :: "string \<Rightarrow> any" where
  "parse_number s =
     (case atoi s of
        Some i \<Rightarrow> AInt (word_of_int i)
      | None \<Rightarrow> (case parse_float s of Some x \<Rightarrow> AFloat64 x | None \<Rightarrow> AString s))"

definition parseValue :: "string \<Rightarrow> any option" where
  "parseValue s0 =
     (let s = trim_space s0
      in if quoted_by dquote s \<or> quoted_by squote s then map_option AString (inner s)
         else if to_lower s \<in> {''true'', ''yes'', ''on''} then Some (ABool True)
         else if to_lower s \<in> {''false'', ''no'', ''off''} then Some (ABool False)
         else if to_lower s = ''null'' \<or> s = [CHR 0x7E] then Some ANil
         else Some (parse_number s))"

definition parseTOMLValue :: "string \<Rightarrow> any option" where
  "parseTOMLValue s0 =
     (let s = trim_space s0
      in if quoted_by dquote s \<or> quoted_by squote s then map_option AString (inner s)
         else if to_lower s = ''true'' then Some (ABool True)
         else if to_lower s = ''false'' then Some (ABool False)
         else Some (parse_number s))"

text \<open>The scan of \<open>stripInlineYAMLComment\<close>: the text before the comment, from index 0.\<close>

fun strip_loop :: "bool \<Rightarrow> bool \<Rightarrow> bool \<Rightarrow> string \<Rightarrow> string" where
  "strip_loop inSingle inDouble escaped [] = []"
| "strip_loop inSingle inDouble escaped (r # s) =
     (if escaped then r # strip_loop inSingle inDouble False s
      else if r = backslash then r # strip_loop inSingle inDouble True s
      else if r = squote \<and> \<not> inDouble then r # strip_loop (\<not> inSingle) inDouble False s
      else if r = dquote \<and> \<not> inSingle then r # strip_loop inSingle (\<not> inDouble) False s
      else if r = CHR ''#'' \<and> \<not> inSingle \<and> \<not> inDouble then []
      else r # strip_loop inSingle inDouble False s)"

definition stripInlineYAMLComment :: "string \<Rightarrow> string" where
  "stripInlineYAMLComment s = trim_space (strip_loop False False False s)"

section \<open>YAML\<close>

definition trim_set :: "char set \<Rightarrow> string \<Rightarrow> string" where
  "trim_set cs s = rev (dropWhile (\<lambda>c. c \<in> cs) (rev (dropWhile (\<lambda>c. c \<in> cs) s)))"

text \<open>Write at the map that a path points to.\<close>

fun update_at :: "string list \<Rightarrow> (any gomap \<Rightarrow> any gomap) \<Rightarrow> any gomap \<Rightarrow> any gomap" where
  "update_at [] f m = f m"
| "update_at (p # ps) f m = mput p (AMap (update_at ps f (submap p m))) m"

record yaml_state =
  ys_result :: "any gomap"
  ys_current :: "string list"
  ys_mapStack :: "string list list"
  ys_indentStack :: "nat list"

definition indentation :: "string \<Rightarrow> nat" where
  "indentation rawLine = length (takeWhile (\<lambda>c. c = CHR '' '' \<or> c = CHR 0x09) rawLine)"

text \<open>The loop that leaves the blocks a line is not inside of; the stacks are kept top first.\<close>

fun pop_blocks :: "nat \<Rightarrow> nat list \<Rightarrow> string list list \<Rightarrow> string list \<Rightarrow> nat list \<times> string list list \<times> string list" where
  "pop_blocks indent [] maps current = ([], maps, current)"
| "pop_blocks indent (i # is) maps current =
     (if indent \<le> i then
        (case maps of
           [] \<Rightarrow> pop_blocks indent is [] current
         | outer # rest \<Rightarrow> pop_blocks indent is rest outer)
      else (i # is, maps, current))"

definition yaml_line :: "string \<Rightarrow> yaml_state \<Rightarrow> yaml_state option" where
  "yaml_line rawLine st =
     (let line = trim_space rawLine
      in if line = [] \<or> hd line = CHR ''#'' then Some st
         else
           let indent = indentation rawLine;
               (indents, maps, current) =
                 pop_blocks indent (ys_indentStack st) (ys_mapStack st) (ys_current st);
               st' = st\<lparr>ys_current := current, ys_mapStack := maps, ys_indentStack := indents\<rparr>
           in case split2 (CHR '':'') (trim_space line) of
                (_, None) \<Rightarrow> Some st'
              | (key0, Some value0) \<Rightarrow>
                  let val = trim_space (stripInlineYAMLComment (trim_space value0));
                      key = trim_set {dquote, squote} (trim_space key0)
                  in if val = [] then
                       Some (st'\<lparr>ys_result := update_at current (mput key (AMap [])) (ys_result st),
                                 ys_mapStack := current # maps,
                                 ys_indentStack := indent # indents,
                                 ys_current := current @ [key]\<rparr>)
                     else
                       (case parseValue val of
                          None \<Rightarrow> None
                        | Some v \<Rightarrow> Some (st'\<lparr>ys_result := update_at current (mput key v) (ys_result st)\<rparr>)))"

fun yaml_lines :: "string list \<Rightarrow> yaml_state \<Rightarrow> yaml_state option" where
  "yaml_lines [] st = Some st"
| "yaml_lines (l # ls) st = (case yaml_line l st of None \<Rightarrow> None | Some st' \<Rightarrow> yaml_lines ls st')"

definition yaml_init :: yaml_state where
  "yaml_init = \<lparr>ys_result = [], ys_current = [], ys_mapStack = [], ys_indentStack = []\<rparr>"

definition newline :: char where "newline = CHR 0x0A"

definition yamlParse :: "string \<Rightarrow> any gomap option" where
  "yamlParse text = map_option ys_result (yaml_lines (split_on newline text) yaml_init)"

section \<open>TOML\<close>

text \<open>Enter a section: create the maps that are missing; a part that is not a map is skipped.\<close>

fun toml_section :: "string list \<Rightarrow> string list \<Rightarrow> any gomap \<Rightarrow> string list \<times> any gomap" where
  "toml_section [] path m = (path, m)"
| "toml_section (part # parts) path m =
     (let m' = update_at path (\<lambda>s. if mget s part = None then mput part (AMap []) s else s) m;
          here = foldl (\<lambda>s p. submap p s) m' path
      in case mget here part of
           Some (AMap _) \<Rightarrow> toml_section parts (path @ [part]) m'
         | _ \<Rightarrow> toml_section parts path m')"

definition toml_line :: "string \<Rightarrow> string list \<times> any gomap \<Rightarrow> (string list \<times> any gomap) option" where
  "toml_line rawLine st =
     (let (path, m) = st; line = trim_space rawLine
      in if line = [] \<or> hd line = CHR ''#'' then Some st
         else if hd line = CHR ''['' \<and> last line = CHR '']'' then
           (case inner line of
              None \<Rightarrow> None
            | Some section \<Rightarrow> Some (toml_section (split_on (CHR ''.'') section) [] m))
         else case split2 (CHR ''='') line of
           (_, None) \<Rightarrow> Some st
         | (key, Some val) \<Rightarrow>
             (case parseTOMLValue (trim_space val) of
                None \<Rightarrow> None
              | Some v \<Rightarrow> Some (path, update_at path (mput (trim_space key) v) m)))"

fun toml_lines :: "string list \<Rightarrow> string list \<times> any gomap \<Rightarrow> (string list \<times> any gomap) option" where
  "toml_lines [] st = Some st"
| "toml_lines (l # ls) st = (case toml_line l st of None \<Rightarrow> None | Some st' \<Rightarrow> toml_lines ls st')"

definition tomlParse :: "string \<Rightarrow> any gomap option" where
  "tomlParse text = map_option snd (toml_lines (split_on newline text) ([], []))"

section \<open>JSON\<close>

text \<open>The tree the decoder makes, with numbers kept as text (\<open>UseNumber\<close>).\<close>

datatype json = JNull | JBool bool | JNumber string | JString string
  | JArray "json list" | JObject "(string \<times> json) list"

fun convertJSONNumbers :: "json \<Rightarrow> any" where
  "convertJSONNumbers (JObject m) = AMap (mcopy (map (\<lambda>(k, v). (k, convertJSONNumbers v)) m))"
| "convertJSONNumbers (JArray vs) = ASlice (map convertJSONNumbers vs)"
| "convertJSONNumbers (JNumber s) = parse_number s"
| "convertJSONNumbers JNull = ANil"
| "convertJSONNumbers (JBool b) = ABool b"
| "convertJSONNumbers (JString s) = AString s"

text \<open>\<open>decode\<close> is \<open>Decoder.Decode\<close> into a \<open>map[string]any\<close>, which a JSON null leaves nil.\<close>

definition jsonParse :: "(string \<Rightarrow> goerror + json gomap option) \<Rightarrow> string \<Rightarrow> goerror + any gomap" where
  "jsonParse decode text =
     (case decode text of
        Inl err \<Rightarrow> Inl (NewError ErrParseError ''failed to parse JSON'' [WithCause err])
      | Inr result \<Rightarrow>
          (case convertJSONNumbers (JObject (entries result)) of
             AMap m \<Rightarrow> Inr m
           | _ \<Rightarrow> Inl (NewError ErrParseError ''invalid JSON root type after conversion'' [])))"

section \<open>The registry\<close>

text \<open>A parser's \<open>Parse\<close>: \<open>None\<close> when it panics.\<close>

type_synonym parser = "string \<Rightarrow> (goerror + any gomap) option"
type_synonym Registry = "(Format \<times> parser) list"

definition Register :: "Format \<Rightarrow> parser \<Rightarrow> Registry \<Rightarrow> Registry" where
  "Register f p r = mput f p r"

definition NewRegistry :: "(string \<Rightarrow> goerror + json gomap option) \<Rightarrow> Registry" where
  "NewRegistry decode =
     Register FormatTOML (map_option Inr \<circ> tomlParse)
       (Register FormatJSON (Some \<circ> jsonParse decode)
         (Register FormatYAML (map_option Inr \<circ> yamlParse) []))"

fun Format_text :: "Format \<Rightarrow> string" where
  "Format_text FormatYAML = ''yaml''"
| "Format_text FormatJSON = ''json''"
| "Format_text FormatTOML = ''toml''"
| "Format_text FormatAuto = ''auto''"
| "Format_text (FormatOther s) = s"

definition Registry_Get :: "Registry \<Rightarrow> Format \<Rightarrow> goerror + parser" where
  "Registry_Get r f =
     (case mget r f of
        None \<Rightarrow> Inl (NewError ErrParseError (''no parser registered for format: '' @ Format_text f) [])
      | Some p \<Rightarrow> Inr p)"

section \<open>When a scalar or a document panics\<close>

lemma inner_None_iff: "inner s = None \<longleftrightarrow> length s \<le> 1"
  by (auto simp: inner_def)

lemma quoted_short: "length s \<le> 1 \<Longrightarrow> quoted_by q s \<longleftrightarrow> s = [q]"
  by (cases s) (auto simp: quoted_by_def has_prefix_def has_suffix_def)

lemma parseValue_None_iff: "parseValue s = None \<longleftrightarrow> trim_space s \<in> {[dquote], [squote]}"
proof (cases "length (trim_space s) \<le> 1")
  case True
  then show ?thesis by (auto simp: parseValue_def Let_def quoted_short inner_def)
next
  case False
  then have "trim_space s \<notin> {[dquote], [squote]}" by auto
  moreover have "inner (trim_space s) \<noteq> None" using False by (simp add: inner_None_iff)
  then have "parseValue s \<noteq> None" by (auto simp: parseValue_def Let_def)
  ultimately show ?thesis by simp
qed

text \<open>The value text of a line of YAML: absent on comments, blank lines and lines without a colon.\<close>

definition yaml_value_text :: "string \<Rightarrow> string option" where
  "yaml_value_text rawLine =
     (let line = trim_space rawLine
      in if line = [] \<or> hd line = CHR ''#'' then None
         else map_option (\<lambda>v. trim_space (stripInlineYAMLComment (trim_space v)))
                (snd (split2 (CHR '':'') (trim_space line))))"

lemma trim_space_Nil [simp]: "trim_space [] = []"
  by (rule trim_space_plain) simp

lemma yaml_line_None_iff:
  "yaml_line l st = None \<longleftrightarrow> (\<exists>v. yaml_value_text l = Some v \<and> trim_space v \<in> {[dquote], [squote]})"
proof (cases "trim_space l = [] \<or> hd (trim_space l) = CHR ''#''")
  case False
  obtain key value0 where s2: "split2 (CHR '':'') (trim_space (trim_space l)) = (key, value0)"
    by (cases "split2 (CHR '':'') (trim_space (trim_space l))")
  show ?thesis
  proof (cases value0)
    case (Some value1)
    let ?val = "trim_space (stripInlineYAMLComment (trim_space value1))"
    have "yaml_line l st = None \<longleftrightarrow> ?val \<noteq> [] \<and> parseValue ?val = None"
      using False s2 Some by (simp add: yaml_line_def Let_def split: prod.split option.split)
    also have "\<dots> \<longleftrightarrow> trim_space ?val \<in> {[dquote], [squote]}"
      by (auto simp only: parseValue_None_iff trim_space_Nil)
    finally show ?thesis using False s2 Some by (simp add: yaml_value_text_def Let_def)
  qed (use False s2 in \<open>simp add: yaml_line_def yaml_value_text_def Let_def split: prod.split\<close>)
qed (auto simp: yaml_line_def yaml_value_text_def)

lemma yaml_lines_None_iff:
  "yaml_lines ls st = None \<longleftrightarrow>
     (\<exists>l\<in>set ls. \<exists>v. yaml_value_text l = Some v \<and> trim_space v \<in> {[dquote], [squote]})"
proof (induction ls arbitrary: st)
  case (Cons l ls)
  then show ?case using yaml_line_None_iff [of l st]
    by (cases "yaml_line l st") (simp, simp del: insert_iff, blast)
qed simp

text \<open>
  C22: the YAML parser panics exactly on a lone quote.  \<open>yamlParse\<close> returns a map for every text
  without a line whose value, after its comment is removed, is a single quote character; on such a
  line the slice expression of \<open>parseValue\<close> is out of range.
\<close>

theorem yaml_panics_iff_lone_quote:
  "yamlParse text = None \<longleftrightarrow>
     (\<exists>l\<in>set (split_on newline text). \<exists>v. yaml_value_text l = Some v
        \<and> trim_space v \<in> {[dquote], [squote]})"
  by (simp only: yamlParse_def option.map_disc_iff yaml_lines_None_iff)

section \<open>Block documents\<close>

text \<open>
  A reference printer of nested maps in block style: two blanks of indentation per level, strings in
  double quotes.  It fixes what the parser is meant to read.
\<close>

fun yaml_scalar :: "any \<Rightarrow> string" where
  "yaml_scalar (AString s) = dquote # s @ [dquote]"
| "yaml_scalar (AInt i) = itoa (sint i)"
| "yaml_scalar (ABool b) = (if b then ''true'' else ''false'')"
| "yaml_scalar _ = ''null''"

text \<open>\<open>pr\<close> prints the scalars.\<close>

fun yaml_doc :: "(any \<Rightarrow> string) \<Rightarrow> nat \<Rightarrow> any gomap \<Rightarrow> string list" where
  "yaml_doc pr n [] = []"
| "yaml_doc pr n ((k, v) # m) =
     (case v of
        AMap sub \<Rightarrow> (replicate n (CHR '' '') @ k @ [CHR '':'']) # yaml_doc pr (n + 2) sub
      | _ \<Rightarrow> [replicate n (CHR '' '') @ k @ [CHR '':'', CHR '' ''] @ pr v]) @ yaml_doc pr n m"

definition yaml_text :: "(any \<Rightarrow> string) \<Rightarrow> any gomap \<Rightarrow> string" where
  "yaml_text pr m = concat (map (\<lambda>l. l @ [newline]) (yaml_doc pr 0 m))"

definition yaml_key :: "string \<Rightarrow> bool" where
  "yaml_key k \<longleftrightarrow> k \<noteq> [] \<and> plain_char (hd k) \<and> plain_char (last k)
     \<and> hd k \<notin> {CHR ''#'', dquote, squote} \<and> last k \<notin> {dquote, squote} \<and> CHR '':'' \<notin> set k \<and> newline \<notin> set k"

fun yaml_leaf :: "any \<Rightarrow> bool" where
  "yaml_leaf (AString s) \<longleftrightarrow> dquote \<notin> set s \<and> backslash \<notin> set s \<and> newline \<notin> set s"
| "yaml_leaf (AInt i) \<longleftrightarrow> True"
| "yaml_leaf (ABool b) \<longleftrightarrow> True"
| "yaml_leaf ANil \<longleftrightarrow> True"
| "yaml_leaf _ \<longleftrightarrow> False"

text \<open>Maps with readable keys and leaves at every level.\<close>

fun yaml_ok :: "(any \<Rightarrow> bool) \<Rightarrow> any gomap \<Rightarrow> bool" where
  "yaml_ok ok [] \<longleftrightarrow> True"
| "yaml_ok ok ((k, v) # m) \<longleftrightarrow> yaml_key k \<and> k \<notin> fst ` set m \<and> yaml_ok ok m
     \<and> (case v of AMap sub \<Rightarrow> yaml_ok ok sub | _ \<Rightarrow> ok v)"

subsection \<open>Scalars are read back\<close>

lemma strip_loop_plain:
  "set s \<inter> {dquote, squote, backslash, CHR ''#''} = {} \<Longrightarrow> strip_loop False False False s = s"
  by (induction s) auto

lemma strip_loop_quoted:
  "set s \<inter> {dquote, backslash} = {} \<Longrightarrow>
     strip_loop False True False (s @ [dquote]) = s @ [dquote]"
  by (induction s) auto

lemma itoa_set: "c \<in> set (itoa n) \<Longrightarrow> 45 \<le> byte c \<and> byte c \<le> 57"
  using itoa_chars [of c n] by (auto simp: is_digit_def byte_def)

lemma to_lower_itoa [simp]: "to_lower (itoa n) = itoa n"
  by (auto simp: to_lower_def to_lower_char_def is_upper_def dest!: itoa_set intro!: map_idI)

lemma itoa_not_word: "c \<in> set w \<Longrightarrow> 58 \<le> byte c \<or> byte c < 45 \<Longrightarrow> itoa n \<noteq> w"
  using itoa_set [of c n] by auto

lemma hd_itoa: "45 \<le> byte (hd (itoa n)) \<and> byte (hd (itoa n)) \<le> 57"
  using itoa_set [of "hd (itoa n)" n] by simp

lemma quoted_by_hd: "quoted_by q s \<Longrightarrow> s \<noteq> [] \<and> hd s = q"
  by (cases s) (auto simp: quoted_by_def has_prefix_def)

lemma parseValue_itoa: "parseValue (itoa (sint i)) = Some (AInt i)"
proof -
  have q: "\<not> quoted_by dquote (itoa (sint i))" "\<not> quoted_by squote (itoa (sint i))"
    using hd_itoa [of "sint i"] by (auto dest!: quoted_by_hd simp: byte_def)
  have w: "itoa (sint i) \<noteq> ''true''" "itoa (sint i) \<noteq> ''yes''" "itoa (sint i) \<noteq> ''on''"
    "itoa (sint i) \<noteq> ''false''" "itoa (sint i) \<noteq> ''no''" "itoa (sint i) \<noteq> ''off''"
    "itoa (sint i) \<noteq> ''null''" "itoa (sint i) \<noteq> [CHR 0x7E]"
    by (rule itoa_not_word [OF list.set_intros(1)], simp add: byte_def)+
  show ?thesis
    by (simp add: parseValue_def Let_def q w parse_number_def atoi_itoa)
qed

lemma quote_plain [simp]: "plain_char dquote" "plain_char squote" "plain_char (CHR '':'')"
  by (simp_all add: plain_char_def byte_def)

lemma parseValue_quoted: "parseValue (dquote # s @ [dquote]) = Some (AString s)"
proof -
  have "trim_space (dquote # s @ [dquote]) = dquote # s @ [dquote]"
    by (rule trim_space_plain) simp
  moreover have "quoted_by dquote (dquote # s @ [dquote])"
    by (simp add: quoted_by_def has_prefix_def has_suffix_def)
  ultimately show ?thesis by (simp add: parseValue_def inner_def)
qed

lemma to_lower_bool: "to_lower ''true'' = ''true''" "to_lower ''false'' = ''false''" "to_lower ''null'' = ''null''"
  by (code_simp, code_simp, code_simp)

lemma parseValue_words:
  "parseValue ''true'' = Some (ABool True)" "parseValue ''false'' = Some (ABool False)"
  "parseValue ''null'' = Some ANil"
  by (simp_all add: parseValue_def Let_def trim_space_plain plain_char_def byte_def quoted_by_def
      has_prefix_def to_lower_bool)

lemma yaml_scalar_parse: "yaml_leaf v \<Longrightarrow> parseValue (yaml_scalar v) = Some v"
  using parseValue_words by (cases v) (auto simp: parseValue_itoa parseValue_quoted)

lemma yaml_scalar_strip: "yaml_leaf v \<Longrightarrow> strip_loop False False False (yaml_scalar v) = yaml_scalar v"
proof (cases v)
  case (AInt i)
  then show ?thesis
    by (simp, intro strip_loop_plain) (auto dest!: itoa_set simp: byte_def)
qed (auto simp: strip_loop_quoted)

lemma yaml_scalar_ends: "yaml_leaf v \<Longrightarrow> yaml_scalar v \<noteq> [] \<and> plain_char (hd (yaml_scalar v)) \<and> plain_char (last (yaml_scalar v))"
  using itoa_plain [OF hd_in_set [OF itoa_nonempty]] itoa_plain [OF last_in_set [OF itoa_nonempty]]
  by (cases v) (auto simp: plain_char_def [of "CHR ''t''"] plain_char_def [of "CHR ''e''"]
      plain_char_def [of "CHR ''f''"] plain_char_def [of "CHR ''n''"] plain_char_def [of "CHR ''l''"] byte_def)

lemma yaml_scalar_newline: "yaml_leaf v \<Longrightarrow> newline \<notin> set (yaml_scalar v)"
proof (cases v)
  case (AInt i)
  then show ?thesis by (auto dest!: itoa_set simp: newline_def byte_def)
qed (auto simp: newline_def)

subsection \<open>One line\<close>

lemma indentation_line: "yaml_key k \<Longrightarrow> indentation (replicate n (CHR '' '') @ k @ s) = n"
proof -
  assume "yaml_key k"
  then obtain c k' where k: "k = c # k'" and c: "plain_char c" by (cases k) (simp_all add: yaml_key_def)
  have "c \<noteq> CHR '' ''" "c \<noteq> CHR 0x09" using c by (auto simp: plain_char_def byte_def)
  then show ?thesis by (simp add: k indentation_def takeWhile_append)
qed

lemma trim_key: "yaml_key k \<Longrightarrow> trim_space k = k" "yaml_key k \<Longrightarrow> trim_set {dquote, squote} k = k"
proof -
  assume k: "yaml_key k"
  then show "trim_space k = k" by (intro trim_space_plain) (simp add: yaml_key_def)
  have d: "s \<noteq> [] \<Longrightarrow> hd s \<notin> S \<Longrightarrow> dropWhile (\<lambda>c. c \<in> S) s = s" for s :: string and S
    by (cases s) auto
  have "dropWhile (\<lambda>c. c \<in> {dquote, squote}) k = k"
    by (rule d) (use k in \<open>auto simp: yaml_key_def\<close>)
  moreover have "dropWhile (\<lambda>c. c \<in> {dquote, squote}) (rev k) = rev k"
    by (rule d) (use k in \<open>auto simp: yaml_key_def hd_rev\<close>)
  ultimately show "trim_set {dquote, squote} k = k" by (simp only: trim_set_def rev_rev_ident)
qed

lemma trim_line:
  assumes "yaml_key k" and "s = [] \<or> plain_char (last s)"
  shows "trim_space (replicate n (CHR '' '') @ k @ CHR '':'' # s) = k @ CHR '':'' # s"
  using assms by (simp only: trim_space_blanks, intro trim_space_plain) (auto simp: yaml_key_def)

lemma yaml_line_node:
  assumes "yaml_key k"
    and "pop_blocks n (ys_indentStack st) (ys_mapStack st) (ys_current st) = (is, ms, cur)"
  shows "yaml_line (replicate n (CHR '' '') @ k @ [CHR '':'']) st
    = Some \<lparr>ys_result = update_at cur (mput k (AMap [])) (ys_result st), ys_current = cur @ [k],
            ys_mapStack = cur # ms, ys_indentStack = n # is\<rparr>"
proof -
  have t: "trim_space (replicate n (CHR '' '') @ k @ [CHR '':'']) = k @ [CHR '':'']"
    "trim_space (k @ [CHR '':'']) = k @ [CHR '':'']"
    using trim_line [OF assms(1), of "[]" n] trim_line [OF assms(1), of "[]" 0] by simp_all
  have h: "hd (k @ [CHR '':'']) \<noteq> CHR ''#''" and c: "CHR '':'' \<notin> set k"
    using assms(1) by (auto simp: yaml_key_def)
  show ?thesis
    by (simp add: yaml_line_def t h indentation_line [OF assms(1)] assms(2) Let_def
        split2_append [OF c] stripInlineYAMLComment_def trim_key [OF assms(1)])
qed

subsection \<open>Whole documents\<close>

lemma pop_blocks_again:
  "pop_blocks n is ms cur = (is', ms', cur') \<Longrightarrow> n' \<le> n \<Longrightarrow>
     pop_blocks n' is ms cur = pop_blocks n' is' ms' cur'"
  by (induction n "is" ms cur rule: pop_blocks.induct) (auto split: if_splits list.splits)

lemma mput_mput [simp]: "mput k v (mput k w m) = mput k v m"
  by (induction m) auto

lemma update_at_twice: "update_at ps f (update_at ps g m) = update_at ps (\<lambda>s. f (g s)) m"
  by (induction ps arbitrary: m) (simp_all add: submap_def)

lemma update_at_child:
  "update_at (ps @ [k]) f (update_at ps (mput k (AMap s)) m) = update_at ps (mput k (AMap (f s))) m"
  by (induction ps arbitrary: m) (simp_all add: submap_def)

lemma yaml_ok_wf: "yaml_ok ok m \<Longrightarrow> wf_map m"
  by (induction m) auto

lemma split_on_lines:
  "\<forall>l\<in>set ls. c \<notin> set l \<Longrightarrow> split_on c (concat (map (\<lambda>l. l @ [c]) ls)) = ls @ [[]]"
  by (induction ls) (simp_all add: split_on_append)

subsection \<open>What a printer of scalars promises\<close>

text \<open>
  The text of a scalar that the YAML parser reads back: one line that begins and ends with visible
  characters, loses nothing to comment stripping, and has the scalar as its value.
\<close>

locale scalar_text =
  fixes pr :: "any \<Rightarrow> string" and ok :: "any \<Rightarrow> bool"
  assumes reads: "ok v \<Longrightarrow> parseValue (pr v) = Some v"
    and strips: "ok v \<Longrightarrow> strip_loop False False False (pr v) = pr v"
    and ends: "ok v \<Longrightarrow> pr v \<noteq> [] \<and> plain_char (hd (pr v)) \<and> plain_char (last (pr v))"
    and no_newline: "ok v \<Longrightarrow> newline \<notin> set (pr v)"
begin

lemma yaml_line_leaf:
  assumes "yaml_key k" and "ok v"
    and "pop_blocks n (ys_indentStack st) (ys_mapStack st) (ys_current st) = (is, ms, cur)"
  shows "yaml_line (replicate n (CHR '' '') @ k @ [CHR '':'', CHR '' ''] @ pr v) st
    = Some \<lparr>ys_result = update_at cur (mput k v) (ys_result st), ys_current = cur,
            ys_mapStack = ms, ys_indentStack = is\<rparr>"
proof -
  let ?s = "pr v"
  note e = ends [OF assms(2)]
  have t: "trim_space (replicate n (CHR '' '') @ k @ CHR '':'' # CHR '' '' # ?s) = k @ CHR '':'' # CHR '' '' # ?s"
    "trim_space (k @ CHR '':'' # CHR '' '' # ?s) = k @ CHR '':'' # CHR '' '' # ?s"
    using trim_line [OF assms(1), of "CHR '' '' # ?s" n] trim_line [OF assms(1), of "CHR '' '' # ?s" 0] e
    by simp_all
  have v: "trim_space (CHR '' '' # ?s) = ?s" "trim_space ?s = ?s"
    using e by (simp_all add: trim_space_blank trim_space_plain)
  have h: "hd (k @ CHR '':'' # CHR '' '' # ?s) \<noteq> CHR ''#''" and c: "CHR '':'' \<notin> set k"
    using assms(1) by (auto simp: yaml_key_def)
  show ?thesis
    by (simp add: yaml_line_def t h v e indentation_line [OF assms(1)] assms(3) Let_def
        split2_append [OF c] stripInlineYAMLComment_def trim_key [OF assms(1)]
        strips [OF assms(2)] reads [OF assms(2)])
qed

lemma yaml_doc_lines:
  assumes "yaml_ok ok m"
    and "pop_blocks n (ys_indentStack st) (ys_mapStack st) (ys_current st) = (is, ms, cur)"
  shows "\<exists>st'. yaml_lines (yaml_doc pr n m @ ls) st = yaml_lines ls st'
     \<and> ys_result st' = (if m = [] then ys_result st else update_at cur (\<lambda>s. mput_all s m) (ys_result st))
     \<and> (\<forall>n'\<le>n. pop_blocks n' (ys_indentStack st') (ys_mapStack st') (ys_current st') = pop_blocks n' is ms cur)"
  using assms
proof (induction m arbitrary: n st "is" ms cur ls rule: leaves.induct)
  case 1
  then show ?case using pop_blocks_again by (intro exI [of _ st]) auto
next
  case (2 k v m)
  let ?entry = "case v of AMap sub \<Rightarrow> (replicate n (CHR '' '') @ k @ [CHR '':'']) # yaml_doc pr (n + 2) sub
      | _ \<Rightarrow> [replicate n (CHR '' '') @ k @ [CHR '':'', CHR '' ''] @ pr v]"
  have key: "yaml_key k" and okm: "yaml_ok ok m" using "2.prems"(1) by auto
  obtain st1 where st1: "yaml_lines (?entry @ yaml_doc pr n m @ ls) st = yaml_lines (yaml_doc pr n m @ ls) st1"
    "ys_result st1 = update_at cur (mput k v) (ys_result st)"
    "\<forall>n'\<le>n. pop_blocks n' (ys_indentStack st1) (ys_mapStack st1) (ys_current st1) = pop_blocks n' is ms cur"
  proof (cases "\<exists>sub. v = AMap sub")
    case True
    then obtain sub where v: "v = AMap sub" and oks: "yaml_ok ok sub" using "2.prems"(1) by auto
    let ?st0 = "\<lparr>ys_result = update_at cur (mput k (AMap [])) (ys_result st), ys_current = cur @ [k],
            ys_mapStack = cur # ms, ys_indentStack = n # is\<rparr>"
    have "pop_blocks (n + 2) (ys_indentStack ?st0) (ys_mapStack ?st0) (ys_current ?st0)
        = (n # is, cur # ms, cur @ [k])" by simp
    from "2.IH"(1) [OF v oks this, of "yaml_doc pr n m @ ls"] obtain st1 where
      st1: "yaml_lines (yaml_doc pr (n + 2) sub @ yaml_doc pr n m @ ls) ?st0 = yaml_lines (yaml_doc pr n m @ ls) st1"
      "ys_result st1 = (if sub = [] then ys_result ?st0
         else update_at (cur @ [k]) (\<lambda>s. mput_all s sub) (ys_result ?st0))"
      "\<forall>n'\<le>n + 2. pop_blocks n' (ys_indentStack st1) (ys_mapStack st1) (ys_current st1)
         = pop_blocks n' (n # is) (cur # ms) (cur @ [k])"
      by blast
    show thesis
    proof (rule that [of st1])
      show "yaml_lines (?entry @ yaml_doc pr n m @ ls) st = yaml_lines (yaml_doc pr n m @ ls) st1"
        using st1(1) yaml_line_node [OF key "2.prems"(2)] by (simp add: v)
      show "ys_result st1 = update_at cur (mput k v) (ys_result st)"
        using st1(2) mcopy_id [OF yaml_ok_wf [OF oks]]
        by (auto simp: v update_at_child mcopy_def split: if_splits)
      show "\<forall>n'\<le>n. pop_blocks n' (ys_indentStack st1) (ys_mapStack st1) (ys_current st1) = pop_blocks n' is ms cur"
        using st1(3) by simp
    qed
  next
    case False
    then have leaf: "ok v" and entry: "?entry = [replicate n (CHR '' '') @ k @ [CHR '':'', CHR '' ''] @ pr v]"
      using "2.prems"(1) by (auto split: any.splits)
    show thesis
      using pop_blocks_again [OF "2.prems"(2)] yaml_line_leaf [OF key leaf "2.prems"(2)]
      by (intro that [of "\<lparr>ys_result = update_at cur (mput k v) (ys_result st), ys_current = cur,
            ys_mapStack = ms, ys_indentStack = is\<rparr>"]) (simp_all only: entry, simp_all)
  qed
  have "pop_blocks n (ys_indentStack st1) (ys_mapStack st1) (ys_current st1) = (is, ms, cur)"
    using st1(3) pop_blocks_again [OF "2.prems"(2), of n] "2.prems"(2) by simp
  from "2.IH"(2) [OF okm this, of ls] obtain st2 where
    st2: "yaml_lines (yaml_doc pr n m @ ls) st1 = yaml_lines ls st2"
    "ys_result st2 = (if m = [] then ys_result st1 else update_at cur (\<lambda>s. mput_all s m) (ys_result st1))"
    "\<forall>n'\<le>n. pop_blocks n' (ys_indentStack st2) (ys_mapStack st2) (ys_current st2) = pop_blocks n' is ms cur"
    by blast
  have "ys_result st2 = update_at cur (\<lambda>s. mput_all s ((k, v) # m)) (ys_result st)"
    by (simp add: st2(2) st1(2) update_at_twice)
  moreover have "yaml_lines (yaml_doc pr n ((k, v) # m) @ ls) st = yaml_lines ls st2"
    using st1(1) st2(1) by simp
  ultimately show ?case using st2(3) by (intro exI [of _ st2]) simp
qed

lemma yaml_doc_newline: "yaml_ok ok m \<Longrightarrow> l \<in> set (yaml_doc pr n m) \<Longrightarrow> newline \<notin> set l"
proof (induction m arbitrary: n l rule: leaves.induct)
  case (2 k v m)
  have "newline \<notin> set k" "newline \<noteq> CHR '' ''" "newline \<noteq> CHR '':''"
    using "2.prems"(1) by (auto simp: yaml_key_def newline_def)
  moreover have "newline \<notin> set (pr v)" if "\<not> is_map v"
    using "2.prems"(1) that by (intro no_newline) (cases v, auto)
  ultimately show ?case using "2" by (cases v) auto
qed simp

lemma yaml_read_back:
  assumes "yaml_ok ok m"
  shows "yamlParse (yaml_text pr m) = Some m"
proof -
  have "split_on newline (yaml_text pr m) = yaml_doc pr 0 m @ [[]]"
    unfolding yaml_text_def by (rule split_on_lines) (use yaml_doc_newline [OF assms] in auto)
  moreover obtain st where "yaml_lines (yaml_doc pr 0 m @ [[]]) yaml_init = yaml_lines [[]] st"
    "ys_result st = (if m = [] then [] else mput_all [] m)"
    using yaml_doc_lines [OF assms, of 0 yaml_init "[]" "[]" "[]" "[[]]"] by (auto simp: yaml_init_def)
  moreover have "yaml_line [] st = Some st" by (simp add: yaml_line_def)
  ultimately show ?thesis
    using mcopy_id [OF yaml_ok_wf [OF assms]] by (auto simp: yamlParse_def mcopy_def split: if_splits)
qed

end

interpretation plain_yaml: scalar_text yaml_scalar yaml_leaf
  by unfold_locales
     (simp_all add: yaml_scalar_parse yaml_scalar_strip yaml_scalar_ends yaml_scalar_newline)

text \<open>
  C3: a block document is read back.  Printing a nested map in block style, with blanks for the
  nesting, strings in double quotes, and integers, booleans and null as words, and parsing the text
  gives the same map, at every depth and however deep blocks close.
\<close>

theorem yaml_roundtrip:
  assumes "yaml_ok yaml_leaf m"
  shows "yamlParse (yaml_text yaml_scalar m) = Some m"
  by (rule plain_yaml.yaml_read_back [OF assms])

theorem yaml_roundtrip_witness:
  "yamlParse (yaml_text yaml_scalar [(''db'', AMap [(''host'', AString ''a: #b''), (''pool'', AMap [(''size'', AInt 7)])]), (''debug'', ABool True)])
     = Some [(''db'', AMap [(''host'', AString ''a: #b''), (''pool'', AMap [(''size'', AInt 7)])]), (''debug'', ABool True)]"
  by (rule yaml_roundtrip) (simp add: yaml_key_def plain_char_def byte_def newline_def)

end
