(* ===== verification/Source.thy ===== *)
theory Source
  imports Parser
begin

text \<open>
  Package source (source/source.go): the file, environment, memory and remote sources, the
  polling file watcher, and the multi-source.

  What a source reads from outside is an argument or acts on the world \<open>'w\<close>: the file's
  contents, the environment, the fetcher, the clock.  A \<open>Load\<close> that panics is \<open>None\<close>.
\<close>

section \<open>Sources\<close>

record Base =
  base_name :: string
  base_priority :: int
  base_type :: SourceType

text \<open>The loop that wraps the flattened entries of a source into values.\<close>

fun wrap_values :: "SourceType \<Rightarrow> int \<Rightarrow> any gomap \<Rightarrow> data \<Rightarrow> data" where
  "wrap_values src pri [] result = result"
| "wrap_values src pri ((k, v) # m) result =
     wrap_values src pri m (mput k (NewValue v (inferType v) src pri) result)"

definition values_of :: "SourceType \<Rightarrow> int \<Rightarrow> any gomap \<Rightarrow> data" where
  "values_of src pri m = wrap_values src pri (Flatten m []) []"

subsection \<open>Files\<close>

record FileSource = Base +
  fs_path :: string
  fs_format :: Format

datatype FileOption = WithFilePriority int | WithFileFormat Format

fun apply_file_option :: "FileOption \<Rightarrow> FileSource \<Rightarrow> FileSource" where
  "apply_file_option (WithFilePriority p) f = f\<lparr>base_priority := p\<rparr>"
| "apply_file_option (WithFileFormat fmt) f = f\<lparr>fs_format := fmt\<rparr>"

definition NewFileSource :: "string \<Rightarrow> FileOption list \<Rightarrow> FileSource" where
  "NewFileSource path opts =
     (let f = fold apply_file_option opts
            \<lparr>base_name = ''file:'' @ path, base_priority = 10, base_type = SourceFile,
             fs_path = path, fs_format = FormatAuto\<rparr>
      in if fs_format f = FormatAuto then f\<lparr>fs_format := DetectFormat path\<rparr> else f)"

text \<open>\<open>read_file\<close> is \<open>os.ReadFile\<close> in the current world, \<open>decode\<close> the JSON decoder.\<close>

definition FileSource_Load ::
  "(string \<Rightarrow> goerror + json gomap option) \<Rightarrow> ('w \<Rightarrow> string \<Rightarrow> goerror + string) \<Rightarrow> FileSource \<Rightarrow> 'w
     \<Rightarrow> (goerror + nildata) option" where
  "FileSource_Load decode read_file f w =
     (case read_file w (fs_path f) of
        Inl err \<Rightarrow> Some (Inl (NewError ErrSourceError ''failed to read file'' [WithSource SourceFile, WithCause err]))
      | Inr text \<Rightarrow>
          (case Registry_Get (NewRegistry decode) (fs_format f) of
             Inl err \<Rightarrow> Some (Inl err)
           | Inr p \<Rightarrow>
               (case p text of
                  None \<Rightarrow> None
                | Some (Inl err) \<Rightarrow> Some (Inl err)
                | Some (Inr parsed) \<Rightarrow> Some (Inr (Some (values_of SourceFile (base_priority f) parsed))))))"

subsection \<open>The environment\<close>

definition defaultEnvTransform :: "string \<Rightarrow> string" where
  "defaultEnvTransform s = to_lower (replace_char (CHR ''_'') (CHR ''.'') s)"

definition parseEnvValue :: "string \<Rightarrow> any" where
  "parseEnvValue s =
     (if to_lower s \<in> {''true'', ''1'', ''yes'', ''on''} then ABool True
      else if to_lower s \<in> {''false'', ''0'', ''no'', ''off''} then ABool False
      else case atoi s of
        Some i \<Rightarrow> AInt (word_of_int i)
      | None \<Rightarrow> (case parse_float s of
            Some x \<Rightarrow> AFloat64 x
          | None \<Rightarrow> (case parse_duration s of Some d \<Rightarrow> ADuration (word_of_int d) | None \<Rightarrow> AString s)))"

record EnvSource = Base +
  es_prefix :: string
  es_transform :: "string \<Rightarrow> string"

datatype EnvOption = WithEnvPrefix string | WithEnvPriority int | WithEnvTransform "string \<Rightarrow> string"

fun apply_env_option :: "EnvOption \<Rightarrow> EnvSource \<Rightarrow> EnvSource" where
  "apply_env_option (WithEnvPrefix p) e = e\<lparr>es_prefix := p\<rparr>"
| "apply_env_option (WithEnvPriority p) e = e\<lparr>base_priority := p\<rparr>"
| "apply_env_option (WithEnvTransform f) e = e\<lparr>es_transform := f\<rparr>"

definition NewEnvSource :: "EnvOption list \<Rightarrow> EnvSource" where
  "NewEnvSource opts = fold apply_env_option opts
     \<lparr>base_name = ''env'', base_priority = 20, base_type = SourceEnv, es_prefix = [],
      es_transform = defaultEnvTransform\<rparr>"

fun env_loop :: "EnvSource \<Rightarrow> string list \<Rightarrow> data \<Rightarrow> data" where
  "env_loop e [] result = result"
| "env_loop e (env # environ) result =
     (case split2 (CHR ''='') env of
        (_, None) \<Rightarrow> env_loop e environ result
      | (key, Some val) \<Rightarrow>
          if es_prefix e \<noteq> [] \<and> \<not> has_prefix key (es_prefix e) then env_loop e environ result
          else let key' = drop (length (es_prefix e)) key; v = parseEnvValue val
               in env_loop e environ
                    (mput (es_transform e key') (NewValue v (inferType v) SourceEnv (base_priority e)) result))"

definition EnvSource_Load :: "('w \<Rightarrow> string list) \<Rightarrow> EnvSource \<Rightarrow> 'w loader" where
  "EnvSource_Load environ e w = (Inr (Some (env_loop e (environ w) [])), w)"

subsection \<open>Memory\<close>

record MemorySource = Base +
  ms_data :: "any gomap"

datatype MemoryOption = WithMemoryPriority int | WithMemoryData "any gomap"

fun apply_memory_option :: "MemoryOption \<Rightarrow> MemorySource \<Rightarrow> MemorySource" where
  "apply_memory_option (WithMemoryPriority p) m = m\<lparr>base_priority := p\<rparr>"
| "apply_memory_option (WithMemoryData d) m = m\<lparr>ms_data := d\<rparr>"

definition NewMemorySource :: "MemoryOption list \<Rightarrow> MemorySource" where
  "NewMemorySource opts = fold apply_memory_option opts
     \<lparr>base_name = ''memory'', base_priority = 30, base_type = SourceMemory, ms_data = []\<rparr>"

definition MemorySource_Load :: "MemorySource \<Rightarrow> 'w loader" where
  "MemorySource_Load m w = (Inr (Some (values_of SourceMemory (base_priority m) (ms_data m))), w)"

definition MemorySource_Set :: "string \<Rightarrow> any \<Rightarrow> MemorySource \<Rightarrow> MemorySource" where
  "MemorySource_Set k v m = m\<lparr>ms_data := mput k v (ms_data m)\<rparr>"

definition MemorySource_Delete :: "string \<Rightarrow> MemorySource \<Rightarrow> MemorySource" where
  "MemorySource_Delete k m = m\<lparr>ms_data := mdel k (ms_data m)\<rparr>"

subsection \<open>Remote endpoints\<close>

type_synonym 'w fetcher = "string \<Rightarrow> 'w \<Rightarrow> (goerror + any gomap option) \<times> 'w"

record 'w RemoteSource = Base +
  rs_endpoint :: string
  rs_fetcher :: "'w fetcher option"
  rs_cache :: nildata
  rs_cacheExpiry :: int
  rs_ttl :: i64

datatype 'w RemoteOption = WithRemotePriority int | WithRemoteTTL i64 | WithRemoteFetcher "'w fetcher option"

fun apply_remote_option :: "'w RemoteOption \<Rightarrow> 'w RemoteSource \<Rightarrow> 'w RemoteSource" where
  "apply_remote_option (WithRemotePriority p) r = r\<lparr>base_priority := p\<rparr>"
| "apply_remote_option (WithRemoteTTL t) r = r\<lparr>rs_ttl := t\<rparr>"
| "apply_remote_option (WithRemoteFetcher f) r = r\<lparr>rs_fetcher := f\<rparr>"

definition NewRemoteSource :: "string \<Rightarrow> 'w RemoteOption list \<Rightarrow> 'w RemoteSource" where
  "NewRemoteSource endpoint opts = fold apply_remote_option opts
     \<lparr>base_name = ''remote:'' @ endpoint, base_priority = 15, base_type = SourceRemote,
      rs_endpoint = endpoint, rs_fetcher = None, rs_cache = Some [], rs_cacheExpiry = 0,
      rs_ttl = 300000000000\<rparr>"

text \<open>\<open>now\<close> is the clock at the cache check, \<open>later\<close> the clock after the fetch.\<close>

definition RemoteSource_Load ::
  "int \<Rightarrow> int \<Rightarrow> 'w RemoteSource \<Rightarrow> 'w \<Rightarrow> (goerror + nildata) \<times> 'w RemoteSource \<times> 'w" where
  "RemoteSource_Load now later r w =
     (if rs_cacheExpiry r > now \<and> length (entries (rs_cache r)) > 0 then (Inr (rs_cache r), r, w)
      else case rs_fetcher r of
        None \<Rightarrow> (Inl (NewError ErrSourceError ''no fetcher configured'' []), r, w)
      | Some fetch \<Rightarrow>
          (case fetch (rs_endpoint r) w of
             (Inl err, w') \<Rightarrow>
               (Inl (NewError ErrSourceError ''failed to fetch remote config''
                       [WithSource SourceRemote, WithCause err]), r, w')
           | (Inr d, w') \<Rightarrow>
               let result = values_of SourceRemote (base_priority r) (entries d)
               in (Inr (Some result),
                   r\<lparr>rs_cache := Some result, rs_cacheExpiry := later + sint (rs_ttl r)\<rparr>, w')))"

definition InvalidateCache :: "'w RemoteSource \<Rightarrow> 'w RemoteSource" where
  "InvalidateCache r = r\<lparr>rs_cacheExpiry := 0\<rparr>"

subsection \<open>Several sources\<close>

definition MultiSource_Load :: "'w loader list \<Rightarrow> 'w \<Rightarrow> (goerror + data) \<times> 'w" where
  "MultiSource_Load sources w = load_sources sources [] w"

text \<open>\<open>Close\<close> of every source, in order; the last error is returned.\<close>

fun close_all :: "'w hook list \<Rightarrow> goerror option \<Rightarrow> 'w \<Rightarrow> goerror option \<times> 'w" where
  "close_all [] lastErr w = (lastErr, w)"
| "close_all (c # cs) lastErr w =
     (case c w of
        (Some err, w') \<Rightarrow> close_all cs (Some err) w'
      | (None, w') \<Rightarrow> close_all cs lastErr w')"

definition MultiSource_Close :: "'w hook list \<Rightarrow> 'w \<Rightarrow> goerror option \<times> 'w" where
  "MultiSource_Close cs w = close_all cs None w"

text \<open>
  \<open>ResolvePath\<close>; \<open>stat\<close> is a successful \<open>os.Stat\<close>, \<open>absolute\<close> is \<open>filepath.Abs\<close> and \<open>joined\<close> is
  \<open>filepath.Join\<close>.
\<close>

fun resolve_in :: "(string \<Rightarrow> bool) \<Rightarrow> (string \<Rightarrow> goerror + string) \<Rightarrow> (string \<Rightarrow> string \<Rightarrow> string) \<Rightarrow>
    string \<Rightarrow> string list \<Rightarrow> goerror + string" where
  "resolve_in stat absolute joined path [] =
     Inl (NewError ErrSourceError (''configuration file not found: '' @ path) [])"
| "resolve_in stat absolute joined path (loc # locs) =
     (if stat (joined loc path) then absolute (joined loc path) else resolve_in stat absolute joined path locs)"

definition ResolvePath :: "(string \<Rightarrow> bool) \<Rightarrow> (string \<Rightarrow> goerror + string) \<Rightarrow> (string \<Rightarrow> string \<Rightarrow> string) \<Rightarrow>
    string \<Rightarrow> goerror + string" where
  "ResolvePath stat absolute joined path =
     (if has_prefix path ''/'' then Inr path
      else if stat path then absolute path
      else resolve_in stat absolute joined path [''./config'', ''./configs'', ''/etc''])"

section \<open>The contract of a source\<close>

lemma wrap_values_wf [simp]: "wf_map result \<Longrightarrow> wf_map (wrap_values src pri m result)"
  by (induction src pri m result rule: wrap_values.induct) auto

lemma wrap_values_mput_all:
  "wrap_values src pri m result = mput_all result (map (\<lambda>(k, v). (k, NewValue v (inferType v) src pri)) m)"
  by (induction src pri m result rule: wrap_values.induct) auto

lemma values_of_map:
  "values_of src pri m = map (\<lambda>(k, v). (k, NewValue v (inferType v) src pri)) (Flatten m [])"
  using mcopy_id [of "map (\<lambda>(k, v). (k, NewValue v (inferType v) src pri)) (Flatten m [])"] wf_map_Flatten
  by (simp add: values_of_def wrap_values_mput_all mcopy_def)

lemma env_loop_inv:
  "wf_map result \<Longrightarrow> \<forall>(k, v)\<in>set result. \<exists>r. v = NewValue r (inferType r) SourceEnv (base_priority e) \<Longrightarrow>
     wf_map (env_loop e environ result)
     \<and> (\<forall>(k, v)\<in>set (env_loop e environ result). \<exists>r. v = NewValue r (inferType r) SourceEnv (base_priority e))"
proof (induction e environ result rule: env_loop.induct)
  case (2 e env environ result)
  obtain key rest where s: "split2 (CHR ''='') env = (key, rest)" by (cases "split2 (CHR ''='') env")
  show ?case
  proof (cases rest)
    case None
    then show ?thesis using 2(1) [OF s [symmetric] None] 2(4,5) s by simp
  next
    case (Some val)
    have upd: "\<forall>(k, v)\<in>set (mput k0 (NewValue r (inferType r) SourceEnv (base_priority e)) result).
        \<exists>r. v = NewValue r (inferType r) SourceEnv (base_priority e)" for k0 r
    proof (clarify)
      fix k v
      assume "(k, v) \<in> set (mput k0 (NewValue r (inferType r) SourceEnv (base_priority e)) result)"
      moreover have "wf_map (mput k0 (NewValue r (inferType r) SourceEnv (base_priority e)) result)"
        using 2(4) by simp
      ultimately have "mget (mput k0 (NewValue r (inferType r) SourceEnv (base_priority e)) result) k = Some v"
        by (simp add: wf_map_mget_iff del: mget_mput)
      then show "\<exists>r. v = NewValue r (inferType r) SourceEnv (base_priority e)"
        using 2(5) by (auto split: if_splits dest: map_of_SomeD)
    qed
    show ?thesis
    proof (cases "es_prefix e \<noteq> [] \<and> \<not> has_prefix key (es_prefix e)")
      case True
      then show ?thesis using 2(2) [OF s [symmetric] Some True] 2(4,5) s Some by simp
    next
      case False
      then have eq: "env_loop e (env # environ) result = env_loop e environ
          (mput (es_transform e (drop (length (es_prefix e)) key))
            (NewValue (parseEnvValue val) (inferType (parseEnvValue val)) SourceEnv (base_priority e)) result)"
        using s Some by (auto simp: Let_def)
      show ?thesis
        unfolding eq by (rule 2(3) [OF s [symmetric] Some False refl refl wf_map_mput [OF 2(4)] upd])
    qed
  qed
qed auto

text \<open>
  What the rest of the library relies on of a source's \<open>Load\<close>: a map with values that carry the
  source's type and priority, each with the type of its raw value recorded.
\<close>

locale config_source =
  fixes load :: "'w loader" and src :: SourceType and pri :: int
  assumes load_wf: "load w = (Inr d, w') \<Longrightarrow> wf_map (entries d)"
    and load_value: "load w = (Inr d, w') \<Longrightarrow> (k, v) \<in> set (entries d) \<Longrightarrow>
      \<exists>r. v = NewValue r (inferType r) src pri"
begin

lemma loaded_priority:
  "load w = (Inr d, w') \<Longrightarrow> mget (entries d) k = Some v \<Longrightarrow> vpriority v = pri \<and> vsource v = src"
  using load_value by (fastforce dest: map_of_SomeD)

text \<open>No accessor of a loaded value panics, and the one of its own type finds its value.\<close>

lemma loaded_accessors:
  assumes "load w = (Inr d, w')" and "mget (entries d) k = Some v"
  shows "Value_Int v \<noteq> None \<and> Value_Int64 v \<noteq> None \<and> Value_Float64 v \<noteq> None
    \<and> Value_Bool v \<noteq> None \<and> Value_Duration v \<noteq> None"
proof -
  obtain r where "v = NewValue r (inferType r) src pri"
    using load_value [OF assms(1)] assms(2) by (fastforce dest: map_of_SomeD)
  then show ?thesis by (cases r) (auto simp: accessor_defs)
qed

end

interpretation memory_source: config_source "MemorySource_Load m" SourceMemory "base_priority m"
  for m :: MemorySource
  by unfold_locales
     (auto simp: MemorySource_Load_def values_of_map wf_map_Flatten)

interpretation env_source: config_source "EnvSource_Load environ e" SourceEnv "base_priority e"
  for environ and e :: EnvSource
proof unfold_locales
  fix w w' :: 'a and d assume "EnvSource_Load environ e w = (Inr d, w')"
  then have d: "entries d = env_loop e (environ w) []" by (auto simp: EnvSource_Load_def)
  have inv: "wf_map (entries d)"
    "\<forall>(k, v)\<in>set (entries d). \<exists>r. v = NewValue r (inferType r) SourceEnv (base_priority e)"
    using env_loop_inv [of "[]" e "environ w"] by (simp_all add: d)
  show "wf_map (entries d)" by (rule inv)
  show "\<exists>r. v = NewValue r (inferType r) SourceEnv (base_priority e)" if "(k, v) \<in> set (entries d)" for k v
    using inv(2) that by blast
qed

text \<open>A file source whose parser does not panic on the file.\<close>

definition FileSource_loader ::
  "(string \<Rightarrow> goerror + json gomap option) \<Rightarrow> ('w \<Rightarrow> string \<Rightarrow> goerror + string) \<Rightarrow> FileSource \<Rightarrow> 'w loader" where
  "FileSource_loader decode read_file f w =
     (case FileSource_Load decode read_file f w of
        None \<Rightarrow> (Inl (PlainError ''panic''), w) | Some r \<Rightarrow> (r, w))"

interpretation file_source: config_source "FileSource_loader decode read_file f" SourceFile "base_priority f"
  for decode read_file and f :: FileSource
proof unfold_locales
  fix w d w' assume "FileSource_loader decode read_file f w = (Inr d, w')"
  then obtain parsed where d: "d = Some (values_of SourceFile (base_priority f) parsed)"
    by (auto simp: FileSource_loader_def FileSource_Load_def split: option.splits sum.splits)
  show "wf_map (entries d)" by (simp add: d values_of_map wf_map_Flatten)
  show "\<exists>r. v = NewValue r (inferType r) SourceFile (base_priority f)" if "(k, v) \<in> set (entries d)" for k v
    using that by (auto simp: d values_of_map)
qed

section \<open>Results\<close>

text \<open>
  What a source loads can be read back.  A value that the memory source delivers under a key
  is the flattened raw value with the source's priority; no accessor panics on it, and the
  nested view that an engine builds of the loaded map flattens to the source's own entries.
\<close>

theorem memory_source_readback:
  assumes "MemorySource_Load m w = (Inr d, w')"
  shows "(\<forall>k. map_option vraw (mget (entries d) k) = mget (Flatten (ms_data m) []) k)
    \<and> (\<forall>k v. mget (entries d) k = Some v \<longrightarrow>
         vpriority v = base_priority m \<and> vsource v = SourceMemory \<and> vtyp v = inferType (vraw v)
         \<and> Value_Int v \<noteq> None \<and> Value_Int64 v \<noteq> None \<and> Value_Float64 v \<noteq> None
         \<and> Value_Bool v \<noteq> None \<and> Value_Duration v \<noteq> None)"
proof -
  have d: "entries d = map (\<lambda>(k, v). (k, NewValue v (inferType v) SourceMemory (base_priority m)))
      (Flatten (ms_data m) [])"
    using assms by (auto simp: MemorySource_Load_def values_of_map)
  have "map_option vraw (mget (entries d) k) = mget (Flatten (ms_data m) []) k" for k
    unfolding d by (cases "mget (Flatten (ms_data m) []) k") (simp_all add: gomap_simps)
  moreover have "vtyp v = inferType (vraw v)" if "mget (entries d) k = Some v" for k v
    using memory_source.load_value [OF assms map_of_SomeD [OF that]] by auto
  ultimately show ?thesis
    using memory_source.loaded_priority [OF assms] memory_source.loaded_accessors [OF assms] by blast
qed

theorem memory_source_readback_witness:
  "map_option vraw (mget (entries (projr (fst (MemorySource_Load
      (MemorySource_Set ''db'' (AMap [(''port'', AInt 5432)]) (NewMemorySource [])) ())))) ''db.port'')
     = Some (AInt 5432)"
proof -
  let ?m = "MemorySource_Set ''db'' (AMap [(''port'', AInt 5432)]) (NewMemorySource [])"
  obtain d where d: "MemorySource_Load ?m () = (Inr d, ())" by (simp add: MemorySource_Load_def)
  have "mget (Flatten (ms_data ?m) []) ''db.port'' = Some (AInt 5432)"
    by (simp add: MemorySource_Set_def NewMemorySource_def Flatten_def prefixed_def)
  then show ?thesis using memory_source_readback [OF d] d by simp
qed

lemma itoa_words:
  "itoa n \<noteq> ''true'' \<and> itoa n \<noteq> ''yes'' \<and> itoa n \<noteq> ''on'' \<and> itoa n \<noteq> ''false'' \<and> itoa n \<noteq> ''no'' \<and> itoa n \<noteq> ''off''"
  "itoa n = ''1'' \<longleftrightarrow> n = 1" "itoa n = ''0'' \<longleftrightarrow> n = 0"
proof -
  have *: "parse_int (itoa n) = Some n" by (rule parse_int_itoa)
  have "parse_int ''true'' = None" "parse_int ''yes'' = None" "parse_int ''on'' = None"
    "parse_int ''false'' = None" "parse_int ''no'' = None" "parse_int ''off'' = None"
    by code_simp+
  then show "itoa n \<noteq> ''true'' \<and> itoa n \<noteq> ''yes'' \<and> itoa n \<noteq> ''on'' \<and> itoa n \<noteq> ''false'' \<and> itoa n \<noteq> ''no'' \<and> itoa n \<noteq> ''off''"
    using * by (metis option.distinct(1))
  have "parse_int ''1'' = Some 1" "parse_int ''0'' = Some 0" "itoa 1 = ''1''" "itoa 0 = ''0''" by code_simp+
  then show "itoa n = ''1'' \<longleftrightarrow> n = 1" "itoa n = ''0'' \<longleftrightarrow> n = 0" using * by (metis option.inject)+
qed

text \<open>
  An integer in an environment variable is read back as that integer, except that 0 and 1
  become booleans, so that the integer accessor finds nothing under such a key.
\<close>

theorem env_integer:
  assumes "fits_i64 n"
  shows "parseEnvValue (itoa n) = (if n = 1 then ABool True else if n = 0 then ABool False else AInt (word_of_int n))
    \<and> Value_Int (NewValue (parseEnvValue (itoa n)) (inferType (parseEnvValue (itoa n))) SourceEnv p)
      = Some (if n = 1 \<or> n = 0 then (0, False) else (word_of_int n, True))"
proof -
  have *: "parseEnvValue (itoa n) = (if n = 1 then ABool True else if n = 0 then ABool False else AInt (word_of_int n))"
    using itoa_words [of n] atoi_itoa [OF assms] by (simp add: parseEnvValue_def to_lower_itoa)
  show ?thesis unfolding * by (simp add: accessor_defs)
qed

theorem env_integer_witness:
  "parseEnvValue ''8080'' = AInt 8080 \<and> parseEnvValue ''1'' = ABool True"
proof -
  have "itoa 8080 = ''8080''" "itoa 1 = ''1''" by code_simp+
  then show ?thesis
    using env_integer [of 8080] env_integer [of 1] by (simp add: fits_i64_def min_i64_def max_i64_def)
qed

text \<open>
  The default priorities order the sources memory, environment, remote, file.  When a memory,
  an environment, a remote and a file source of default priority are loaded together, in any
  order, a key has the memory's value if it has one, otherwise the environment's, otherwise the
  remote one, otherwise the file's.
\<close>

theorem default_source_order:
  assumes "MemorySource_Load (NewMemorySource [WithMemoryData md]) w1 = (Inr mem, w1')"
    and "EnvSource_Load environ (NewEnvSource [WithEnvPrefix pre]) w2 = (Inr env, w2')"
    and "rem = Some (values_of SourceRemote (base_priority (NewRemoteSource url [] :: 'r RemoteSource)) rm)"
    and "FileSource_Load decode read_file (NewFileSource path []) w4 = Some (Inr file)"
    and "mset sources = mset [mem, env, rem, file]"
  shows "mget (entries (mergePriority sources)) k =
    (case mget (entries mem) k of Some v \<Rightarrow> Some v | None \<Rightarrow>
      (case mget (entries env) k of Some v \<Rightarrow> Some v | None \<Rightarrow>
        (case mget (entries rem) k of Some v \<Rightarrow> Some v | None \<Rightarrow> mget (entries file) k)))"
proof -
  let ?f = "NewFileSource path []"
  have f: "FileSource_loader decode read_file ?f w4 = (Inr file, w4)"
    using assms(4) by (simp add: FileSource_loader_def)
  have pf: "base_priority ?f = 10" by (simp add: NewFileSource_def Let_def)
  have pri: "\<And>v. mget (entries mem) k = Some v \<Longrightarrow> vpriority v = 30"
    "\<And>v. mget (entries env) k = Some v \<Longrightarrow> vpriority v = 20"
    "\<And>v. mget (entries file) k = Some v \<Longrightarrow> vpriority v = 10"
    using memory_source.loaded_priority [OF assms(1), of k] env_source.loaded_priority [OF assms(2), of k]
      file_source.loaded_priority [OF f, of k]
    by (auto simp: NewMemorySource_def NewEnvSource_def pf)
  have prr: "vpriority v = 15" if "mget (entries rem) k = Some v" for v
    using that by (auto simp: assms(3) values_of_map NewRemoteSource_def dest: map_of_SomeD)
  have wf: "\<forall>s\<in>set [mem, env, rem, file]. wf_map (entries s)"
    using memory_source.load_wf [OF assms(1)] env_source.load_wf [OF assms(2)] file_source.load_wf [OF f]
    by (simp add: assms(3) values_of_map wf_map_Flatten)
  have same: "set sources = set [mem, env, rem, file]" using assms(5) by (rule mset_eq_setD)
  have perm: "mset (candidates k (map entries sources)) = mset (candidates k (map entries [mem, env, rem, file]))"
  proof -
    have "candidates k ss = map the (filter (\<lambda>x. x \<noteq> None) (map (\<lambda>s. mget s k) ss))" for ss :: "data list"
      by (induction ss) (auto split: option.splits)
    then show ?thesis using assms(5) by (simp only: mset_map mset_filter)
  qed
  have "pick higher_priority (candidates k (map entries sources))
      = pick higher_priority (candidates k (map entries [mem, env, rem, file]))"
    by (rule priority_rule.pick_permute [OF perm])
       (use pri prr in \<open>auto simp: higher_priority_def split: option.splits\<close>)
  also have "\<dots> = (case mget (entries mem) k of Some v \<Rightarrow> Some v | None \<Rightarrow>
      (case mget (entries env) k of Some v \<Rightarrow> Some v | None \<Rightarrow>
        (case mget (entries rem) k of Some v \<Rightarrow> Some v | None \<Rightarrow> mget (entries file) k)))"
    by (cases "mget (entries mem) k"; cases "mget (entries env) k"; cases "mget (entries rem) k"; cases "mget (entries file) k")
       (simp_all add: best_of_def higher_priority_def pri prr)
  finally show ?thesis using wf same by (subst mget_strategy(1)) auto
qed

theorem default_source_order_witness:
  "mget (entries (mergePriority
      [Some (values_of SourceFile 10 [(''port'', AInt 1)]),
       Some (values_of SourceRemote 15 [(''port'', AInt 2)]),
       Some [], Some (values_of SourceMemory 30 [(''host'', AInt 3)])])) ''port''
     = Some (NewValue (AInt 2) TypeInt SourceRemote 15)"
proof -
  let ?decode = "\<lambda>_. Inl (PlainError ''no JSON'') :: goerror + json gomap option"
  let ?read = "\<lambda>_ _. Inr (yaml_text yaml_scalar [(''port'', AInt 1)]) :: goerror + string"
  have "yamlParse (yaml_text yaml_scalar [(''port'', AInt 1)]) = Some [(''port'', AInt 1)]"
    by (rule plain_yaml.yaml_read_back) (simp add: yaml_key_def plain_char_def byte_def newline_def)
  moreover have "DetectFormat ''c.yaml'' = FormatYAML" by code_simp
  ultimately have fl: "FileSource_Load ?decode ?read (NewFileSource ''c.yaml'' []) ()
      = Some (Inr (Some (values_of SourceFile 10 [(''port'', AInt 1)])))"
    by (simp add: FileSource_Load_def NewFileSource_def Registry_Get_def NewRegistry_def Register_def)
  have rem: "Some (values_of SourceRemote 15 [(''port'', AInt 2)])
      = Some (values_of SourceRemote (base_priority (NewRemoteSource [] [] :: unit RemoteSource)) [(''port'', AInt 2)])"
    by (simp add: NewRemoteSource_def)
  have mem: "MemorySource_Load (NewMemorySource [WithMemoryData [(''host'', AInt 3)]]) ()
      = (Inr (Some (values_of SourceMemory 30 [(''host'', AInt 3)])), ())"
    by (simp add: MemorySource_Load_def NewMemorySource_def)
  have env: "EnvSource_Load (\<lambda>_. []) (NewEnvSource [WithEnvPrefix []]) () = (Inr (Some []), ())"
    by (simp add: EnvSource_Load_def)
  show ?thesis
    by (subst default_source_order [OF mem env rem fl])
       (simp_all add: values_of_map Flatten_def prefixed_def)
qed

end
