(* ===== verification/Loader.thy ===== *)
theory Loader
  imports Source
begin

text \<open>
  Package loader (loader/loader.go): the loaders that combine sources one after another, lazily,
  concurrently, in a chain or behind a cache, and the pool of maps they share.

  The pool is the list of the maps in it.  A concurrent load is a function of what its loop
  receives: the sources' results in the order in which they arrive, or the end of the context.
\<close>

section \<open>The pool of maps\<close>

type_synonym pool = "data list"

definition getValueMap :: "pool \<Rightarrow> data \<times> pool" where
  "getValueMap p = (case p of [] \<Rightarrow> ([], []) | m # p' \<Rightarrow> (m, p'))"

fun clear_loop :: "string list \<Rightarrow> data \<Rightarrow> data" where
  "clear_loop [] m = m"
| "clear_loop (k # ks) m = clear_loop ks (mdel k m)"

definition putValueMap :: "data \<Rightarrow> pool \<Rightarrow> pool" where
  "putValueMap m p = clear_loop (mkeys m) m # p"

section \<open>The plain loader\<close>

text \<open>
  The loop of \<open>Load\<close>, which merges into the pooled map; on an error the map it has reached is
  the one that the deferred \<open>putValueMap\<close> returns to the pool.
\<close>

fun loader_loop :: "'w loader list \<Rightarrow> data \<Rightarrow> 'w \<Rightarrow> goerror option \<times> data \<times> 'w" where
  "loader_loop [] result w = (None, result, w)"
| "loader_loop (load # rest) result w =
     (case load w of
        (Inl err, w') \<Rightarrow> (Some err, result, w')
      | (Inr d, w') \<Rightarrow> loader_loop rest (merge_loop higher_priority result (entries d)) w')"

definition Loader_Load :: "'w loader list \<Rightarrow> pool \<Rightarrow> 'w \<Rightarrow> (goerror + nildata) \<times> pool \<times> 'w" where
  "Loader_Load sources p w =
     (let (m, p1) = getValueMap p;
          (err, result, w') = loader_loop sources m w
      in case err of
           Some e \<Rightarrow> (Inl e, putValueMap result p1, w')
         | None \<Rightarrow> (Inr (Some (mcopy result)), putValueMap result p1, w'))"

definition Loader_Close :: "'w hook list \<Rightarrow> 'w \<Rightarrow> goerror option \<times> 'w" where
  "Loader_Close cs w = close_all cs None w"

section \<open>The lazy loader\<close>

record LazyLoader =
  ll_data :: nildata
  ll_loaded :: bool
  ll_once :: bool
  ll_loadErr :: "goerror option"

definition NewLazy :: LazyLoader where
  "NewLazy = \<lparr>ll_data = Some [], ll_loaded = False, ll_once = False, ll_loadErr = None\<rparr>"

text \<open>\<open>load\<close> is the \<open>Load\<close> of the underlying loader.\<close>

definition LazyLoader_Load :: "'w loader \<Rightarrow> LazyLoader \<Rightarrow> 'w \<Rightarrow> (goerror + nildata) \<times> LazyLoader \<times> 'w" where
  "LazyLoader_Load load l w =
     (let (l', w') =
        (if ll_once l then (l, w)
         else case load w of
           (Inl err, w1) \<Rightarrow> (l\<lparr>ll_once := True, ll_loadErr := Some err\<rparr>, w1)
         | (Inr d, w1) \<Rightarrow> (l\<lparr>ll_once := True, ll_data := d, ll_loaded := True\<rparr>, w1))
      in case ll_loadErr l' of
           Some err \<Rightarrow> (Inl err, l', w')
         | None \<Rightarrow> (Inr (Some (mcopy (entries (ll_data l')))), l', w'))"

definition LazyLoader_Reload :: "'w loader \<Rightarrow> LazyLoader \<Rightarrow> 'w \<Rightarrow> goerror option \<times> LazyLoader \<times> 'w" where
  "LazyLoader_Reload load l w =
     (case load w of
        (Inl err, w') \<Rightarrow> (Some err, l, w')
      | (Inr d, w') \<Rightarrow> (None, l\<lparr>ll_data := d, ll_loaded := True\<rparr>, w'))"

section \<open>The concurrent loader\<close>

datatype arrival = ContextDone goerror | Result "goerror + nildata"

text \<open>\<open>None\<close>: the loop waits for ever, because nothing further arrives.\<close>

fun collect_loop :: "nat \<Rightarrow> arrival list \<Rightarrow> data \<Rightarrow> (goerror + data) option" where
  "collect_loop 0 arrivals final = Some (Inr final)"
| "collect_loop (Suc n) [] final = None"
| "collect_loop (Suc n) (a # arrivals) final =
     (case a of
        ContextDone err \<Rightarrow> Some (Inl err)
      | Result (Inl err) \<Rightarrow> Some (Inl err)
      | Result (Inr d) \<Rightarrow> collect_loop n arrivals (merge_loop higher_priority final (entries d)))"

text \<open>The number of sources, and what the loop receives.\<close>

definition ConcurrentLoader_Load :: "nat \<Rightarrow> arrival list \<Rightarrow> (goerror + data) option" where
  "ConcurrentLoader_Load n arrivals = (if n = 0 then Some (Inr []) else collect_loop n arrivals [])"

section \<open>The chained loader\<close>

fun chained_loop :: "'w loader list \<Rightarrow> data \<Rightarrow> 'w \<Rightarrow> (goerror + data) \<times> 'w" where
  "chained_loop [] result w = (Inr result, w)"
| "chained_loop (load # rest) result w =
     (case load w of
        (Inl err, w') \<Rightarrow> (Inl err, w')
      | (Inr d, w') \<Rightarrow> chained_loop rest (mput_all result (entries d)) w')"

definition ChainedLoader_Load :: "'w loader list \<Rightarrow> 'w \<Rightarrow> (goerror + data) \<times> 'w" where
  "ChainedLoader_Load loaders w = chained_loop loaders [] w"

section \<open>The cached loader\<close>

record CachedLoader =
  cl_cache :: nildata
  cl_cacheTime :: int
  cl_ttl :: i64

definition NewCached :: "i64 \<Rightarrow> CachedLoader" where
  "NewCached ttl = \<lparr>cl_cache = Some [], cl_cacheTime = 0, cl_ttl = ttl\<rparr>"

definition CachedLoader_Load ::
  "'w loader \<Rightarrow> int \<Rightarrow> int \<Rightarrow> CachedLoader \<Rightarrow> 'w \<Rightarrow> (goerror + nildata) \<times> CachedLoader \<times> 'w" where
  "CachedLoader_Load load now later l w =
     (if cl_cacheTime l + sint (cl_ttl l) > now \<and> length (entries (cl_cache l)) > 0
      then (Inr (Some (mcopy (entries (cl_cache l)))), l, w)
      else case load w of
        (Inl err, w') \<Rightarrow> (Inl err, l, w')
      | (Inr d, w') \<Rightarrow>
          (Inr (Some (mcopy (entries d))), l\<lparr>cl_cache := d, cl_cacheTime := later\<rparr>, w'))"

definition CachedLoader_Invalidate :: "CachedLoader \<Rightarrow> CachedLoader" where
  "CachedLoader_Invalidate l = l\<lparr>cl_cacheTime := 0\<rparr>"

section \<open>Sources, buffers and closing\<close>

text \<open>A loader is the list of its sources, in the order they were added.\<close>

definition NewLoader :: "'w loader list" where "NewLoader = []"

definition Loader_Add :: "'w loader \<Rightarrow> 'w loader list \<Rightarrow> 'w loader list" where
  "Loader_Add source sources = sources @ [source]"

definition LazyLoader_Add :: "'w loader \<Rightarrow> 'w loader list \<Rightarrow> 'w loader list" where
  "LazyLoader_Add source sources = Loader_Add source sources"

definition IsLoaded :: "LazyLoader \<Rightarrow> bool" where "IsLoaded l = ll_loaded l"

record 'w BufferedLoader =
  bl_sources :: "'w loader list"
  bl_bufferSize :: int

definition NewBuffered :: "int \<Rightarrow> 'w BufferedLoader" where
  "NewBuffered bufferSize = \<lparr>bl_sources = NewLoader, bl_bufferSize = bufferSize\<rparr>"

text \<open>The number of workers is kept but no code reads it.\<close>

record 'w ConcurrentLoader =
  cc_sources :: "'w loader list"
  cc_workers :: int

definition NewConcurrent :: "int \<Rightarrow> 'w ConcurrentLoader" where
  "NewConcurrent workers = \<lparr>cc_sources = [], cc_workers = (if workers \<le> 0 then 4 else workers)\<rparr>"

definition ConcurrentLoader_Add :: "'w loader \<Rightarrow> 'w ConcurrentLoader \<Rightarrow> 'w ConcurrentLoader" where
  "ConcurrentLoader_Add source l = l\<lparr>cc_sources := cc_sources l @ [source]\<rparr>"

definition ConcurrentLoader_Close :: "'w hook list \<Rightarrow> 'w \<Rightarrow> goerror option \<times> 'w" where
  "ConcurrentLoader_Close cs w = close_all cs None w"

definition NewChained :: "'w loader list" where "NewChained = []"

definition ChainedLoader_Add :: "'w loader \<Rightarrow> 'w loader list \<Rightarrow> 'w loader list" where
  "ChainedLoader_Add loader loaders = loaders @ [loader]"

definition CachedLoader_Close :: "'w hook \<Rightarrow> 'w \<Rightarrow> goerror option \<times> 'w" where
  "CachedLoader_Close close w = close w"

section \<open>The pool stays clean\<close>

lemma clear_loop_subset: "set (clear_loop ks m) \<subseteq> set m"
  by (induction ks m rule: clear_loop.induct) (auto simp: AList.delete_eq)

lemma clear_loop_keys: "fst ` set (clear_loop ks m) = fst ` set m - set ks"
  by (induction ks m rule: clear_loop.induct) (auto simp: AList.delete_eq image_iff)

lemma putValueMap_clean [simp]: "putValueMap m p = [] # p"
proof -
  have "fst ` set (clear_loop (mkeys m) m) = {}" by (simp add: clear_loop_keys)
  then show ?thesis by (simp add: putValueMap_def)
qed

lemma loader_loop_sources:
  "loader_loop sources r w =
     (case load_sources sources r w of
        (Inr d, w') \<Rightarrow> (None, d, w')
      | (Inl err, w') \<Rightarrow> (Some err, fst (snd (loader_loop sources r w)), w'))"
  by (induction sources r w rule: loader_loop.induct) (auto split: sum.splits prod.splits)

lemma load_sources_wf:
  "load_sources sources r w = (Inr d, w') \<Longrightarrow> wf_map r \<Longrightarrow> wf_map d"
  by (induction sources r w rule: load_sources.induct) (auto split: sum.splits prod.splits)

lemma Loader_Load_eq:
  assumes "\<forall>m\<in>set p. m = []"
  shows "(case Loader_Load sources p w of (r, p', w') \<Rightarrow>
      (\<forall>m\<in>set p'. m = [])
      \<and> load_sources sources [] w = (case r of Inl e \<Rightarrow> Inl e | Inr d \<Rightarrow> Inr (entries d), w')
      \<and> r \<noteq> Inr None)"
proof -
  have g: "fst (getValueMap p) = []" "set (snd (getValueMap p)) \<subseteq> set p"
    using assms by (cases p; auto simp: getValueMap_def)+
  obtain e r' w' where ll: "loader_loop sources [] w = (e, r', w')" by (cases "loader_loop sources [] w")
  have s: "load_sources sources [] w = (case e of Some err \<Rightarrow> Inl err | None \<Rightarrow> Inr r', w')"
    using loader_loop_sources [of sources "[]" w] unfolding ll by (auto split: prod.splits sum.splits)
  have "wf_map r'" if "e = None" using s that load_sources_wf [of sources "[]" w r' w'] by simp
  then show ?thesis
    using g ll s assms by (cases "getValueMap p") (auto simp: Loader_Load_def Let_def split: option.splits)
qed

lemma collect_results:
  "collect_loop (length ds) (map (\<lambda>d. Result (Inr d)) ds @ further) final
     = Some (Inr (foldl (merge_loop higher_priority) final (map entries ds)))"
  by (induction ds arbitrary: final) auto

section \<open>Runs of the cached loader\<close>

text \<open>
  The successful loads of the underlying source, newest first, with the time at which the result
  was put into the cache.
\<close>

inductive cached_run :: "'w loader \<Rightarrow> (int \<times> nildata) list \<Rightarrow> CachedLoader \<Rightarrow> 'w \<Rightarrow> bool" for load where
  start: "cached_run load [] (NewCached ttl) w"
| world: "cached_run load log l w \<Longrightarrow> cached_run load log l w'"
| hit: "cached_run load log l w \<Longrightarrow> CachedLoader_Load load now later l w = (r, l, w) \<Longrightarrow> cached_run load log l w"
| miss: "cached_run load log l w \<Longrightarrow> load w = (Inr d, w') \<Longrightarrow>
    CachedLoader_Load load now later l w = (r, l', w') \<Longrightarrow> l' = l\<lparr>cl_cache := d, cl_cacheTime := later\<rparr> \<Longrightarrow>
    cached_run load ((later, d) # log) l' w'"
| failed: "cached_run load log l w \<Longrightarrow> load w = (Inl err, w') \<Longrightarrow>
    CachedLoader_Load load now later l w = (Inl err, l, w') \<Longrightarrow> cached_run load log l w'"
| invalidate: "cached_run load log l w \<Longrightarrow> cached_run load log (CachedLoader_Invalidate l) w"

lemma cached_run_cache:
  "cached_run load log l w \<Longrightarrow>
     (case log of
        [] \<Rightarrow> cl_cache l = Some []
      | (t, d) # _ \<Rightarrow> cl_cache l = d \<and> (cl_cacheTime l = t \<or> cl_cacheTime l = 0))"
  by (induction rule: cached_run.induct)
     (auto simp: NewCached_def CachedLoader_Invalidate_def split: list.splits)

section \<open>Results\<close>



text \<open>
  The concurrent loader agrees with the sequential one when no two sources tie.  If every
  source succeeds and no key has different values of equal priority, then in whatever order the
  results arrive the loader returns a map with the lookups of the sequential priority merge.
\<close>

theorem concurrent_load_deterministic:
  assumes "mset ds' = mset ds" and "\<forall>d\<in>set ds. wf_map (entries d)"
    and "\<forall>d\<in>set ds. \<forall>d'\<in>set ds. \<forall>k v v'. mget (entries d) k = Some v \<longrightarrow> mget (entries d') k = Some v' \<longrightarrow>
      v \<noteq> v' \<longrightarrow> vpriority v \<noteq> vpriority v'"
  shows "\<exists>m. ConcurrentLoader_Load (length ds) (map (\<lambda>d. Result (Inr d)) ds' @ further) = Some (Inr m)
    \<and> map_of m = map_of (merge_all higher_priority (map entries ds))"
proof -
  have len: "length ds' = length ds" and same: "set ds' = set ds"
    using assms(1) mset_eq_length mset_eq_setD by metis+
  have "ConcurrentLoader_Load (length ds) (map (\<lambda>d. Result (Inr d)) ds' @ further)
      = Some (Inr (merge_all higher_priority (map entries ds')))"
    using collect_results [of ds' further "[]"] len by (auto simp: ConcurrentLoader_Load_def merge_all_def)
  moreover have "map_of (merge_all higher_priority (map entries ds')) = map_of (merge_all higher_priority (map entries ds))"
  proof (rule merge_all_permute)
    show "mset (map entries ds') = mset (map entries ds)" by (simp only: mset_map assms(1))
    show "\<forall>s\<in>set (map entries ds'). wf_map s" using assms(2) same by auto
    fix s t :: data and k v w
    assume "s \<in> set (map entries ds')" "t \<in> set (map entries ds')"
    then obtain d d' where "d \<in> set ds" "d' \<in> set ds" "s = entries d" "t = entries d'"
      using same by auto
    moreover assume "mget s k = Some v" "mget t k = Some w" "v \<noteq> w"
    ultimately show "vpriority v \<noteq> vpriority w" using assms(3) by blast
  qed
  ultimately show ?thesis by blast
qed

theorem concurrent_load_deterministic_witness:
  "\<exists>m. ConcurrentLoader_Load 2 [Result (Inr (Some [(''host'', high_host)])), Result (Inr (Some [(''host'', low_host)]))]
        = Some (Inr m) \<and> mget m ''host'' = Some high_host"
proof -
  let ?ds = "[Some [(''host'', low_host)], Some [(''host'', high_host)]]"
  let ?ds' = "[Some [(''host'', high_host)], Some [(''host'', low_host)]]"
  have "mset ?ds' = mset ?ds" by simp
  moreover have "\<forall>d\<in>set ?ds. wf_map (entries d)" by simp
  moreover have "\<forall>d\<in>set ?ds. \<forall>d'\<in>set ?ds. \<forall>k v v'. mget (entries d) k = Some v \<longrightarrow>
      mget (entries d') k = Some v' \<longrightarrow> v \<noteq> v' \<longrightarrow> vpriority v \<noteq> vpriority v'"
    by (auto simp: low_host_def high_host_def)
  ultimately obtain m where "ConcurrentLoader_Load (length ?ds) (map (\<lambda>d. Result (Inr d)) ?ds' @ []) = Some (Inr m)"
    "map_of m = map_of (merge_all higher_priority (map entries ?ds))"
    using concurrent_load_deterministic [of ?ds' ?ds "[]"] by blast
  then show ?thesis
    by (intro exI [of _ m])
      (simp add: merge_all_def higher_priority_def low_host_def high_host_def numeral_2_eq_2)
qed

text \<open>
  With ties the result depends on the schedule: two sources of equal priority, and the same
  configuration comes out differently for the two orders of arrival.
\<close>

theorem concurrent_load_race:
  "\<exists>a b k m m'. vpriority a = vpriority b
     \<and> ConcurrentLoader_Load 2 [Result (Inr (Some [(k, a)])), Result (Inr (Some [(k, b)]))] = Some (Inr m)
     \<and> ConcurrentLoader_Load 2 [Result (Inr (Some [(k, b)])), Result (Inr (Some [(k, a)]))] = Some (Inr m')
     \<and> mget m k \<noteq> mget m' k"
  by (rule exI [of _ high_host], rule exI [of _ "high_host\<lparr>vraw := AString ''c''\<rparr>"], rule exI [of _ "''host''"])
     (simp add: ConcurrentLoader_Load_def higher_priority_def high_host_def NewValue_def numeral_2_eq_2)

text \<open>
  The lazy loader loads once.  After its first \<open>Load\<close>, whatever the outcome, every further
  \<open>Load\<close> returns the same and does not ask the sources again.
\<close>

theorem lazy_loads_once:
  assumes "LazyLoader_Load load NewLazy w = (r, l, w')"
  shows "LazyLoader_Load load l w'' = (r, l, w'')"
  using assms
  by (auto simp: LazyLoader_Load_def NewLazy_def Let_def split: sum.splits prod.splits)

theorem lazy_loads_once_witness:
  "fst (LazyLoader_Load (sample_load [(''host'', low_host)])
     (fst (snd (LazyLoader_Load (sample_load [(''host'', low_host)]) NewLazy 0))) 7)
   = Inr (Some [(''host'', low_host)])"
proof -
  obtain l where l: "LazyLoader_Load (sample_load [(''host'', low_host)]) NewLazy 0
      = (Inr (Some [(''host'', low_host)]), l, 0)"
    by (simp add: LazyLoader_Load_def NewLazy_def sample_load_def mcopy_def)
  show ?thesis using lazy_loads_once [OF l, of 7] by (simp add: l)
qed

text \<open>
  A failed first load sticks.  After it \<open>Reload\<close> can succeed, store the new data and report
  no error, and \<open>Load\<close> still returns the error of the first attempt.
\<close>

theorem lazy_reload_keeps_error:
  assumes "LazyLoader_Load load NewLazy w = (Inl err, l, w1)" and "load w2 = (Inr d, w3)"
  shows "\<exists>l'. LazyLoader_Reload load l w2 = (None, l', w3) \<and> ll_loaded l' \<and> ll_data l' = d
    \<and> fst (LazyLoader_Load load l' w4) = Inl err"
  using assms
  by (auto simp: LazyLoader_Load_def LazyLoader_Reload_def NewLazy_def Let_def split: sum.splits prod.splits)

definition flaky_load :: "nat loader" where
  "flaky_load w = (if w = 0 then Inl (PlainError ''down'') else Inr (Some []), w + 1)"

theorem lazy_reload_keeps_error_witness:
  "\<exists>l l'. LazyLoader_Load flaky_load NewLazy 0 = (Inl (PlainError ''down''), l, 1)
     \<and> LazyLoader_Reload flaky_load l 1 = (None, l', 2)
     \<and> fst (LazyLoader_Load flaky_load l' 2) = Inl (PlainError ''down'')"
proof -
  obtain l where l: "LazyLoader_Load flaky_load NewLazy 0 = (Inl (PlainError ''down''), l, 1)"
    by (simp add: LazyLoader_Load_def NewLazy_def flaky_load_def)
  have "flaky_load 1 = (Inr (Some []), 2)" by (simp add: flaky_load_def)
  from lazy_reload_keeps_error [OF l this] show ?thesis using l by blast
qed

text \<open>
  The chained loader is the merge by the last strategy: a key has the value of the last
  source that has it, whatever the priorities.
\<close>

theorem chained_load_is_mergeLast:
  assumes "ChainedLoader_Load loaders w = (Inr m, w')"
    and "\<forall>l\<in>set loaders. \<forall>w d w'. l w = (Inr d, w') \<longrightarrow> wf_map (entries d)"
  shows "\<exists>ds. loads loaders w ds w' \<and> map_of m = map_of (entries (mergeLast ds))"
proof -
  have "chained_loop loaders acc w = (Inr m, w') \<Longrightarrow> \<exists>ds. loads loaders w ds w' \<and> m = foldl mput_all acc (map entries ds)"
    for acc w
  proof (induction loaders acc w rule: chained_loop.induct)
    case (2 load rest result w)
    then obtain d w1 where l: "load w = (Inr d, w1)"
      by (auto split: sum.splits prod.splits)
    with 2 obtain ds where "loads rest w1 ds w'" "m = foldl mput_all (mput_all result (entries d)) (map entries ds)"
      by fastforce
    with l show ?case by (intro exI [of _ "d # ds"]) (auto intro: loads.Cons)
  qed simp
  then obtain ds where ds: "loads loaders w ds w'" "m = foldl mput_all [] (map entries ds)"
    using assms(1) by (auto simp: ChainedLoader_Load_def)
  have wf: "\<forall>d\<in>set ds. wf_map (entries d)" using loads_wf [OF ds(1) assms(2)] .
  have "mget m k = mget (entries (mergeLast ds)) k" for k
    using wf by (simp add: ds(2) foldl_mput_all mget_merge_all mget_strategy(3))
  then show ?thesis using ds(1) by blast
qed

theorem chained_load_is_mergeLast_witness:
  "\<exists>m w'. ChainedLoader_Load [sample_load [(''host'', high_host)], sample_load [(''host'', low_host)]] 0 = (Inr m, w')
     \<and> mget m ''host'' = Some low_host"
proof -
  let ?ls = "[sample_load [(''host'', high_host)], sample_load [(''host'', low_host)]]"
  obtain m where m: "ChainedLoader_Load ?ls 0 = (Inr m, 0)"
    by (simp add: ChainedLoader_Load_def sample_load_def)
  have "\<forall>l\<in>set ?ls. \<forall>w d w'. l w = (Inr d, w') \<longrightarrow> wf_map (entries d)" by (auto simp: sample_load_def)
  from chained_load_is_mergeLast [OF m this] obtain ds where
    "loads ?ls 0 ds 0" "map_of m = map_of (entries (mergeLast ds))" by blast
  then show ?thesis using m by (auto simp: loads_Cons sample_load_def mergeLast_def)
qed

text \<open>
  The cache is never stale beyond its time to live.  In every run of a cached loader a
  successful \<open>Load\<close> at time \<open>now\<close>, later than the zero time by the time to live, either has just loaded its result from the source, or returns
  the content of the most recent load, which was made less than the time to live before, and
  leaves the world alone.  Loading an empty configuration is never cached.
\<close>

theorem cached_load_fresh:
  assumes "cached_run load log l w" and "CachedLoader_Load load now later l w = (Inr r, l', w')"
    and "sint (cl_ttl l) \<le> now"
  shows "(\<exists>d. load w = (Inr d, w') \<and> r = Some (mcopy (entries d)))
    \<or> (\<exists>t d log'. log = (t, d) # log' \<and> now < t + sint (cl_ttl l) \<and> r = Some (mcopy (entries d))
         \<and> entries d \<noteq> [] \<and> l' = l \<and> w' = w)"
proof (cases "cl_cacheTime l + sint (cl_ttl l) > now \<and> length (entries (cl_cache l)) > 0")
  case True
  then have r: "r = Some (mcopy (entries (cl_cache l)))" "l' = l" "w' = w"
    using assms(2) by (auto simp: CachedLoader_Load_def)
  obtain t d log' where log: "log = (t, d) # log'"
    using cached_run_cache [OF assms(1)] True by (cases log) auto
  then have "cl_cache l = d" "cl_cacheTime l = t"
    using cached_run_cache [OF assms(1)] assms(3) True by auto
  then show ?thesis using True r log by auto
next
  case False
  then show ?thesis using assms(2) by (auto simp: CachedLoader_Load_def split: sum.splits prod.splits)
qed

theorem cached_load_fresh_witness:
  "\<exists>l. cached_run (sample_load [(''host'', low_host)]) [(100, Some [(''host'', low_host)])] l 0
     \<and> fst (CachedLoader_Load (sample_load [(''host'', low_host)]) 105 106 l 0) = Inr (Some [(''host'', low_host)])"
proof -
  let ?load = "sample_load [(''host'', low_host)]" and ?d = "Some [(''host'', low_host)]"
  let ?l = "NewCached 10\<lparr>cl_cache := ?d, cl_cacheTime := 100\<rparr>"
  have run: "cached_run ?load [(100, ?d)] ?l 0"
    by (rule cached_run.miss [OF cached_run.start [of _ 10], where now = 99 and r = "Inr ?d" and ?w'.0 = 0])
       (simp_all add: sample_load_def CachedLoader_Load_def NewCached_def mcopy_def)
  obtain r l' w' where c: "CachedLoader_Load ?load 105 106 ?l 0 = (Inr r, l', w')"
    by (simp add: CachedLoader_Load_def NewCached_def)
  have "r = Some (mcopy (entries ?d))"
    using cached_load_fresh [OF run c] by (auto simp: NewCached_def sample_load_def)
  then show ?thesis using run c by (intro exI [of _ ?l]) (simp add: mcopy_def)
qed

end
