(* ===== verification/Snapshot.thy ===== *)
theory Snapshot
  imports Engine
begin

text \<open>
  Package snapshot (snapshot/snapshot.go): the bounded list of snapshots with its binary
  searches, the difference of two snapshots, the checksum, and the in-memory store.

  Times are integers, nanoseconds since Go's zero time, which is 0.  A nil pointer
  dereference or a comparison of uncomparable values is a panic, the value \<open>None\<close>.
\<close>

section \<open>Snapshots\<close>

type_synonym u8 = "8 word"

record Metadata =
  md_source :: string
  md_version :: u64
  md_tags :: "string gomap option"
  md_createdby :: string

record Snapshot =
  sn_id :: u64
  sn_data :: nildata
  sn_timestamp :: int
  sn_metadata :: "Metadata option"
  sn_checksum :: "u8 list"

definition Snapshot_Data :: "Snapshot \<Rightarrow> data" where
  "Snapshot_Data s = mcopy (entries (sn_data s))"

definition Snapshot_Get :: "Snapshot \<Rightarrow> string \<Rightarrow> Value \<times> bool" where
  "Snapshot_Get s k =
     (case mget (entries (sn_data s)) k of None \<Rightarrow> (zero_Value, False) | Some v \<Rightarrow> (v, True))"

definition flattenData :: "data \<Rightarrow> any gomap" where
  "flattenData d = mput_all [] (raws d)"

text \<open>\<open>encode\<close> is \<open>json.Marshal\<close> on the struct of these fields.\<close>

definition Snapshot_MarshalJSON ::
  "(u64 \<times> int \<times> any gomap \<times> Metadata option \<Rightarrow> goerror + string) \<Rightarrow> Snapshot \<Rightarrow> goerror + string" where
  "Snapshot_MarshalJSON encode s =
     encode (sn_id s, sn_timestamp s, flattenData (entries (sn_data s)), sn_metadata s)"

text \<open>The inner loops of \<open>computeChecksum\<close>: XOR the bytes in, at an offset, round the array.\<close>

fun xor_bytes :: "nat \<Rightarrow> nat \<Rightarrow> string \<Rightarrow> u8 list \<Rightarrow> u8 list" where
  "xor_bytes off i [] acc = acc"
| "xor_bytes off i (c # cs) acc =
     (let j = (i + off) mod 16
      in xor_bytes off (Suc i) cs (acc[j := xor (acc ! j) (word_of_nat (of_char c))]))"

definition checksum_entry :: "string \<times> Value \<Rightarrow> u8 list \<Rightarrow> u8 list" where
  "checksum_entry kv acc =
     (let acc' = xor_bytes 0 0 (fst kv) acc
      in case vraw (snd kv) of AString s \<Rightarrow> xor_bytes 8 0 s acc' | _ \<Rightarrow> acc')"

definition computeChecksum :: "data \<Rightarrow> u8 list" where
  "computeChecksum d = fold checksum_entry d (replicate 16 0)"

section \<open>The manager\<close>

record Manager =
  mg_snapshots :: "Snapshot list"
  mg_maxSize :: int
  mg_nextID :: u64

definition NewManager :: "int \<Rightarrow> Manager" where
  "NewManager maxSize =
     \<lparr>mg_snapshots = [], mg_maxSize = (if maxSize \<le> 0 then 100 else maxSize), mg_nextID = 0\<rparr>"

datatype SnapshotOption = WithMetadata "Metadata option" | WithSource string | WithTags "string gomap"

fun apply_snapshot_option :: "SnapshotOption \<Rightarrow> Snapshot \<Rightarrow> Snapshot option" where
  "apply_snapshot_option (WithMetadata md) s = Some (s\<lparr>sn_metadata := md\<rparr>)"
| "apply_snapshot_option (WithSource src) s =
     (case sn_metadata s of None \<Rightarrow> None | Some md \<Rightarrow> Some (s\<lparr>sn_metadata := Some (md\<lparr>md_source := src\<rparr>)\<rparr>))"
| "apply_snapshot_option (WithTags tags) s =
     (case sn_metadata s of
        None \<Rightarrow> None
      | Some md \<Rightarrow> Some (s\<lparr>sn_metadata := Some (md\<lparr>md_tags := Some (mput_all (entries (md_tags md)) tags)\<rparr>)\<rparr>))"

fun apply_snapshot_options :: "SnapshotOption list \<Rightarrow> Snapshot \<Rightarrow> Snapshot option" where
  "apply_snapshot_options [] s = Some s"
| "apply_snapshot_options (p # ps) s =
     (case apply_snapshot_option p s of None \<Rightarrow> None | Some s' \<Rightarrow> apply_snapshot_options ps s')"

definition Take :: "int \<Rightarrow> nildata \<Rightarrow> SnapshotOption list \<Rightarrow> Manager \<Rightarrow> (Snapshot \<times> Manager) option" where
  "Take now d opts m =
     (let i = mg_nextID m + 1;
          s = \<lparr>sn_id = i, sn_data = d, sn_timestamp = now,
               sn_metadata = Some \<lparr>md_source = [], md_version = i, md_tags = None, md_createdby = []\<rparr>,
               sn_checksum = computeChecksum (entries d)\<rparr>
      in case apply_snapshot_options opts s of
           None \<Rightarrow> None
         | Some s' \<Rightarrow>
             let snaps = mg_snapshots m @ [s'];
                 snaps' = (if int (length snaps) > mg_maxSize m then tl snaps else snaps)
             in Some (s', m\<lparr>mg_nextID := i, mg_snapshots := snaps'\<rparr>))"

function get_loop :: "Snapshot list \<Rightarrow> u64 \<Rightarrow> int \<Rightarrow> int \<Rightarrow> Snapshot option" where
  "get_loop snaps i left right =
     (if left \<le> right then
        let mid = (left + right) div 2; s = snaps ! nat mid
        in if sn_id s = i then Some s
           else if sn_id s < i then get_loop snaps i (mid + 1) right
           else get_loop snaps i left (mid - 1)
      else None)"
  by pat_completeness auto
termination by (relation "measure (\<lambda>(_, _, l, r). nat (r - l + 1))") auto

declare get_loop.simps [simp del]

definition Manager_Get :: "Manager \<Rightarrow> u64 \<Rightarrow> Snapshot option" where
  "Manager_Get m i = get_loop (mg_snapshots m) i 0 (int (length (mg_snapshots m)) - 1)"

definition Latest :: "Manager \<Rightarrow> Snapshot option" where
  "Latest m = (if mg_snapshots m = [] then None
     else Some (mg_snapshots m ! (length (mg_snapshots m) - 1)))"

function at_loop :: "Snapshot list \<Rightarrow> int \<Rightarrow> int \<Rightarrow> int \<Rightarrow> int" where
  "at_loop snaps t left right =
     (if left < right then
        let mid = (left + right + 1) div 2
        in if sn_timestamp (snaps ! nat mid) > t then at_loop snaps t left (mid - 1)
           else at_loop snaps t mid right
      else left)"
  by pat_completeness auto
termination by (relation "measure (\<lambda>(_, _, l, r). nat (r - l))") auto

declare at_loop.simps [simp del]

definition At :: "Manager \<Rightarrow> int \<Rightarrow> Snapshot option" where
  "At m t = (if mg_snapshots m = [] then None
     else Some (mg_snapshots m ! nat (at_loop (mg_snapshots m) t 0 (int (length (mg_snapshots m)) - 1))))"

definition Manager_List :: "Manager \<Rightarrow> int \<Rightarrow> int \<Rightarrow> Snapshot list" where
  "Manager_List m start stop =
     filter (\<lambda>s. (start = 0 \<or> \<not> sn_timestamp s < start) \<and> (stop = 0 \<or> \<not> sn_timestamp s > stop))
       (mg_snapshots m)"

definition Manager_Count :: "Manager \<Rightarrow> nat" where
  "Manager_Count m = length (mg_snapshots m)"

definition Manager_Clear :: "Manager \<Rightarrow> Manager" where
  "Manager_Clear m = m\<lparr>mg_snapshots := take 0 (mg_snapshots m)\<rparr>"

text \<open>The loop of \<open>Prune\<close>, from index \<open>i\<close>: the first index to keep and the number pruned.\<close>

fun prune_loop :: "int \<Rightarrow> Snapshot list \<Rightarrow> nat \<Rightarrow> nat \<Rightarrow> nat \<times> nat" where
  "prune_loop cutoff [] i pruned = (0, pruned)"
| "prune_loop cutoff (s # ss) i pruned =
     (if sn_timestamp s > cutoff then (i, pruned) else prune_loop cutoff ss (Suc i) (Suc pruned))"

definition Prune :: "int \<Rightarrow> i64 \<Rightarrow> Manager \<Rightarrow> nat \<times> Manager" where
  "Prune now olderThan m =
     (let cutoff = now + sint (- olderThan);
          (firstToKeep, pruned) = prune_loop cutoff (mg_snapshots m) 0 0
      in (pruned, if pruned > 0 then m\<lparr>mg_snapshots := drop firstToKeep (mg_snapshots m)\<rparr> else m))"

section \<open>Differences\<close>

record DiffPair =
  dp_old :: Value
  dp_new :: Value

record DiffResult =
  df_created :: data
  df_updated :: "DiffPair gomap"
  df_deleted :: data
  df_unchanged :: data

fun diff_loop :: "data \<Rightarrow> data \<Rightarrow> DiffResult \<Rightarrow> DiffResult option" where
  "diff_loop [] b r = Some r"
| "diff_loop ((k, av) # a) b r =
     (case mget b k of
        Some bv \<Rightarrow>
          (case iface_eq (vraw av) (vraw bv) of
             None \<Rightarrow> None
           | Some same \<Rightarrow>
               if \<not> same \<or> vtyp av \<noteq> vtyp bv
               then diff_loop a b (r\<lparr>df_updated := mput k \<lparr>dp_old = av, dp_new = bv\<rparr> (df_updated r)\<rparr>)
               else diff_loop a b (r\<lparr>df_unchanged := mput k av (df_unchanged r)\<rparr>))
      | None \<Rightarrow> diff_loop a b (r\<lparr>df_deleted := mput k av (df_deleted r)\<rparr>))"

fun created_loop :: "data \<Rightarrow> data \<Rightarrow> DiffResult \<Rightarrow> DiffResult" where
  "created_loop [] a r = r"
| "created_loop ((k, bv) # b) a r =
     created_loop b a (if mget a k = None then r\<lparr>df_created := mput k bv (df_created r)\<rparr> else r)"

definition Diff :: "data \<Rightarrow> data \<Rightarrow> DiffResult option" where
  "Diff a b =
     map_option (created_loop b a)
       (diff_loop a b \<lparr>df_created = [], df_updated = [], df_deleted = [], df_unchanged = []\<rparr>)"

definition HasChanges :: "DiffResult \<Rightarrow> bool" where
  "HasChanges d \<longleftrightarrow> length (df_created d) > 0 \<or> length (df_updated d) > 0 \<or> length (df_deleted d) > 0"

section \<open>The memory store\<close>

type_synonym MemoryStore = "(u64 \<times> Snapshot) list"

record ListOptions =
  lo_start :: int
  lo_end :: int
  lo_tag :: string
  lo_limit :: int
  lo_offset :: int

definition MemoryStore_Save :: "Snapshot \<Rightarrow> MemoryStore \<Rightarrow> MemoryStore" where
  "MemoryStore_Save s st = mput (sn_id s) (s\<lparr>sn_data := Some (mcopy (entries (sn_data s)))\<rparr>) st"

definition MemoryStore_Load :: "u64 \<Rightarrow> MemoryStore \<Rightarrow> goerror + Snapshot" where
  "MemoryStore_Load i st =
     (case mget st i of None \<Rightarrow> Inl (NewError ErrNotFound ''snapshot not found'' []) | Some s \<Rightarrow> Inr s)"

definition list_match :: "ListOptions \<Rightarrow> Snapshot \<Rightarrow> bool" where
  "list_match opts s \<longleftrightarrow>
     \<not> (lo_start opts \<noteq> 0 \<and> sn_timestamp s < lo_start opts)
     \<and> \<not> (lo_end opts \<noteq> 0 \<and> sn_timestamp s > lo_end opts)
     \<and> (lo_tag opts = [] \<or>
         (case sn_metadata s of
            None \<Rightarrow> False
          | Some md \<Rightarrow> (case md_tags md of None \<Rightarrow> False | Some tags \<Rightarrow> mget tags (lo_tag opts) \<noteq> None)))"

text \<open>\<open>List\<close>: a nil slice and an empty one are told apart by the option.\<close>

definition MemoryStore_List :: "ListOptions \<Rightarrow> MemoryStore \<Rightarrow> Snapshot list option" where
  "MemoryStore_List opts st =
     (let result = filter (list_match opts) (map snd st)
      in if lo_offset opts > 0 \<and> lo_offset opts \<ge> int (length result) then None
         else let result' = (if lo_offset opts > 0 then drop (nat (lo_offset opts)) result else result)
              in Some (if lo_limit opts > 0 \<and> int (length result') > lo_limit opts
                       then take (nat (lo_limit opts)) result' else result'))"

definition MemoryStore_Delete :: "u64 \<Rightarrow> MemoryStore \<Rightarrow> MemoryStore" where
  "MemoryStore_Delete i st = mdel i st"

section \<open>The checksum does not depend on the iteration order\<close>

lemma list_update_xor_comm:
  "xs[i := xor (xs ! i) a, j := xor (xs[i := xor (xs ! i) a] ! j) b]
     = (xs[j := xor (xs ! j) b, i := xor (xs[j := xor (xs ! j) b] ! i) a] :: u8 list)"
proof (cases "i = j")
  case True
  then show ?thesis
    by (cases "j < length xs") (simp_all add: ac_simps list_update_beyond)
next
  case False
  then show ?thesis by (simp add: list_update_swap)
qed

text \<open>XOR a byte into place \<open>j\<close>; every step of the checksum is one of these.\<close>

definition xor_at :: "nat \<times> u8 \<Rightarrow> u8 list \<Rightarrow> u8 list" where
  "xor_at p xs = xs[fst p := xor (xs ! fst p) (snd p)]"

lemma xor_at_comm: "xor_at p (xor_at q xs) = xor_at q (xor_at p xs)"
  unfolding xor_at_def by (rule list_update_xor_comm)

fun byte_steps :: "nat \<Rightarrow> nat \<Rightarrow> string \<Rightarrow> (nat \<times> u8) list" where
  "byte_steps off i [] = []"
| "byte_steps off i (c # cs) = ((i + off) mod 16, word_of_nat (of_char c)) # byte_steps off (Suc i) cs"

lemma xor_bytes_fold: "xor_bytes off i cs acc = fold xor_at (byte_steps off i cs) acc"
  by (induction off i cs acc rule: xor_bytes.induct) (auto simp: xor_at_def Let_def)

definition entry_steps :: "string \<times> Value \<Rightarrow> (nat \<times> u8) list" where
  "entry_steps kv = byte_steps 0 0 (fst kv)
     @ (case vraw (snd kv) of AString s \<Rightarrow> byte_steps 8 0 s | _ \<Rightarrow> [])"

lemma checksum_entry_fold: "checksum_entry kv acc = fold xor_at (entry_steps kv) acc"
  by (cases "vraw (snd kv)") (auto simp: checksum_entry_def entry_steps_def xor_bytes_fold Let_def)

lemma fold_xor_at_comm: "fold xor_at ps (xor_at q xs) = xor_at q (fold xor_at ps xs)"
  by (induction ps arbitrary: xs) (auto simp: xor_at_comm)

lemma checksum_entry_comm: "checksum_entry x (checksum_entry y acc) = checksum_entry y (checksum_entry x acc)"
proof -
  have "fold xor_at ps (fold xor_at qs xs) = fold xor_at qs (fold xor_at ps xs)" for ps qs xs
    by (induction qs arbitrary: xs) (auto simp: fold_xor_at_comm)
  then show ?thesis by (simp add: checksum_entry_fold)
qed

section \<open>The manager's invariant and its binary searches\<close>

definition mgr_inv :: "Manager \<Rightarrow> bool" where
  "mgr_inv m \<longleftrightarrow>
     mg_maxSize m > 0
     \<and> int (length (mg_snapshots m)) \<le> mg_maxSize m
     \<and> sorted_wrt (\<lambda>s s'. sn_id s < sn_id s') (mg_snapshots m)
     \<and> (\<forall>s\<in>set (mg_snapshots m). sn_id s \<le> mg_nextID m)"

lemma mgr_inv_New: "mgr_inv (NewManager n)"
  by (simp add: mgr_inv_def NewManager_def)

lemma apply_options_keep:
  "apply_snapshot_options ps s = Some s' \<Longrightarrow>
     sn_id s' = sn_id s \<and> sn_data s' = sn_data s \<and> sn_timestamp s' = sn_timestamp s
     \<and> sn_checksum s' = sn_checksum s"
proof (induction ps arbitrary: s)
  case (Cons p ps)
  then obtain s1 where s1: "apply_snapshot_option p s = Some s1" "apply_snapshot_options ps s1 = Some s'"
    by (auto split: option.splits)
  have "sn_id s1 = sn_id s \<and> sn_data s1 = sn_data s \<and> sn_timestamp s1 = sn_timestamp s
     \<and> sn_checksum s1 = sn_checksum s"
    using s1(1) by (cases p) (auto split: option.splits)
  with Cons.IH [OF s1(2)] show ?case by simp
qed simp

lemma Take_result:
  assumes "Take now d opts m = Some (s, m')"
  shows "sn_id s = mg_nextID m + 1 \<and> sn_data s = d \<and> sn_timestamp s = now
    \<and> sn_checksum s = computeChecksum (entries d)
    \<and> mg_nextID m' = mg_nextID m + 1 \<and> mg_maxSize m' = mg_maxSize m
    \<and> mg_snapshots m' = (if int (length (mg_snapshots m)) \<ge> mg_maxSize m
                          then tl (mg_snapshots m @ [s]) else mg_snapshots m @ [s])"
  using assms by (auto simp: Take_def Let_def dest!: apply_options_keep split: option.splits)

lemma mgr_inv_tl: "mgr_inv m \<Longrightarrow> mgr_inv (m\<lparr>mg_snapshots := drop k (mg_snapshots m)\<rparr>)"
  by (auto simp: mgr_inv_def sorted_wrt_drop dest: in_set_dropD)

lemma plus_one_less: "(a :: u64) < - 1 \<Longrightarrow> a < a + 1"
proof -
  assume "a < - 1"
  moreover have "unat (- 1 :: u64) = 18446744073709551615" by code_simp
  ultimately show ?thesis by (simp add: word_less_nat_alt unat_word_ariths)
qed

lemma mgr_inv_Take:
  assumes inv: "mgr_inv m" and small: "mg_nextID m < - 1" and t: "Take now d opts m = Some (s, m')"
  shows "mgr_inv m'"
proof -
  have lt: "mg_nextID m < mg_nextID m + 1" using small by (simp add: plus_one_less)
  define snaps where "snaps = mg_snapshots m @ [s]"
  have sorted: "sorted_wrt (\<lambda>s s'. sn_id s < sn_id s') snaps" and top: "\<forall>s\<in>set snaps. sn_id s \<le> mg_nextID m + 1"
    using inv lt Take_result [OF t]
    by (auto simp: snaps_def mgr_inv_def sorted_wrt_append intro: le_less_trans order.trans)
  obtain k where k: "mg_snapshots m' = drop k snaps" "int (length (drop k snaps)) \<le> mg_maxSize m"
  proof (cases "int (length (mg_snapshots m)) \<ge> mg_maxSize m")
    case True
    then show ?thesis using that [of 1] inv Take_result [OF t]
      by (cases "mg_snapshots m") (simp_all add: snaps_def mgr_inv_def)
  next
    case False
    then show ?thesis using that [of 0] Take_result [OF t] by (simp add: snaps_def)
  qed
  show ?thesis
    using inv k sorted_wrt_drop [OF sorted] top set_drop_subset [of k snaps] Take_result [OF t]
    by (auto simp: mgr_inv_def)
qed

lemma get_loop_correct:
  assumes "sorted_wrt (\<lambda>s s'. sn_id s < sn_id s') snaps"
    and "0 \<le> left" and "right < int (length snaps)"
  shows "get_loop snaps i left right = Some s \<longleftrightarrow>
    (\<exists>j. left \<le> int j \<and> int j \<le> right \<and> snaps ! j = s \<and> sn_id s = i)"
  using assms
proof (induction snaps i left right rule: get_loop.induct)
  case (1 snaps i left right)
  have mono: "sn_id (snaps ! a) < sn_id (snaps ! b)" if "a < b" "b < length snaps" for a b
    using 1(3) that by (simp add: sorted_wrt_iff_nth_less)
  show ?case
  proof (cases "left \<le> right")
    case False
    then show ?thesis by (subst get_loop.simps) auto
  next
    case True
    define mid where "mid = (left + right) div 2"
    have mid: "left \<le> mid" "mid \<le> right" "nat mid < length snaps"
      using True 1(4,5) by (auto simp: mid_def)
    have uniq: "j = nat mid" if "int j \<le> right" "sn_id (snaps ! j) = sn_id (snaps ! nat mid)" for j
      using that mono [of j "nat mid"] mono [of "nat mid" j] mid 1(5) by (cases j "nat mid" rule: linorder_cases) auto
    show ?thesis
    proof (cases "sn_id (snaps ! nat mid)" i rule: linorder_cases)
      case equal
      then show ?thesis
        using True mid uniq 1(4) by (subst get_loop.simps) (auto simp: Let_def mid_def [symmetric] intro!: exI [of _ "nat mid"])
    next
      case less
      have IH: "get_loop snaps i (mid + 1) right = Some s \<longleftrightarrow>
          (\<exists>j. mid + 1 \<le> int j \<and> int j \<le> right \<and> snaps ! j = s \<and> sn_id s = i)"
        using 1(1) [OF True mid_def refl _ _ 1(3)] less mid 1(4,5) by auto
      have bnd: "mid + 1 \<le> int j" if "int j \<le> right" "sn_id (snaps ! j) = i" for j
        using that less mono [of j "nat mid"] mid by (cases j "nat mid" rule: linorder_cases) auto
      have "(left \<le> int j \<and> int j \<le> right \<and> snaps ! j = s \<and> sn_id s = i) \<longleftrightarrow>
          (mid + 1 \<le> int j \<and> int j \<le> right \<and> snaps ! j = s \<and> sn_id s = i)" for j
        using mid bnd [of j] by auto
      then show ?thesis
        using True less less_imp_neq [OF less] by (subst get_loop.simps) (simp add: Let_def mid_def [symmetric] IH)
    next
      case greater
      have IH: "get_loop snaps i left (mid - 1) = Some s \<longleftrightarrow>
          (\<exists>j. left \<le> int j \<and> int j \<le> mid - 1 \<and> snaps ! j = s \<and> sn_id s = i)"
        using 1(2) [OF True mid_def refl _ _ 1(3)] greater mid 1(4,5) by auto
      have ng: "sn_id (snaps ! nat mid) < i \<longleftrightarrow> False" using greater by auto
      have bnd: "int j \<le> mid - 1" if "int j \<le> right" "sn_id (snaps ! j) = i" for j
        using that greater mono [of "nat mid" j] mid 1(5) by (cases j "nat mid" rule: linorder_cases) auto
      have "(left \<le> int j \<and> int j \<le> right \<and> snaps ! j = s \<and> sn_id s = i) \<longleftrightarrow>
          (left \<le> int j \<and> int j \<le> mid - 1 \<and> snaps ! j = s \<and> sn_id s = i)" for j
        using mid bnd [of j] by auto
      then show ?thesis
        using True greater less_imp_neq [OF greater] ng by (subst get_loop.simps) (simp add: Let_def mid_def [symmetric] IH)
    qed
  qed
qed

lemma Manager_Get_iff:
  "mgr_inv m \<Longrightarrow> Manager_Get m i = Some s \<longleftrightarrow> s \<in> set (mg_snapshots m) \<and> sn_id s = i"
  unfolding Manager_Get_def
  by (subst get_loop_correct) (auto simp: mgr_inv_def in_set_conv_nth)

text \<open>The time search finds the last snapshot that is not after the time, or the first.\<close>

lemma at_loop_correct:
  assumes "sorted (map sn_timestamp snaps)" and "0 \<le> left" "left \<le> right" "right < int (length snaps)"
  shows "left \<le> at_loop snaps t left right \<and> at_loop snaps t left right \<le> right
    \<and> (\<forall>i. at_loop snaps t left right < int i \<and> int i \<le> right \<longrightarrow> sn_timestamp (snaps ! i) > t)
    \<and> (left < at_loop snaps t left right \<longrightarrow> sn_timestamp (snaps ! nat (at_loop snaps t left right)) \<le> t)"
  using assms
proof (induction snaps t left right rule: at_loop.induct)
  case (1 snaps t left right)
  define mid where "mid = (left + right + 1) div 2"
  show ?case
  proof (cases "left < right")
    case False
    then have "at_loop snaps t left right = left" by (subst at_loop.simps) simp
    then show ?thesis using False 1(4-6) by auto
  next
    case True
    have mid: "left < mid" "mid \<le> right" "nat mid < length snaps"
      using True 1(4-6) by (auto simp: mid_def)
    show ?thesis
    proof (cases "sn_timestamp (snaps ! nat mid) > t")
      case late: True
      have eq: "at_loop snaps t left right = at_loop snaps t left (mid - 1)"
        using True late by (subst at_loop.simps) (simp add: Let_def mid_def)
      have "sn_timestamp (snaps ! i) > t" if "mid \<le> int i" "int i \<le> right" for i
      proof -
        have "nat mid \<le> i" "i < length snaps" using that 1(6) by linarith+
        then show ?thesis
          using sorted_nth_mono [OF 1(3), of "nat mid" i] late by simp
      qed
      then show ?thesis
        using 1(1) [OF True mid_def late 1(3)] mid 1(4-6) unfolding eq
        by (smt (verit, best))
    next
      case early: False
      have eq: "at_loop snaps t left right = at_loop snaps t mid right"
        using True early by (subst at_loop.simps) (simp add: Let_def mid_def)
      then show ?thesis
        using 1(2) [OF True mid_def early 1(3)] mid 1(4-6) early unfolding eq
        by (smt (verit, best))
    qed
  qed
qed

lemma filter_prefix:
  assumes "j < length xs" and "\<forall>i\<le>j. P (xs ! i)" and "\<forall>i. j < i \<and> i < length xs \<longrightarrow> \<not> P (xs ! i)"
  shows "filter P xs = take (Suc j) xs"
proof -
  have "filter P (take (Suc j) xs) = take (Suc j) xs"
    using assms(1,2) by (auto simp: filter_id_conv in_set_conv_nth)
  moreover have "filter P (drop (Suc j) xs) = []"
    using assms(3) by (auto simp: filter_empty_conv in_set_conv_nth)
  ultimately show ?thesis
    by (metis append_take_drop_id filter_append append.right_neutral)
qed

lemma At_floor:
  assumes sorted: "sorted (map sn_timestamp (mg_snapshots m))"
  shows "At m t = (let old = filter (\<lambda>s. sn_timestamp s \<le> t) (mg_snapshots m)
    in if mg_snapshots m = [] then None else if old = [] then Some (hd (mg_snapshots m)) else Some (last old))"
proof (cases "mg_snapshots m = []")
  case False
  let ?xs = "mg_snapshots m" and ?P = "\<lambda>s. sn_timestamp s \<le> t"
  define j where "j = nat (at_loop ?xs t 0 (int (length ?xs) - 1))"
  have j: "j < length ?xs" "\<forall>i. j < i \<and> i < length ?xs \<longrightarrow> \<not> ?P (?xs ! i)" "j > 0 \<longrightarrow> ?P (?xs ! j)"
  proof -
    have c: "0 \<le> at_loop ?xs t 0 (int (length ?xs) - 1)" "at_loop ?xs t 0 (int (length ?xs) - 1) < int (length ?xs)"
      "\<And>i. at_loop ?xs t 0 (int (length ?xs) - 1) < int i \<Longrightarrow> i < length ?xs \<Longrightarrow> \<not> ?P (?xs ! i)"
      "0 < at_loop ?xs t 0 (int (length ?xs) - 1) \<longrightarrow> ?P (?xs ! nat (at_loop ?xs t 0 (int (length ?xs) - 1)))"
      using at_loop_correct [OF sorted, of 0 "int (length ?xs) - 1" t] False by (auto simp: Suc_le_eq)
    show "j < length ?xs" using c(1,2) by (simp add: j_def)
    show "\<forall>i. j < i \<and> i < length ?xs \<longrightarrow> \<not> ?P (?xs ! i)"
      using c(1) c(3) by (auto simp: j_def nat_less_iff)
    show "j > 0 \<longrightarrow> ?P (?xs ! j)" using c(4) by (simp add: j_def)
  qed
  have at: "At m t = Some (?xs ! j)" using False by (simp add: At_def j_def)
  show ?thesis
  proof (cases "?P (?xs ! j)")
    case True
    have "?P (?xs ! i)" if "i \<le> j" for i
      using sorted_nth_mono [OF sorted, of i j] that j(1) True by simp
    then have "filter ?P ?xs = take (Suc j) ?xs" using j by (intro filter_prefix) auto
    then show ?thesis using at j(1) False by (simp add: Let_def take_Suc_conv_app_nth)
  next
    case False
    then have "j = 0" using j(3) by auto
    with False j have "filter ?P ?xs = []"
      by (auto simp: filter_empty_conv in_set_conv_nth) (metis gr0I)
    then show ?thesis using at \<open>j = 0\<close> \<open>?xs \<noteq> []\<close> by (simp add: hd_conv_nth)
  qed
qed (simp add: At_def)

lemma prune_loop_eq:
  "prune_loop cutoff ss i p =
     (let old = takeWhile (\<lambda>s. sn_timestamp s \<le> cutoff) ss
      in (if \<exists>s\<in>set ss. sn_timestamp s > cutoff then i + length old else 0, p + length old))"
  by (induction cutoff ss i p rule: prune_loop.induct) (auto simp: Let_def)

section \<open>What a difference says\<close>

definition differ :: "Value \<Rightarrow> Value \<Rightarrow> bool" where
  "differ av bv \<longleftrightarrow> iface_eq (vraw av) (vraw bv) \<noteq> Some True \<or> vtyp av \<noteq> vtyp bv"

definition uncomparable :: "data \<Rightarrow> data \<Rightarrow> bool" where
  "uncomparable a b \<longleftrightarrow>
     (\<exists>(k, av)\<in>set a. case mget b k of None \<Rightarrow> False | Some bv \<Rightarrow> iface_eq (vraw av) (vraw bv) = None)"

lemma diff_loop_None: "diff_loop a b r = None \<longleftrightarrow> uncomparable a b"
  by (induction a b r rule: diff_loop.induct) (auto simp: uncomparable_def split: option.splits)

lemma diff_loop_get:
  assumes "wf_map a" and "diff_loop a b r = Some r'"
  shows "df_created r' = df_created r
    \<and> mget (df_updated r') k = (case (mget a k, mget b k) of
         (Some av, Some bv) \<Rightarrow> if differ av bv then Some \<lparr>dp_old = av, dp_new = bv\<rparr> else mget (df_updated r) k
       | _ \<Rightarrow> mget (df_updated r) k)
    \<and> mget (df_unchanged r') k = (case (mget a k, mget b k) of
         (Some av, Some bv) \<Rightarrow> if differ av bv then mget (df_unchanged r) k else Some av
       | _ \<Rightarrow> mget (df_unchanged r) k)
    \<and> mget (df_deleted r') k = (case (mget a k, mget b k) of
         (Some av, None) \<Rightarrow> Some av | _ \<Rightarrow> mget (df_deleted r) k)"
  using assms
proof (induction a arbitrary: r)
  case (Cons kv a)
  obtain k0 av where kv: "kv = (k0, av)" by (cases kv)
  have fresh: "mget a k0 = None" using Cons.prems(1) by (simp add: kv mget_None_iff)
  have wf: "wf_map a" using Cons.prems(1) by (simp add: kv)
  show ?case
  proof (cases "mget b k0")
    case None
    then have "diff_loop a b (r\<lparr>df_deleted := mput k0 av (df_deleted r)\<rparr>) = Some r'"
      using Cons.prems(2) by (simp add: kv)
    from Cons.IH [OF wf this] show ?thesis
      using fresh None by (cases "k = k0") (auto simp: kv split: option.splits)
  next
    case (Some bv)
    show ?thesis
    proof (cases "differ av bv")
      case True
      then have "diff_loop a b (r\<lparr>df_updated := mput k0 \<lparr>dp_old = av, dp_new = bv\<rparr> (df_updated r)\<rparr>) = Some r'"
        using Cons.prems(2) Some by (auto simp: kv differ_def split: option.splits if_splits)
      from Cons.IH [OF wf this] show ?thesis
        using fresh Some True by (cases "k = k0") (auto simp: kv split: option.splits)
    next
      case False
      then have "diff_loop a b (r\<lparr>df_unchanged := mput k0 av (df_unchanged r)\<rparr>) = Some r'"
        using Cons.prems(2) Some by (auto simp: kv differ_def split: option.splits if_splits)
      from Cons.IH [OF wf this] show ?thesis
        using fresh Some False by (cases "k = k0") (auto simp: kv split: option.splits)
    qed
  qed
qed simp

lemma created_loop_keeps [simp]:
  "df_updated (created_loop b a r) = df_updated r"
  "df_unchanged (created_loop b a r) = df_unchanged r"
  "df_deleted (created_loop b a r) = df_deleted r"
  by (induction b a r rule: created_loop.induct) auto

lemma created_loop_get:
  "wf_map b \<Longrightarrow> mget (df_created (created_loop b a r)) k =
     (case (mget a k, mget b k) of (None, Some bv) \<Rightarrow> Some bv | _ \<Rightarrow> mget (df_created r) k)"
proof (induction b a r rule: created_loop.induct)
  case (2 k0 bv b a r)
  then have "mget b k0 = None" "wf_map b" by (simp_all add: mget_None_iff)
  then show ?case using 2(1) by (cases "k = k0") (auto split: option.splits)
qed (auto split: option.splits)

lemma mget_empty: "(\<forall>k. mget m k = None) \<longleftrightarrow> m = []"
  by (cases m) (auto split: if_splits)

section \<open>Stores\<close>

text \<open>
  The interface \<open>Store\<close> of the package, as far as a client that saves, deletes and loads can
  tell: what \<open>load\<close> returns after each other operation.  \<open>seen\<close> is the copy the store keeps.
\<close>

locale snapshot_store =
  fixes save :: "'s \<Rightarrow> 'st \<Rightarrow> 'st"
    and load :: "u64 \<Rightarrow> 'st \<Rightarrow> goerror + 's"
    and delete :: "u64 \<Rightarrow> 'st \<Rightarrow> 'st"
    and ident :: "'s \<Rightarrow> u64"
    and seen :: "'s \<Rightarrow> 's"
    and missing :: goerror
  assumes load_save: "load i (save s st) = (if i = ident s then Inr (seen s) else load i st)"
    and load_delete: "load i (delete j st) = (if i = j then Inl missing else load i st)"

datatype 's store_op = OpSave 's | OpDelete u64

fun exec_store :: "('s \<Rightarrow> 'st \<Rightarrow> 'st) \<Rightarrow> (u64 \<Rightarrow> 'st \<Rightarrow> 'st) \<Rightarrow> 's store_op list \<Rightarrow> 'st \<Rightarrow> 'st" where
  "exec_store save delete [] st = st"
| "exec_store save delete (OpSave s # ops) st = exec_store save delete ops (save s st)"
| "exec_store save delete (OpDelete i # ops) st = exec_store save delete ops (delete i st)"

text \<open>The last operation of a history on an id: its snapshot, or \<open>None\<close> for a deletion.\<close>

fun last_op :: "('s \<Rightarrow> u64) \<Rightarrow> u64 \<Rightarrow> 's store_op list \<Rightarrow> 's option \<Rightarrow> 's option" where
  "last_op ident i [] r = r"
| "last_op ident i (OpSave s # ops) r = last_op ident i ops (if ident s = i then Some s else r)"
| "last_op ident i (OpDelete j # ops) r = last_op ident i ops (if j = i then None else r)"

context snapshot_store
begin

definition answer :: "'s option \<Rightarrow> goerror + 's" where
  "answer r = (case r of None \<Rightarrow> Inl missing | Some s \<Rightarrow> Inr (seen s))"

lemma load_history:
  "load i st = answer r \<Longrightarrow> load i (exec_store save delete ops st) = answer (last_op ident i ops r)"
proof (induction ops arbitrary: st r)
  case (Cons p ops)
  show ?case
  proof (cases p)
    case (OpSave s)
    have "load i (save s st) = answer (if ident s = i then Some s else r)"
      using Cons.prems by (simp add: load_save answer_def)
    then show ?thesis using Cons.IH OpSave by simp
  next
    case (OpDelete j)
    have "load i (delete j st) = answer (if j = i then None else r)"
      using Cons.prems by (simp add: load_delete answer_def)
    then show ?thesis using Cons.IH OpDelete by simp
  qed
qed simp

end

definition stored_copy :: "Snapshot \<Rightarrow> Snapshot" where
  "stored_copy s = s\<lparr>sn_data := Some (mcopy (entries (sn_data s)))\<rparr>"

interpretation memory_store: snapshot_store MemoryStore_Save MemoryStore_Load MemoryStore_Delete
  sn_id stored_copy "NewError ErrNotFound ''snapshot not found'' []"
  by unfold_locales
     (auto simp: MemoryStore_Save_def MemoryStore_Load_def MemoryStore_Delete_def stored_copy_def)

section \<open>Runs of the manager\<close>

datatype mgr_op = OpTake int nildata "SnapshotOption list" | OpClear | OpPrune int i64

fun mgr_exec :: "mgr_op \<Rightarrow> Manager \<Rightarrow> Manager option" where
  "mgr_exec (OpTake now d opts) m = map_option snd (Take now d opts m)"
| "mgr_exec OpClear m = Some (Manager_Clear m)"
| "mgr_exec (OpPrune now d) m = Some (snd (Prune now d m))"

fun mgr_run :: "mgr_op list \<Rightarrow> Manager \<Rightarrow> Manager option" where
  "mgr_run [] m = Some m"
| "mgr_run (p # ps) m = (case mgr_exec p m of None \<Rightarrow> None | Some m' \<Rightarrow> mgr_run ps m')"

lemma Prune_drop: "\<exists>k. snd (Prune now d m) = m\<lparr>mg_snapshots := drop k (mg_snapshots m)\<rparr>"
  by (auto simp: Prune_def Let_def split: prod.splits intro: exI [of _ 0])

lemma mgr_exec_inv:
  assumes "mgr_inv m" and "unat (mg_nextID m) + 1 < 2 ^ 64" and "mgr_exec p m = Some m'"
  shows "mgr_inv m' \<and> unat (mg_nextID m') \<le> unat (mg_nextID m) + 1"
proof (cases p)
  case (OpTake now d opts)
  then obtain s where s: "Take now d opts m = Some (s, m')" using assms(3) by auto
  have "mg_nextID m < - 1"
  proof -
    have "unat (- 1 :: u64) = 18446744073709551615" by code_simp
    then show ?thesis using assms(2) by (simp add: word_less_nat_alt)
  qed
  moreover have "unat (mg_nextID m + 1) = unat (mg_nextID m) + 1"
    using assms(2) by (simp add: unat_word_ariths)
  ultimately show ?thesis using mgr_inv_Take [OF assms(1) _ s] Take_result [OF s] by simp
next
  case OpClear
  then show ?thesis using assms by (auto simp: Manager_Clear_def mgr_inv_def)
next
  case (OpPrune now d)
  then show ?thesis
    using assms Prune_drop [of now d m] mgr_inv_tl [OF assms(1)] by auto
qed

lemma mgr_run_inv:
  "mgr_run ops m = Some m' \<Longrightarrow> mgr_inv m \<Longrightarrow> unat (mg_nextID m) + length ops < 2 ^ 64 \<Longrightarrow> mgr_inv m'"
proof (induction ops arbitrary: m)
  case (Cons p ps)
  then obtain m1 where m1: "mgr_exec p m = Some m1" "mgr_run ps m1 = Some m'"
    by (auto split: option.splits)
  have "mgr_inv m1 \<and> unat (mg_nextID m1) \<le> unat (mg_nextID m) + 1"
    using mgr_exec_inv [OF Cons.prems(2) _ m1(1)] Cons.prems(3) by simp
  then show ?case using Cons.IH [OF m1(2)] Cons.prems(3) by simp
qed simp

lemma mgr_exec_maxSize: "mgr_exec p m = Some m' \<Longrightarrow> mg_maxSize m' = mg_maxSize m"
  by (cases p) (auto simp: Manager_Clear_def Prune_def Let_def dest: Take_result split: prod.splits)

lemma mgr_run_maxSize: "mgr_run ops m = Some m' \<Longrightarrow> mg_maxSize m' = mg_maxSize m"
  by (induction ops arbitrary: m) (auto dest: mgr_exec_maxSize split: option.splits)

fun mgr_takes :: "(int \<times> nildata \<times> SnapshotOption list) list \<Rightarrow> Manager \<Rightarrow> (Snapshot list \<times> Manager) option" where
  "mgr_takes [] m = Some ([], m)"
| "mgr_takes ((now, d, opts) # ts) m =
     (case Take now d opts m of
        None \<Rightarrow> None
      | Some (s, m') \<Rightarrow>
          (case mgr_takes ts m' of None \<Rightarrow> None | Some (ss, m'') \<Rightarrow> Some (s # ss, m'')))"

definition lastn :: "int \<Rightarrow> 'a list \<Rightarrow> 'a list" where
  "lastn n xs = drop (length xs - nat n) xs"

lemma lastn_lastn: "lastn k (lastn k ys @ zs) = lastn k (ys @ zs)"
proof -
  let ?a = "length ys - nat k"
  have "lastn k ys @ zs = drop ?a (ys @ zs)" by (simp add: lastn_def)
  then have "lastn k (lastn k ys @ zs) = drop (length (drop ?a (ys @ zs)) - nat k + ?a) (ys @ zs)"
    by (simp add: lastn_def del: drop_append)
  also have "length (drop ?a (ys @ zs)) - nat k + ?a = length (ys @ zs) - nat k" by simp
  finally show ?thesis unfolding lastn_def .
qed

lemma mgr_takes_lastn:
  "mgr_takes ts m = Some (ss, m') \<Longrightarrow> mg_maxSize m > 0 \<Longrightarrow> int (length (mg_snapshots m)) \<le> mg_maxSize m \<Longrightarrow>
     mg_snapshots m' = lastn (mg_maxSize m) (mg_snapshots m @ ss)
     \<and> map sn_id ss = map (\<lambda>i. mg_nextID m + of_nat (Suc i)) [0..<length ts]
     \<and> map sn_data ss = map (fst \<circ> snd) ts"
proof (induction ts arbitrary: m ss)
  case Nil
  then show ?case by (auto simp: lastn_def)
next
  case (Cons x ts)
  obtain now d opts where x: "x = (now, d, opts)" by (cases x)
  obtain s m1 ss' where s: "Take now d opts m = Some (s, m1)" "mgr_takes ts m1 = Some (ss', m')" "ss = s # ss'"
    using Cons.prems(1) by (auto simp: x split: option.splits)
  have m1: "mg_snapshots m1 = lastn (mg_maxSize m) (mg_snapshots m @ [s])"
    using Take_result [OF s(1)] Cons.prems(2,3) by (cases "mg_snapshots m") (auto simp: lastn_def nat_add_distrib)
  have b: "int (length (mg_snapshots m1)) \<le> mg_maxSize m" using Cons.prems(2) by (simp add: m1 lastn_def)
  have "lastn k (lastn k (xs @ [s]) @ ss') = lastn k (xs @ s # ss')" for xs k
    by (simp add: lastn_lastn)
  moreover have "[0..<Suc (length ts)] = 0 # map Suc [0..<length ts]"
    by (simp only: map_Suc_upt) (rule upt_conv_Cons, simp)
  ultimately show ?case
    using Cons.IH [OF s(2)] Take_result [OF s(1)] Cons.prems(2) b
    by (simp add: x s(3) m1 algebra_simps del: upt_Suc)
qed

section \<open>Results\<close>

text \<open>
  C17: the snapshot manager as a bounded table.  After any sequence of takes, clears and prunes
  (fewer than 2 to the 64 of them) it holds at most the configured number of snapshots, with
  ascending ids, and the binary search of \<open>Get\<close> finds exactly the snapshots that are held.
\<close>

theorem manager_get_is_lookup:
  assumes "mgr_run ops (NewManager n) = Some m" and "length ops < 2 ^ 64"
  shows "(\<forall>i s. Manager_Get m i = Some s \<longleftrightarrow> s \<in> set (mg_snapshots m) \<and> sn_id s = i)
    \<and> int (length (mg_snapshots m)) \<le> (if n \<le> 0 then 100 else n)
    \<and> sorted_wrt (\<lambda>s s'. sn_id s < sn_id s') (mg_snapshots m)"
proof -
  have "mgr_inv m"
    using mgr_run_inv [OF assms(1) mgr_inv_New] assms(2) by (simp add: NewManager_def)
  then show ?thesis
    using Manager_Get_iff mgr_run_maxSize [OF assms(1)] by (auto simp: mgr_inv_def NewManager_def)
qed

theorem manager_get_is_lookup_witness:
  "\<exists>m. mgr_run [OpTake 5 None [], OpTake 6 None [SnapshotOption.WithSource ''api''], OpTake 9 None []]
       (NewManager 2) = Some m
     \<and> (\<exists>s. Manager_Get m 2 = Some s) \<and> Manager_Get m 1 = None"
proof -
  let ?ops = "[OpTake 5 None [], OpTake 6 None [SnapshotOption.WithSource ''api''], OpTake 9 None []]"
  obtain m a b where m: "mgr_run ?ops (NewManager 2) = Some m"
    and ab: "mg_snapshots m = [a, b]" "sn_id a = 2" "sn_id b = 3"
    by (simp add: Take_def NewManager_def Let_def)
  have get: "Manager_Get m i = Some s \<longleftrightarrow> s \<in> {a, b} \<and> sn_id s = i" for i s
    using manager_get_is_lookup [OF m] ab(1) by simp
  have "Manager_Get m 1 = None"
  proof (rule ccontr)
    assume "Manager_Get m 1 \<noteq> None"
    then obtain s where "Manager_Get m 1 = Some s" by auto
    then show False using get [of 1 s] ab by auto
  qed
  moreover have "Manager_Get m 2 = Some a" using get ab by simp
  ultimately show ?thesis using m by blast
qed



text \<open>
  C18: the time query returns the latest snapshot not after the time, and the first one when all
  are later; it is not the closest in time, which its comment says, unless the two coincide.
\<close>

theorem at_is_floor:
  assumes "sorted (map sn_timestamp (mg_snapshots m))"
  shows "At m t = (let old = filter (\<lambda>s. sn_timestamp s \<le> t) (mg_snapshots m)
    in if mg_snapshots m = [] then None else if old = [] then Some (hd (mg_snapshots m)) else Some (last old))"
  by (rule At_floor [OF assms])

theorem at_is_floor_witness:
  "\<exists>m s. mgr_run [OpTake 10 None [], OpTake 20 None []] (NewManager 5) = Some m
     \<and> At m 19 = Some s \<and> sn_timestamp s = 10"
proof -
  obtain m a b where m: "mgr_run [OpTake 10 None [], OpTake 20 None []] (NewManager 5) = Some m"
    and ab: "mg_snapshots m = [a, b]" "sn_timestamp a = 10" "sn_timestamp b = 20"
    by (simp add: Take_def NewManager_def Let_def)
  have "sorted (map sn_timestamp (mg_snapshots m))" by (simp add: ab)
  from at_is_floor [OF this, of 19] have "At m 19 = Some a" by (simp add: ab)
  then show ?thesis using m ab(2) by blast
qed

text \<open>
  C15: what \<open>Prune\<close> does.  It counts the leading snapshots that are not younger than the cutoff.
  When a younger one follows, exactly those are removed; when there is none, that is when every
  snapshot should go, it reports them all as pruned and keeps them all.
\<close>

theorem prune_outcome:
  "Prune now olderThan m =
    (let cutoff = now + sint (- olderThan);
         old = takeWhile (\<lambda>s. sn_timestamp s \<le> cutoff) (mg_snapshots m);
         young = dropWhile (\<lambda>s. sn_timestamp s \<le> cutoff) (mg_snapshots m)
     in (length old, m\<lparr>mg_snapshots := if young = [] then mg_snapshots m else young\<rparr>))"
proof -
  let ?P = "\<lambda>s. sn_timestamp s \<le> now + sint (- olderThan)"
  have "(\<exists>s\<in>set (mg_snapshots m). now + sint (- olderThan) < sn_timestamp s)
      \<longleftrightarrow> dropWhile ?P (mg_snapshots m) \<noteq> []"
    by (auto simp: dropWhile_eq_Nil_conv not_le)
  moreover have "length (takeWhile ?P (mg_snapshots m)) = 0 \<Longrightarrow> dropWhile ?P (mg_snapshots m) = mg_snapshots m"
    by (metis append_Nil length_0_conv takeWhile_dropWhile_id)
  ultimately show ?thesis
    by (auto simp: Prune_def Let_def prune_loop_eq dropWhile_eq_drop [symmetric])
qed

text \<open>
  C40: the difference of two snapshots classifies every key.  It panics exactly when some key has
  a slice in both or a map in both (Go cannot compare these); otherwise a key is created, deleted,
  updated or unchanged, with its values, just as the two maps say.
\<close>

theorem diff_classifies:
  assumes "wf_map a" and "wf_map b"
  shows "case Diff a b of
      None \<Rightarrow> uncomparable a b
    | Some r \<Rightarrow> \<not> uncomparable a b \<and>
        (\<forall>k. mget (df_created r) k = (if mget a k = None then mget b k else None)
           \<and> mget (df_deleted r) k = (if mget b k = None then mget a k else None)
           \<and> mget (df_updated r) k = (case (mget a k, mget b k) of
                (Some av, Some bv) \<Rightarrow> if differ av bv then Some \<lparr>dp_old = av, dp_new = bv\<rparr> else None
              | _ \<Rightarrow> None)
           \<and> mget (df_unchanged r) k = (case (mget a k, mget b k) of
                (Some av, Some bv) \<Rightarrow> if differ av bv then None else Some av
              | _ \<Rightarrow> None))"
proof (cases "diff_loop a b \<lparr>df_created = [], df_updated = [], df_deleted = [], df_unchanged = []\<rparr>")
  case None
  then have "uncomparable a b" "Diff a b = None" by (simp_all add: Diff_def) (simp add: diff_loop_None)
  then show ?thesis by simp
next
  case (Some r)
  have "\<not> uncomparable a b" using Some by (metis diff_loop_None option.distinct(1))
  then show ?thesis
    using diff_loop_get [OF assms(1) Some] created_loop_get [OF assms(2)]
    by (auto simp: Diff_def Some split: option.splits)
qed

theorem diff_classifies_witness:
  "\<exists>r. Diff [(''host'', low_host)] [(''host'', high_host), (''port'', low_host)] = Some r
     \<and> mget (df_created r) ''port'' = Some low_host"
proof -
  let ?a = "[(''host'', low_host)]" and ?b = "[(''host'', high_host), (''port'', low_host)]"
  obtain r where r: "Diff ?a ?b = Some r"
    by (simp add: Diff_def low_host_def high_host_def)
  show ?thesis using diff_classifies [of ?a ?b] r by simp
qed

text \<open>
  The checksum of a snapshot depends on its data only, not on the order in which Go ranges
  over the map.
\<close>

theorem checksum_order_independent:
  assumes "same_map d d'"
  shows "computeChecksum d = computeChecksum d'"
  unfolding computeChecksum_def
  using same_map_mset [OF assms] by (intro fold_permute) (simp_all add: checksum_entry_comm)

theorem checksum_order_independent_witness:
  "computeChecksum [(''host'', low_host), (''port'', high_host)]
     = computeChecksum [(''port'', high_host), (''host'', low_host)]"
  by (rule checksum_order_independent) (auto simp: same_map_def)

text \<open>
  The memory store answers a load with the last operation on that id: the data saved last,
  in a copy, or not found when the id was never saved or was deleted since.
\<close>

theorem memory_store_last_write:
  "MemoryStore_Load i (exec_store MemoryStore_Save MemoryStore_Delete ops [])
     = (case last_op sn_id i ops None of
          None \<Rightarrow> Inl (NewError ErrNotFound ''snapshot not found'' [])
        | Some s \<Rightarrow> Inr (stored_copy s))"
  using memory_store.load_history [of i "[]" None ops]
  by (simp add: memory_store.answer_def MemoryStore_Load_def)

end
