(* ===== verification/Validate.thy ===== *)
theory Validate
  imports Engine GoUtf8
begin

text \<open>
  Package validate (validate/validate.go): validation plans and their builder, the built-in
  validators, and the struct validator with its tag parser and cache.

  A compiled regular expression is given by the function it matches with and its text; the
  Unicode classes of runes outside ASCII are arguments.  A struct seen through reflection is the
  list of its fields with their names, visibility, tags and values.
\<close>

text \<open>\<open>unicode.IsLetter\<close> and \<open>unicode.IsDigit\<close>, given the classes outside ASCII.\<close>

record unicode =
  uni_letter :: "nat \<Rightarrow> bool"
  uni_digit :: "nat \<Rightarrow> bool"

definition isLetter :: "unicode \<Rightarrow> nat \<Rightarrow> bool" where
  "isLetter u r \<longleftrightarrow> (if r < 128 then 65 \<le> r \<and> r \<le> 90 \<or> 97 \<le> r \<and> r \<le> 122 else uni_letter u r)"

definition isDigit :: "unicode \<Rightarrow> nat \<Rightarrow> bool" where
  "isDigit u r \<longleftrightarrow> (if r < 128 then 48 \<le> r \<and> r \<le> 57 else uni_digit u r)"

section \<open>Validators\<close>

datatype Validator =
    RequiredValidator
  | MinValidator i64
  | MaxValidator i64
  | RangeValidator i64 i64
  | PatternValidator "string \<Rightarrow> bool" string
  | EnumValidator "string list"
  | EmailValidator
  | URLValidator
  | DurationValidator i64 i64
  | AlphanumericValidator
  | UUIDValidator
  | ValidatorFunc "any \<Rightarrow> goerror option"
  | CustomValidator string "any \<Rightarrow> goerror option"

fun Name :: "Validator \<Rightarrow> string" where
  "Name RequiredValidator = ''required''"
| "Name (MinValidator _) = ''min''"
| "Name (MaxValidator _) = ''max''"
| "Name (RangeValidator _ _) = ''range''"
| "Name (PatternValidator _ _) = ''pattern''"
| "Name (EnumValidator _) = ''enum''"
| "Name EmailValidator = ''email''"
| "Name URLValidator = ''url''"
| "Name (DurationValidator _ _) = ''duration''"
| "Name AlphanumericValidator = ''alphanumeric''"
| "Name UUIDValidator = ''uuid''"
| "Name (ValidatorFunc _) = ''custom''"
| "Name (CustomValidator n _) = n"

definition fail :: "string \<Rightarrow> goerror option" where "fail msg = Some (PlainError msg)"

definition fail_if :: "bool \<Rightarrow> string \<Rightarrow> goerror option" where
  "fail_if b msg = (if b then fail msg else None)"

definition validateBoundary :: "any \<Rightarrow> i64 \<Rightarrow> bool \<Rightarrow> goerror option" where
  "validateBoundary v boundary minMode =
     (let check = (\<lambda>actual :: int. if minMode then actual < sint boundary else actual > sint boundary);
          message = (if minMode then ''at least'' else ''at most'');
          text = message @ '' '' @ itoa (sint boundary)
      in case v of
           AInt val \<Rightarrow> fail_if (check (sint val)) (''value must be '' @ text)
         | AInt64 val \<Rightarrow> fail_if (check (sint val)) (''value must be '' @ text)
         | AFloat64 val \<Rightarrow>
             (if minMode then fail_if (f64_lt val (f64_of_int (sint boundary))) (''value must be '' @ text)
              else fail_if (f64_lt (f64_of_int (sint boundary)) val) (''value must be '' @ text))
         | AString val \<Rightarrow> fail_if (check (int (length val))) (''string length must be '' @ text)
         | _ \<Rightarrow> None)"

definition validateRange :: "i64 \<Rightarrow> i64 \<Rightarrow> any \<Rightarrow> goerror option" where
  "validateRange lo hi v =
     (let msg = ''value must be between '' @ itoa (sint lo) @ '' and '' @ itoa (sint hi)
      in case v of
           AInt val \<Rightarrow> fail_if (sint val < sint lo \<or> sint val > sint hi) msg
         | AInt64 val \<Rightarrow> fail_if (sint val < sint lo \<or> sint val > sint hi) msg
         | AFloat64 val \<Rightarrow>
             fail_if (f64_lt val (f64_of_int (sint lo)) \<or> f64_lt (f64_of_int (sint hi)) val) msg
         | _ \<Rightarrow> None)"

definition validateRequired :: "any \<Rightarrow> goerror option" where
  "validateRequired v =
     (case v of
        ANil \<Rightarrow> fail ''value is required''
      | AString s \<Rightarrow> fail_if (s = []) ''value is required''
      | ASlice xs \<Rightarrow> fail_if (length xs = 0) ''value is required''
      | AMap m \<Rightarrow> fail_if (length m = 0) ''value is required''
      | _ \<Rightarrow> None)"

fun join_comma :: "string list \<Rightarrow> string" where
  "join_comma [] = []"
| "join_comma [s] = s"
| "join_comma (s # t # ts) = s @ '', '' @ join_comma (t # ts)"

definition validateEnum :: "string list \<Rightarrow> any \<Rightarrow> goerror option" where
  "validateEnum values v =
     (case v of
        AString s \<Rightarrow> fail_if (\<not> list_ex (\<lambda>a. s = a) values) (''value must be one of: '' @ join_comma values)
      | _ \<Rightarrow> fail ''value must be a string'')"

text \<open>With \<open>-1\<close> for an index that is not found, as in the source.\<close>

definition go_index :: "nat option \<Rightarrow> int" where
  "go_index i = (case i of None \<Rightarrow> - 1 | Some n \<Rightarrow> int n)"

definition email_ok :: "string \<Rightarrow> bool" where
  "email_ok s =
     (let atIndex = go_index (index_of (CHR ''@'') s);
          dotIndex = go_index (last_index_of (CHR ''.'') s)
      in CHR ''@'' \<in> set s \<and> CHR ''.'' \<in> set s
         \<and> \<not> (atIndex < 1 \<or> dotIndex < atIndex + 2 \<or> dotIndex \<ge> int (length s) - 1))"

definition validateEmail :: "any \<Rightarrow> goerror option" where
  "validateEmail v =
     (case v of
        AString s \<Rightarrow> fail_if (\<not> email_ok s) ''invalid email format''
      | _ \<Rightarrow> fail ''value must be a string'')"

definition validateURL :: "any \<Rightarrow> goerror option" where
  "validateURL v =
     (case v of
        AString s \<Rightarrow> fail_if (\<not> has_prefix s ''http://'' \<and> \<not> has_prefix s ''https://'')
                      ''URL must start with http:// or https://''
      | _ \<Rightarrow> fail ''value must be a string'')"

definition validateDuration :: "i64 \<Rightarrow> i64 \<Rightarrow> any \<Rightarrow> goerror option" where
  "validateDuration lo hi v =
     (case v of
        ADuration d \<Rightarrow>
          if sint lo > 0 \<and> sint d < sint lo then fail (''duration must be at least '' @ duration_str (sint lo))
          else if sint hi > 0 \<and> sint d > sint hi then fail (''duration must be at most '' @ duration_str (sint hi))
          else None
      | _ \<Rightarrow> fail ''value must be a duration'')"

definition validateAlphanumeric :: "unicode \<Rightarrow> any \<Rightarrow> goerror option" where
  "validateAlphanumeric u v =
     (case v of
        AString s \<Rightarrow> fail_if (list_ex (\<lambda>(i, r). \<not> isLetter u r \<and> \<not> isDigit u r) (runes_from 0 s))
                      ''value must contain only alphanumeric characters''
      | _ \<Rightarrow> fail ''value must be a string'')"

definition uuid_rune_ok :: "unicode \<Rightarrow> nat \<times> nat \<Rightarrow> bool" where
  "uuid_rune_ok u ir =
     (let (i, r) = ir
      in if i = 8 \<or> i = 13 \<or> i = 18 \<or> i = 23 then r = 45
         else \<not> (\<not> isDigit u r \<and> (r < 97 \<or> r > 102) \<and> (r < 65 \<or> r > 70)))"

definition validateUUID :: "unicode \<Rightarrow> any \<Rightarrow> goerror option" where
  "validateUUID u v =
     (case v of
        AString s \<Rightarrow>
          if length s \<noteq> 36 then fail ''invalid UUID length''
          else fail_if (\<not> list_all (uuid_rune_ok u) (runes_from 0 s)) ''invalid UUID format''
      | _ \<Rightarrow> fail ''value must be a string'')"

definition validatePattern :: "(string \<Rightarrow> bool) \<Rightarrow> string \<Rightarrow> any \<Rightarrow> goerror option" where
  "validatePattern matches text v =
     (case v of
        AString s \<Rightarrow> fail_if (\<not> matches s) (''value must match pattern '' @ text)
      | _ \<Rightarrow> fail ''value must be a string'')"

fun validate_with :: "unicode \<Rightarrow> Validator \<Rightarrow> any \<Rightarrow> goerror option" where
  "validate_with u RequiredValidator v = validateRequired v"
| "validate_with u (MinValidator n) v = validateBoundary v n True"
| "validate_with u (MaxValidator n) v = validateBoundary v n False"
| "validate_with u (RangeValidator lo hi) v = validateRange lo hi v"
| "validate_with u (PatternValidator matches text) v = validatePattern matches text v"
| "validate_with u (EnumValidator values) v = validateEnum values v"
| "validate_with u EmailValidator v = validateEmail v"
| "validate_with u URLValidator v = validateURL v"
| "validate_with u (DurationValidator lo hi) v = validateDuration lo hi v"
| "validate_with u AlphanumericValidator v = validateAlphanumeric u v"
| "validate_with u UUIDValidator v = validateUUID u v"
| "validate_with u (ValidatorFunc f) v = f v"
| "validate_with u (CustomValidator _ f) v = f v"

section \<open>Plans\<close>

record Rule =
  ru_key :: string
  ru_validator :: "Validator option"
  ru_required :: bool
  ru_message :: string

record Plan =
  pl_rules :: "Rule list"
  pl_keyIndex :: "nat gomap"

fun index_rules :: "nat \<Rightarrow> Rule list \<Rightarrow> nat gomap \<Rightarrow> nat gomap" where
  "index_rules i [] m = m"
| "index_rules i (r # rs) m = index_rules (Suc i) rs (mput (ru_key r) i m)"

definition NewPlan :: "Rule list \<Rightarrow> Plan" where
  "NewPlan rules = \<lparr>pl_rules = rules, pl_keyIndex = index_rules 0 rules []\<rparr>"

fun plan_loop :: "unicode \<Rightarrow> data \<Rightarrow> Rule list \<Rightarrow> goerror list \<Rightarrow> goerror list" where
  "plan_loop u config [] errs = errs"
| "plan_loop u config (r # rules) errs =
     (case mget config (ru_key r) of
        None \<Rightarrow>
          if ru_required r
          then plan_loop u config rules (errs @ [ValidationError (ru_key r) ''required'' (ru_message r) None])
          else plan_loop u config rules errs
      | Some v \<Rightarrow>
          (case ru_validator r of
             None \<Rightarrow> plan_loop u config rules errs
           | Some val \<Rightarrow>
               (case validate_with u val (vraw v) of
                  Some err \<Rightarrow>
                    plan_loop u config rules (errs @ [ValidationError (ru_key r) (Name val) (ru_message r) (Some err)])
                | None \<Rightarrow> plan_loop u config rules errs)))"

definition Plan_Validate :: "unicode \<Rightarrow> Plan \<Rightarrow> data \<Rightarrow> goerror option" where
  "Plan_Validate u p config =
     (let errs = plan_loop u config (pl_rules p) []
      in if length errs = 0 then None else Some (ValidationErrors errs))"

subsection \<open>The builder\<close>

type_synonym Builder = "Rule list"

definition add_rule :: "string \<Rightarrow> Validator option \<Rightarrow> bool \<Rightarrow> string \<Rightarrow> Builder \<Rightarrow> Builder" where
  "add_rule key val req msg b =
     b @ [\<lparr>ru_key = key, ru_validator = val, ru_required = req, ru_message = msg\<rparr>]"

definition Builder_Required where "Builder_Required key msg b = add_rule key None True msg b"
definition Builder_Min where "Builder_Min key n msg b = add_rule key (Some (MinValidator n)) False msg b"
definition Builder_Max where "Builder_Max key n msg b = add_rule key (Some (MaxValidator n)) False msg b"
definition Builder_Range where
  "Builder_Range key lo hi msg b = add_rule key (Some (RangeValidator lo hi)) False msg b"
definition Builder_Enum where
  "Builder_Enum key values msg b = add_rule key (Some (EnumValidator values)) False msg b"
definition Builder_Custom where
  "Builder_Custom key val msg b = add_rule key (Some val) False msg b"

text \<open>\<open>compile\<close> is \<open>regexp.Compile\<close>; \<open>MustCompile\<close> panics when it fails.\<close>

definition Builder_Pattern ::
  "(string \<Rightarrow> (string \<Rightarrow> bool) option) \<Rightarrow> string \<Rightarrow> string \<Rightarrow> string \<Rightarrow> Builder \<Rightarrow> Builder option" where
  "Builder_Pattern compile key pattern msg b =
     (case compile pattern of
        None \<Rightarrow> None
      | Some matches \<Rightarrow> Some (add_rule key (Some (PatternValidator matches pattern)) False msg b))"

definition Build :: "Builder \<Rightarrow> Plan" where "Build b = NewPlan b"

section \<open>Struct validation\<close>

record structfield =
  sf_name :: string
  sf_exported :: bool
  sf_validate :: string
  sf_config :: string
  sf_value :: any

datatype reflected = NilPointer | NotAStruct | AStruct nat "structfield list"

record fieldMeta =
  fm_name :: string
  fm_index :: nat
  fm_rules :: "Validator list"

definition tag_rule :: "(string \<Rightarrow> (string \<Rightarrow> bool) option) \<Rightarrow> string \<Rightarrow> Validator list" where
  "tag_rule compile part =
     (let (key0, val0) = split2 (CHR ''='') part;
          key = trim_space key0;
          val = (case val0 of None \<Rightarrow> [] | Some v \<Rightarrow> trim_space v)
      in if key = ''required'' then [RequiredValidator]
         else if key = ''min'' then (case atoi val of Some n \<Rightarrow> [MinValidator (word_of_int n)] | None \<Rightarrow> [])
         else if key = ''max'' then (case atoi val of Some n \<Rightarrow> [MaxValidator (word_of_int n)] | None \<Rightarrow> [])
         else if key = ''email'' then [EmailValidator]
         else if key = ''url'' then [URLValidator]
         else if key = ''enum'' then [EnumValidator (split_on (CHR ''|'') val)]
         else if key = ''pattern'' then (case compile val of Some f \<Rightarrow> [PatternValidator f val] | None \<Rightarrow> [])
         else [])"

fun tag_loop :: "(string \<Rightarrow> (string \<Rightarrow> bool) option) \<Rightarrow> string list \<Rightarrow> Validator list \<Rightarrow> Validator list" where
  "tag_loop compile [] rules = rules"
| "tag_loop compile (part # parts) rules = tag_loop compile parts (rules @ tag_rule compile part)"

definition parseValidateTag :: "(string \<Rightarrow> (string \<Rightarrow> bool) option) \<Rightarrow> string \<Rightarrow> Validator list" where
  "parseValidateTag compile tag = tag_loop compile (split_on (CHR '','') tag) []"

fun buildMeta_loop :: "(string \<Rightarrow> (string \<Rightarrow> bool) option) \<Rightarrow> nat \<Rightarrow> structfield list \<Rightarrow> fieldMeta list" where
  "buildMeta_loop compile i [] = []"
| "buildMeta_loop compile i (f # fs) =
     (if \<not> sf_exported f \<or> sf_validate f = [] then buildMeta_loop compile (Suc i) fs
      else \<lparr>fm_name = (if sf_config f = [] then to_lower (sf_name f) else sf_config f), fm_index = i,
            fm_rules = parseValidateTag compile (sf_validate f)\<rparr> # buildMeta_loop compile (Suc i) fs)"

type_synonym meta_cache = "(nat \<times> fieldMeta list) list"

fun rule_errors :: "unicode \<Rightarrow> string \<Rightarrow> Validator list \<Rightarrow> any \<Rightarrow> goerror list" where
  "rule_errors u name [] v = []"
| "rule_errors u name (r # rs) v =
     (case validate_with u r v of
        Some err \<Rightarrow> [ValidationError name (Name r) (Error_Error err) None]
      | None \<Rightarrow> []) @ rule_errors u name rs v"

definition field_errors :: "unicode \<Rightarrow> structfield list \<Rightarrow> fieldMeta \<Rightarrow> goerror list" where
  "field_errors u fs fm = rule_errors u (fm_name fm) (fm_rules fm) (sf_value (fs ! fm_index fm))"

definition validateStruct ::
  "unicode \<Rightarrow> (string \<Rightarrow> (string \<Rightarrow> bool) option) \<Rightarrow> meta_cache \<Rightarrow> reflected \<Rightarrow> goerror option \<times> meta_cache" where
  "validateStruct u compile cache rv =
     (case rv of
        NilPointer \<Rightarrow> (None, cache)
      | NotAStruct \<Rightarrow> (Some (PlainError ''value must be a struct''), cache)
      | AStruct rt fs \<Rightarrow>
          let (meta, cache') =
                (case mget cache rt of
                   Some meta \<Rightarrow> (meta, cache)
                 | None \<Rightarrow> (let meta = buildMeta_loop compile 0 fs in (meta, mput rt meta cache)));
              errs = concat (map (field_errors u fs) meta)
          in (if length errs > 0 then Some (ValidationErrors errs) else None, cache'))"

section \<open>Plans report exactly the violations\<close>

text \<open>Whether a rule is violated, and the error that reports it.\<close>

definition violated :: "unicode \<Rightarrow> data \<Rightarrow> Rule \<Rightarrow> bool" where
  "violated u config r \<longleftrightarrow>
     (case mget config (ru_key r) of
        None \<Rightarrow> ru_required r
      | Some v \<Rightarrow> \<exists>val. ru_validator r = Some val \<and> validate_with u val (vraw v) \<noteq> None)"

definition violation_error :: "unicode \<Rightarrow> data \<Rightarrow> Rule \<Rightarrow> goerror" where
  "violation_error u config r =
     (case mget config (ru_key r) of
        None \<Rightarrow> ValidationError (ru_key r) ''required'' (ru_message r) None
      | Some v \<Rightarrow> ValidationError (ru_key r) (Name (the (ru_validator r))) (ru_message r)
                  (validate_with u (the (ru_validator r)) (vraw v)))"

lemma plan_loop_violations:
  "plan_loop u config rules errs = errs @ map (violation_error u config) (filter (violated u config) rules)"
  by (induction u config rules errs rule: plan_loop.induct)
     (auto simp: violated_def violation_error_def split: option.split)

lemma plan_reports: "Plan_Validate u (NewPlan rules) config =
    (let bad = filter (violated u config) rules
     in if bad = [] then None else Some (ValidationErrors (map (violation_error u config) bad)))"
  by (simp add: Plan_Validate_def NewPlan_def plan_loop_violations Let_def)

lemma mget_index_rules:
  "mget (index_rules i rules m) k =
     (if \<exists>r\<in>set rules. ru_key r = k
      then Some (i + last (filter (\<lambda>j. ru_key (rules ! j) = k) [0..<length rules])) else mget m k)"
proof (induction i rules m rule: index_rules.induct)
  case (2 i r rs m)
  have up: "[0..<length (r # rs)] = 0 # map Suc [0..<length rs]"
    by (simp add: map_Suc_upt upt_conv_Cons del: upt_Suc)
  have f: "filter (\<lambda>j. ru_key ((r # rs) ! j) = k) [0..<length (r # rs)]
      = (if ru_key r = k then [0] else []) @ map Suc (filter (\<lambda>j. ru_key (rs ! j) = k) [0..<length rs])"
    unfolding up by (simp add: filter_map o_def)
  show ?case
  proof (cases "\<exists>r\<in>set rs. ru_key r = k")
    case True
    then obtain j where "j < length rs" "ru_key (rs ! j) = k" by (auto simp: in_set_conv_nth)
    then have "filter (\<lambda>j. ru_key (rs ! j) = k) [0..<length rs] \<noteq> []" by (auto simp: filter_empty_conv)
    then show ?thesis using True 2 unfolding f by (simp add: last_map)
  next
    case False
    then have "filter (\<lambda>j. ru_key (rs ! j) = k) [0..<length rs] = []" by (auto simp: filter_empty_conv)
    then show ?thesis using False 2 unfolding f by auto
  qed
qed simp

section \<open>Text rules\<close>

lemma index_of_append: "c \<notin> set a \<Longrightarrow> index_of c (a @ c # b) = Some (length a)"
  by (induction a) auto

lemma last_index_of_None: "c \<notin> set s \<Longrightarrow> last_index_of c s = None"
  by (induction s) auto

lemma last_index_of_append: "c \<notin> set b \<Longrightarrow> last_index_of c (a @ c # b) = Some (length a)"
  by (induction a) (auto simp: last_index_of_None)

text \<open>The e-mail rule as a shape: name, at sign, domain, dot, ending.\<close>

lemma email_ok_iff:
  "email_ok s \<longleftrightarrow>
     (\<exists>name domain ending. s = name @ CHR ''@'' # domain @ CHR ''.'' # ending
        \<and> name \<noteq> [] \<and> CHR ''@'' \<notin> set name \<and> domain \<noteq> [] \<and> ending \<noteq> [] \<and> CHR ''.'' \<notin> set ending)"
proof
  assume ok: "email_ok s"
  then have "CHR ''@'' \<in> set s" "CHR ''.'' \<in> set s" by (simp_all add: email_ok_def Let_def)
  then obtain name rest pre ending where s: "s = name @ CHR ''@'' # rest" "CHR ''@'' \<notin> set name"
    "s = pre @ CHR ''.'' # ending" "CHR ''.'' \<notin> set ending"
    by (meson split_list_first split_list_last)
  have i: "index_of (CHR ''@'') s = Some (length name)" "last_index_of (CHR ''.'') s = Some (length pre)"
    using s index_of_append last_index_of_append by metis+
  then have b: "name \<noteq> []" "length pre \<ge> length name + 2" "length pre + 1 < length s"
    using ok by (auto simp: email_ok_def go_index_def Let_def)
  have "take (length name + 1) pre = name @ [CHR ''@'']"
  proof -
    have "take (length name + 1) s = name @ [CHR ''@'']" by (simp add: s(1))
    moreover have "take (length name + 1) s = take (length name + 1) pre" using b(2) by (simp add: s(3))
    ultimately show ?thesis by simp
  qed
  then have "pre = name @ CHR ''@'' # drop (length name + 1) pre"
    using append_take_drop_id [of "length name + 1" pre] by simp
  moreover have "drop (length name + 1) pre \<noteq> []" "ending \<noteq> []" "name \<noteq> []"
    using b s(3) by auto
  ultimately show "\<exists>name domain ending. s = name @ CHR ''@'' # domain @ CHR ''.'' # ending
      \<and> name \<noteq> [] \<and> CHR ''@'' \<notin> set name \<and> domain \<noteq> [] \<and> ending \<noteq> [] \<and> CHR ''.'' \<notin> set ending"
    using s by (metis append_assoc append_Cons)
next
  assume "\<exists>name domain ending. s = name @ CHR ''@'' # domain @ CHR ''.'' # ending
      \<and> name \<noteq> [] \<and> CHR ''@'' \<notin> set name \<and> domain \<noteq> [] \<and> ending \<noteq> [] \<and> CHR ''.'' \<notin> set ending"
  then obtain name domain ending where s: "s = name @ CHR ''@'' # domain @ CHR ''.'' # ending"
    "name \<noteq> []" "CHR ''@'' \<notin> set name" "domain \<noteq> []" "ending \<noteq> []" "CHR ''.'' \<notin> set ending" by blast
  have i: "index_of (CHR ''@'') s = Some (length name)"
    "last_index_of (CHR ''.'') s = Some (length name + 1 + length domain)"
    using index_of_append [OF s(3), of "domain @ CHR ''.'' # ending"]
      last_index_of_append [OF s(6), of "name @ CHR ''@'' # domain"] by (simp_all add: s(1))
  have "length name \<ge> 1" "length domain \<ge> 1" "length ending \<ge> 1"
    using s by (simp_all add: Suc_le_eq)
  then show "email_ok s"
    by (simp add: email_ok_def go_index_def Let_def i) (simp add: s)
qed

text \<open>On ASCII text a rune is a byte.\<close>

definition hex_char :: "char \<Rightarrow> bool" where
  "hex_char c \<longleftrightarrow> is_digit c \<or> 97 \<le> byte c \<and> byte c \<le> 102 \<or> 65 \<le> byte c \<and> byte c \<le> 70"

lemma uuid_ascii:
  assumes "\<forall>c\<in>set s. byte c < 128"
  shows "validateUUID u (AString s) = None \<longleftrightarrow>
    length s = 36 \<and> (\<forall>i<36. if i \<in> {8, 13, 18, 23} then s ! i = CHR ''-'' else hex_char (s ! i))"
proof -
  have dash: "byte c = 45 \<longleftrightarrow> c = CHR ''-''" for c
  proof
    assume "byte c = 45"
    then have "(char_of (of_char c :: nat) :: char) = char_of (45 :: nat)" by (simp add: byte_def)
    then show "c = CHR ''-''" by (simp add: char_of_char) code_simp
  qed (simp add: byte_def)
  have "list_all (uuid_rune_ok u) (List.enumerate 0 (map byte s)) \<longleftrightarrow>
      (\<forall>i<length s. uuid_rune_ok u (i, byte (s ! i)))"
    by (auto simp: list_all_length nth_enumerate_eq)
  moreover have "uuid_rune_ok u (i, byte (s ! i)) \<longleftrightarrow>
      (if i \<in> {8, 13, 18, 23} then s ! i = CHR ''-'' else hex_char (s ! i))" if "i < length s" for i
    using that assms by (auto simp: uuid_rune_ok_def dash hex_char_def isDigit_def is_digit_def)
  ultimately show ?thesis
    by (auto simp: validateUUID_def fail_def fail_if_def runes_ascii [OF assms])
qed

section \<open>Tags\<close>

text \<open>The tag that asks for a validator, for those a tag can express.\<close>

fun tag_text :: "Validator \<Rightarrow> string" where
  "tag_text RequiredValidator = ''required''"
| "tag_text (MinValidator n) = ''min='' @ itoa (sint n)"
| "tag_text (MaxValidator n) = ''max='' @ itoa (sint n)"
| "tag_text EmailValidator = ''email''"
| "tag_text URLValidator = ''url''"
| "tag_text (EnumValidator vs) = ''enum='' @ join_with (CHR ''|'') vs"
| "tag_text _ = []"

definition enum_word :: "string \<Rightarrow> bool" where
  "enum_word w \<longleftrightarrow> w \<noteq> [] \<and> (\<forall>c\<in>set w. plain_char c \<and> c \<noteq> CHR '','' \<and> c \<noteq> CHR ''|'')"

fun taggable :: "Validator \<Rightarrow> bool" where
  "taggable RequiredValidator = True"
| "taggable (MinValidator n) = True"
| "taggable (MaxValidator n) = True"
| "taggable EmailValidator = True"
| "taggable URLValidator = True"
| "taggable (EnumValidator vs) = (vs \<noteq> [] \<and> list_all enum_word vs)"
| "taggable _ = False"

lemma set_join_with: "set (join_with c ws) \<subseteq> insert c (\<Union> (set ` set ws))"
  by (induction c ws rule: join_with.induct) auto

lemma join_with_ends:
  "ws \<noteq> [] \<Longrightarrow> \<forall>w\<in>set ws. w \<noteq> [] \<Longrightarrow>
     join_with c ws \<noteq> [] \<and> hd (join_with c ws) = hd (hd ws) \<and> last (join_with c ws) = last (last ws)"
proof (induction ws)
  case step: (Cons w ws)
  show ?case
  proof (cases ws)
    case Nil
    then show ?thesis using step.prems by simp
  next
    case (Cons v vs)
    define j where "j = join_with c ws"
    have "join_with c (w # ws) = w @ c # j" by (simp add: Cons j_def)
    moreover have "j \<noteq> []" "last j = last (last ws)" "ws \<noteq> []" "w \<noteq> []"
      using step.IH step.prems Cons by (auto simp: j_def)
    ultimately show ?thesis by simp
  qed
qed simp

lemma tag_rule_text:
  assumes "taggable v"
  shows "tag_rule compile (tag_text v) = [v]"
proof (cases v)
  case (EnumValidator vs)
  then have vs: "vs \<noteq> []" "\<forall>w\<in>set vs. enum_word w" using assms by (simp_all add: list_all_iff)
  have e: "\<forall>w\<in>set vs. w \<noteq> []" using vs(2) by (simp add: enum_word_def)
  have "plain_char (hd (hd vs))" "plain_char (last (last vs))"
  proof -
    have "enum_word (hd vs)" "enum_word (last vs)" using vs by simp_all
    then show "plain_char (hd (hd vs))" "plain_char (last (last vs))"
      by (simp_all add: enum_word_def)
  qed
  then have tr: "trim_space (join_with (CHR ''|'') vs) = join_with (CHR ''|'') vs"
    using join_with_ends [OF vs(1) e, of "CHR ''|''"] by (intro trim_space_plain) simp
  have "split_on (CHR ''|'') (join_with (CHR ''|'') vs) = vs"
    using vs by (intro split_on_dotted) (auto simp: enum_word_def)
  moreover have "split2 (CHR ''='') (tag_text v) = (''enum'', Some (join_with (CHR ''|'') vs))"
    using split2_append [of "CHR ''=''" "''enum''" "join_with (CHR ''|'') vs"] by (simp add: EnumValidator)
  ultimately show ?thesis
    using trim_space_plain [of "''enum''"] by (simp add: tag_rule_def EnumValidator tr plain_char_def byte_def)
next
  case (MinValidator n)
  have "split2 (CHR ''='') (tag_text v) = (''min'', Some (itoa (sint n)))"
    using split2_append [of "CHR ''=''" "''min''" "itoa (sint n)"] by (simp add: MinValidator)
  then show ?thesis
    using trim_space_plain [of "''min''"] by (simp add: tag_rule_def MinValidator atoi_itoa plain_char_def byte_def)
next
  case (MaxValidator n)
  have "split2 (CHR ''='') (tag_text v) = (''max'', Some (itoa (sint n)))"
    using split2_append [of "CHR ''=''" "''max''" "itoa (sint n)"] by (simp add: MaxValidator)
  then show ?thesis
    using trim_space_plain [of "''max''"] by (simp add: tag_rule_def MaxValidator atoi_itoa plain_char_def byte_def)
next
  case RequiredValidator
  then show ?thesis
    using trim_space_plain [of "''required''"] by (simp add: tag_rule_def split2_plain plain_char_def byte_def)
next
  case EmailValidator
  then show ?thesis
    using trim_space_plain [of "''email''"] by (simp add: tag_rule_def split2_plain plain_char_def byte_def)
next
  case URLValidator
  then show ?thesis
    using trim_space_plain [of "''url''"] by (simp add: tag_rule_def split2_plain plain_char_def byte_def)
qed (use assms in auto)

lemma tag_text_no_comma: "taggable v \<Longrightarrow> CHR '','' \<notin> set (tag_text v)"
proof (cases v)
  case (EnumValidator vs)
  moreover assume "taggable v"
  ultimately show ?thesis
    using set_join_with [of "CHR ''|''" vs] by (auto simp: list_all_iff enum_word_def)
qed (auto dest: itoa_chars simp: is_digit_def byte_def)

lemma tag_loop_concat: "tag_loop compile parts rules = rules @ concat (map (tag_rule compile) parts)"
  by (induction compile parts rules rule: tag_loop.induct) auto

section \<open>Results\<close>

text \<open>
  C38: a plan reports exactly the violations.  Validation succeeds when no rule is violated and
  otherwise returns one error per violated rule, in rule order: a required key that is missing, or
  a validator that rejects the raw value of a key that is there, with the validator's own error
  as the cause.  A missing key that is not required is never validated.
\<close>

theorem plan_reports_violations:
  "Plan_Validate u (NewPlan rules) config =
    (let bad = filter (violated u config) rules
     in if bad = [] then None else Some (ValidationErrors (map (violation_error u config) bad)))"
  by (rule plan_reports)

text \<open>
  On every value but a string the range validator accepts what the minimum and the maximum
  validators both accept; a string, whose length those two check, it accepts whatever its length.
\<close>

theorem range_is_min_and_max:
  "validate_with u (RangeValidator lo hi) v = None \<longleftrightarrow>
    (\<exists>s. v = AString s)
    \<or> validate_with u (MinValidator lo) v = None \<and> validate_with u (MaxValidator hi) v = None"
  by (cases v) (auto simp: validateRange_def validateBoundary_def fail_if_def fail_def Let_def)

text \<open>
  The e-mail validator accepts exactly the strings with a non-empty name before the first at
  sign and after it a non-empty domain, a dot, and a non-empty ending without dots.
\<close>

theorem email_shape:
  "validate_with u EmailValidator (AString s) = None \<longleftrightarrow>
     (\<exists>name domain ending. s = name @ CHR ''@'' # domain @ CHR ''.'' # ending
        \<and> name \<noteq> [] \<and> CHR ''@'' \<notin> set name \<and> domain \<noteq> [] \<and> ending \<noteq> [] \<and> CHR ''.'' \<notin> set ending)"
  by (simp add: validateEmail_def fail_if_def fail_def email_ok_iff)

text \<open>
  On ASCII text the UUID validator accepts exactly 36 characters that are dashes at 8, 13, 18
  and 23 and hexadecimal digits elsewhere.
\<close>

theorem uuid_shape:
  assumes "\<forall>c\<in>set s. byte c < 128"
  shows "validate_with u UUIDValidator (AString s) = None \<longleftrightarrow>
    length s = 36 \<and> (\<forall>i<36. if i \<in> {8, 13, 18, 23} then s ! i = CHR ''-'' else hex_char (s ! i))"
  using uuid_ascii [OF assms] by simp

theorem uuid_shape_witness:
  "validate_with \<lparr>uni_letter = (\<lambda>_. False), uni_digit = (\<lambda>_. False)\<rparr> UUIDValidator
     (AString ''123e4567-e89b-12d3-a456-426614174000'') = None"
proof -
  have "\<forall>c\<in>set ''123e4567-e89b-12d3-a456-426614174000''. byte c < 128" by code_simp
  moreover have "list_all (\<lambda>i. if i \<in> {8, 13, 18, 23}
      then ''123e4567-e89b-12d3-a456-426614174000'' ! i = CHR ''-''
      else hex_char (''123e4567-e89b-12d3-a456-426614174000'' ! i)) [0..<36]" by code_simp
  then have "\<forall>i<36. if i \<in> {8, 13, 18, 23}
      then ''123e4567-e89b-12d3-a456-426614174000'' ! i = CHR ''-''
      else hex_char (''123e4567-e89b-12d3-a456-426614174000'' ! i)"
    unfolding list_all_iff by (simp only: atLeast_upt [symmetric]) blast
  ultimately show ?thesis using uuid_shape by (simp only:) simp
qed

text \<open>
  Tags and validators correspond.  Writing any list of validators that tags can express
  as a tag and parsing it gives the same validators in the same order, numbers and enumerated
  words included.
\<close>

theorem validate_tag_roundtrip:
  assumes "list_all taggable vs"
  shows "parseValidateTag compile (join_with (CHR '','') (map tag_text vs)) = vs"
proof (cases "vs = []")
  case True
  have "trim_space [] = []" by (intro trim_space_plain) simp
  then show ?thesis using True
    by (simp add: parseValidateTag_def tag_rule_def split2_def)
next
  case False
  have "split_on (CHR '','') (join_with (CHR '','') (map tag_text vs)) = map tag_text vs"
    using False assms tag_text_no_comma by (intro split_on_dotted) (auto simp: list_all_iff)
  moreover have "concat (map (tag_rule compile) (map tag_text vs)) = vs"
    using assms by (induction vs) (auto simp: tag_rule_text)
  ultimately show ?thesis by (simp add: parseValidateTag_def tag_loop_concat)
qed

theorem validate_tag_roundtrip_witness:
  "parseValidateTag (\<lambda>_. None) ''required,min=3,enum=dev|prod''
     = [RequiredValidator, MinValidator 3, EnumValidator [''dev'', ''prod'']]"
proof -
  let ?vs = "[RequiredValidator, MinValidator 3, EnumValidator [''dev'', ''prod'']]"
  have "list_all taggable ?vs" by (simp add: enum_word_def plain_char_def byte_def)
  moreover have "join_with (CHR '','') (map tag_text ?vs) = ''required,min=3,enum=dev|prod''"
    by code_simp
  ultimately show ?thesis using validate_tag_roundtrip [of ?vs "\<lambda>_. None"] by simp
qed

end
