(* ===== verification/Config.thy ===== *)
theory Config
  imports Crypto Bind WatchGroup Loader Snapshot Validate
begin

text \<open>
  The facade (config.go): construction from options, reads, updates, reloading, snapshots,
  validation, merging, cloning and template processing, on top of the engine.

  A source is what the facade uses of it: its \<open>Load\<close> and \<open>Close\<close>, acting on the world.  Each
  operation is one atomic step here; \<open>Set\<close> is also given in the two steps, read and commit, that
  other goroutines can come between.
\<close>

section \<open>The configuration\<close>

record 'w source =
  src_load :: "'w loader"
  src_close :: "'w hook"

record 'w Config =
  cfg_engine :: "'w Engine"
  cfg_snapshots :: Manager
  cfg_binder :: Binder
  cfg_validator :: meta_cache
  cfg_crypto :: "'w CryptoManager option"
  cfg_watcher :: "'w WatchManager"
  cfg_sources :: "'w source list"
  cfg_closed :: bool
  cfg_onChange :: "(Event \<Rightarrow> 'w \<Rightarrow> 'w) list"
  cfg_hooks :: "HookType \<Rightarrow> 'w hook list"

text \<open>The result of an operation that may panic: an error or none, the configuration, the world.\<close>

type_synonym 'w outcome = "(goerror option \<times> 'w Config \<times> 'w) option"

definition on_engine :: "'w Config \<Rightarrow> (goerror option \<times> 'w Engine \<times> 'w) option \<Rightarrow> 'w outcome" where
  "on_engine c r = map_option (\<lambda>(err, e, w). (err, c\<lparr>cfg_engine := e\<rparr>, w)) r"

definition reload :: "int \<Rightarrow> 'w Config \<Rightarrow> 'w \<Rightarrow> 'w outcome" where
  "reload now c w = on_engine c (Engine.Load now (map src_load (cfg_sources c)) (cfg_engine c) w)"

section \<open>Construction\<close>

type_synonym 'w option_fun = "'w Config \<Rightarrow> goerror + 'w Config"

definition add_source :: "'w source \<Rightarrow> 'w Config \<Rightarrow> 'w Config" where
  "add_source s c = c\<lparr>cfg_sources := cfg_sources c @ [s]\<rparr>"

definition no_close :: "'w hook" where "no_close w = (None, w)"

definition WithFile ::
  "(string \<Rightarrow> goerror + json gomap option) \<Rightarrow> ('w \<Rightarrow> string \<Rightarrow> goerror + string) \<Rightarrow> (string \<Rightarrow> goerror + string) \<Rightarrow>
     string \<Rightarrow> FileOption list \<Rightarrow> 'w option_fun" where
  "WithFile decode read_file resolve path opts c =
     (case resolve path of
        Inl err \<Rightarrow> Inl err
      | Inr resolved \<Rightarrow> Inr (add_source
          \<lparr>src_load = FileSource_loader decode read_file (NewFileSource resolved opts), src_close = no_close\<rparr> c))"

definition WithEnv :: "('w \<Rightarrow> string list) \<Rightarrow> string \<Rightarrow> EnvOption list \<Rightarrow> 'w option_fun" where
  "WithEnv environ pre opts c = Inr (add_source
     \<lparr>src_load = EnvSource_Load environ (NewEnvSource (WithEnvPrefix pre # opts)), src_close = no_close\<rparr> c)"

definition WithMemory :: "any gomap \<Rightarrow> MemoryOption list \<Rightarrow> 'w option_fun" where
  "WithMemory d opts c = Inr (add_source
     \<lparr>src_load = MemorySource_Load (NewMemorySource (WithMemoryData d # opts)), src_close = no_close\<rparr> c)"

text \<open>
  A remote source keeps its cache, and the time it expires, in a cell of the world, which \<open>cache_of\<close> reads
  and \<open>put_cache\<close> writes; \<open>clock\<close> is the time in a world.
\<close>

definition remote_loader ::
  "('w \<Rightarrow> nildata \<times> int) \<Rightarrow> (nildata \<times> int \<Rightarrow> 'w \<Rightarrow> 'w) \<Rightarrow> ('w \<Rightarrow> int) \<Rightarrow> 'w RemoteSource \<Rightarrow> 'w loader" where
  "remote_loader cache_of put_cache clock r w =
     (let r1 = r\<lparr>rs_cache := fst (cache_of w), rs_cacheExpiry := snd (cache_of w)\<rparr>;
          after_fetch = snd (snd (RemoteSource_Load (clock w) 0 r1 w))
      in case RemoteSource_Load (clock w) (clock after_fetch) r1 w of
           (res, r2, w') \<Rightarrow> (res, put_cache (rs_cache r2, rs_cacheExpiry r2) w'))"

definition WithRemote ::
  "('w \<Rightarrow> nildata \<times> int) \<Rightarrow> (nildata \<times> int \<Rightarrow> 'w \<Rightarrow> 'w) \<Rightarrow> ('w \<Rightarrow> int) \<Rightarrow> string \<Rightarrow> 'w RemoteOption list \<Rightarrow> 'w option_fun" where
  "WithRemote cache_of put_cache clock endpoint opts c = Inr (add_source
     \<lparr>src_load = remote_loader cache_of put_cache clock (NewRemoteSource endpoint opts), src_close = no_close\<rparr> c)"

definition WithHook :: "HookType \<Rightarrow> 'w hook \<Rightarrow> 'w option_fun" where
  "WithHook t h c = Inr (c\<lparr>cfg_hooks := (cfg_hooks c)(t := cfg_hooks c t @ [h])\<rparr>)"

definition WithWatcher :: "'w option_fun" where "WithWatcher c = Inr c"

definition WithObserver :: "(Event \<Rightarrow> 'w \<Rightarrow> 'w) \<Rightarrow> 'w option_fun" where
  "WithObserver fn c = Inr (c\<lparr>cfg_onChange := cfg_onChange c @ [fn]\<rparr>)"

definition WithEncryption ::
  "(string \<Rightarrow> string) \<Rightarrow> (string \<Rightarrow> string \<Rightarrow> string \<Rightarrow> string) \<Rightarrow> (string \<Rightarrow> string \<Rightarrow> string \<Rightarrow> goerror + string)
     \<Rightarrow> 'w randomness \<Rightarrow> string \<Rightarrow> 'w option_fun" where
  "WithEncryption sha seal open_sealed read_random key c =
     (case NewCryptoManager sha seal open_sealed read_random key of
        Inl err \<Rightarrow> Inl err
      | Inr mgr \<Rightarrow> Inr (c\<lparr>cfg_crypto := Some mgr\<rparr>))"

fun apply_options :: "'w option_fun list \<Rightarrow> 'w option_fun" where
  "apply_options [] c = Inr c"
| "apply_options (p # ps) c = (case p c of Inl err \<Rightarrow> Inl err | Inr c' \<Rightarrow> apply_options ps c')"

definition initial_config :: "int \<Rightarrow> 'w Config" where
  "initial_config now = \<lparr>cfg_engine = NewEngine now, cfg_snapshots = NewManager 100, cfg_binder = NewBinder, cfg_validator = [],
     cfg_crypto = None, cfg_watcher = NewWatchManager, cfg_sources = [], cfg_closed = False, cfg_onChange = [],
     cfg_hooks = (\<lambda>_. [])\<rparr>"

definition New :: "int \<Rightarrow> 'w option_fun list \<Rightarrow> 'w \<Rightarrow> ((goerror + 'w Config) \<times> 'w) option" where
  "New now opts w =
     (case apply_options opts (initial_config now) of
        Inl err \<Rightarrow> Some (Inl err, w)
      | Inr c \<Rightarrow>
          if length (cfg_sources c) > 0 then
            (case reload now c w of
               None \<Rightarrow> None
             | Some (Some err, c', w') \<Rightarrow> Some (Inl err, w')
             | Some (None, c', w') \<Rightarrow> Some (Inr c', w'))
          else Some (Inr c, w))"

section \<open>Reads\<close>

definition Get :: "'w Config \<Rightarrow> string \<Rightarrow> Value \<times> bool" where
  "Get c key = State_Get (eng_state (cfg_engine c)) key"

definition GetStringDefault :: "'w Config \<Rightarrow> string \<Rightarrow> string \<Rightarrow> string" where
  "GetStringDefault c key def = (let (v, ok) = Get c key in if ok then vstr v else def)"

definition GetString :: "'w Config \<Rightarrow> string \<Rightarrow> string" where
  "GetString c key = (let (v, ok) = Get c key in if ok then vstr v else [])"

text \<open>A typed getter: look up, call the accessor, fall back to the default.\<close>

definition typed_get :: "(Value \<Rightarrow> ('a \<times> bool) option) \<Rightarrow> 'w Config \<Rightarrow> string \<Rightarrow> 'a \<Rightarrow> 'a option" where
  "typed_get accessor c key def =
     (let (v, ok) = Get c key
      in if ok then (case accessor v of
           None \<Rightarrow> None | Some (x, okx) \<Rightarrow> if okx then Some x else Some def)
         else Some def)"

definition GetIntDefault where "GetIntDefault c key def = typed_get Value_Int c key def"
definition GetInt where "GetInt c key = typed_get Value_Int c key 0"
definition GetInt64 where "GetInt64 c key = typed_get Value_Int64 c key 0"
definition GetFloat64 where "GetFloat64 c key = typed_get Value_Float64 c key f64_zero"
definition GetBool where "GetBool c key = typed_get Value_Bool c key False"
definition GetBoolDefault where "GetBoolDefault c key def = typed_get Value_Bool c key def"
definition GetDuration where "GetDuration c key = typed_get Value_Duration c key 0"
definition GetDurationDefault where "GetDurationDefault c key def = typed_get Value_Duration c key def"

definition GetSlice :: "'w Config \<Rightarrow> string \<Rightarrow> any list option" where
  "GetSlice c key = (let (v, ok) = Get c key
     in if ok then (case vraw v of ASlice s \<Rightarrow> Some s | _ \<Rightarrow> None) else None)"

definition GetMap :: "'w Config \<Rightarrow> string \<Rightarrow> any gomap option" where
  "GetMap c key = (let (v, ok) = Get c key
     in if ok then (case vraw v of AMap m \<Rightarrow> Some m | _ \<Rightarrow> None) else None)"

definition Has :: "'w Config \<Rightarrow> string \<Rightarrow> bool" where
  "Has c key = snd (Get c key)"

definition Keys :: "'w Config \<Rightarrow> string list option" where
  "Keys c = State_Keys (eng_state (cfg_engine c))"

definition TypeOf :: "'w Config \<Rightarrow> string \<Rightarrow> ValueType" where
  "TypeOf c key = (let (v, ok) = Get c key in if ok then vtyp v else TypeUnknown)"

definition SourceOf :: "'w Config \<Rightarrow> string \<Rightarrow> SourceType" where
  "SourceOf c key = (let (v, ok) = Get c key in if ok then vsource v else SourceNone)"

definition All :: "'w Config \<Rightarrow> nildata" where
  "All c = State_GetAll (eng_state (cfg_engine c))"

definition Data :: "'w Config \<Rightarrow> any gomap" where
  "Data c = mput_all [] (raws (entries (All c)))"

definition AsFlatMap :: "'w Config \<Rightarrow> string gomap" where
  "AsFlatMap c = mput_all [] (map (\<lambda>(k, v). (k, vstr v)) (entries (All c)))"

record Stats =
  KeyCount :: nat
  Version :: u64
  SnapshotCount :: nat
  HasEncryption :: bool
  IsClosed :: bool

definition Config_Stats :: "'w Config \<Rightarrow> Stats" where
  "Config_Stats c =
     (let s = eng_state (cfg_engine c)
      in \<lparr>KeyCount = (case State_Keys s of None \<Rightarrow> 0 | Some ks \<Rightarrow> length ks), Version = st_version s,
          SnapshotCount = length (mg_snapshots (cfg_snapshots c)), HasEncryption = (cfg_crypto c \<noteq> None),
          IsClosed = cfg_closed c\<rparr>)"

section \<open>Updates\<close>

definition config_closed_error :: goerror where
  "config_closed_error = NewError ErrContextCanceled ''config is closed'' []"

definition update_with :: "int \<Rightarrow> nildata \<Rightarrow> 'w Config \<Rightarrow> 'w \<Rightarrow> 'w outcome" where
  "update_with now d c w = on_engine c (Update now (NewState now d []) (cfg_engine c) w)"

definition set_data :: "string \<Rightarrow> any \<Rightarrow> nildata \<Rightarrow> data" where
  "set_data key v d = mput key (NewValue v (inferType v) SourceMemory 30) (entries d)"

definition Set :: "int \<Rightarrow> string \<Rightarrow> any \<Rightarrow> 'w Config \<Rightarrow> 'w \<Rightarrow> 'w outcome" where
  "Set now key v c w =
     (if cfg_closed c then Some (Some config_closed_error, c, w)
      else update_with now (Some (set_data key v (All c))) c w)"

definition Delete :: "int \<Rightarrow> string \<Rightarrow> 'w Config \<Rightarrow> 'w \<Rightarrow> 'w outcome" where
  "Delete now key c w =
     (if cfg_closed c then Some (Some config_closed_error, c, w)
      else update_with now (map_option (mdel key) (All c)) c w)"

definition Reload :: "int \<Rightarrow> 'w Config \<Rightarrow> 'w \<Rightarrow> 'w outcome" where
  "Reload now c w = reload now c w"

definition Config_Observe :: "'w Config \<Rightarrow> (goerror + i64) \<times> 'w Config" where
  "Config_Observe c = (let (r, e) = Observe False (cfg_engine c) in (r, c\<lparr>cfg_engine := e\<rparr>))"

definition Config_Snapshot :: "int \<Rightarrow> SnapshotOption list \<Rightarrow> 'w Config \<Rightarrow> (Snapshot \<times> 'w Config) option" where
  "Config_Snapshot now opts c =
     map_option (\<lambda>(s, m). (s, c\<lparr>cfg_snapshots := m\<rparr>)) (Take now (All c) opts (cfg_snapshots c))"

definition Restore :: "int \<Rightarrow> Snapshot option \<Rightarrow> 'w Config \<Rightarrow> 'w \<Rightarrow> 'w outcome" where
  "Restore now snap c w =
     (case snap of
        None \<Rightarrow> Some (Some (NewError ErrNotFound ''snapshot is nil'' []), c, w)
      | Some s \<Rightarrow> update_with now (Some (Snapshot_Data s)) c w)"

definition LatestSnapshot :: "'w Config \<Rightarrow> Snapshot option" where
  "LatestSnapshot c = Latest (cfg_snapshots c)"

definition Snapshots :: "'w Config \<Rightarrow> Snapshot list" where
  "Snapshots c = Manager_List (cfg_snapshots c) 0 0"

definition Config_Validate :: "unicode \<Rightarrow> Plan \<Rightarrow> 'w Config \<Rightarrow> goerror option" where
  "Config_Validate u plan c = Plan_Validate u plan (entries (All c))"

definition Config_Merge :: "int \<Rightarrow> 'w Config option \<Rightarrow> 'w Config \<Rightarrow> 'w \<Rightarrow> 'w outcome" where
  "Config_Merge now other c w =
     (case other of
        None \<Rightarrow> Some (None, c, w)
      | Some c2 \<Rightarrow> update_with now (Merger_Merge StrategyLast [All c, All c2]) c w)"

definition Clone :: "int \<Rightarrow> 'w Config \<Rightarrow> 'w \<Rightarrow> ((goerror + 'w Config) \<times> 'w) option" where
  "Clone now c w = New now [WithMemory (entries (State_Export (eng_state (cfg_engine c)))) []] w"

text \<open>\<open>Close\<close> up to the wait for the observers; the errors of the sources and the watcher are dropped.\<close>

definition Config_Close :: "'w Config \<Rightarrow> 'w \<Rightarrow> 'w Config \<times> 'w" where
  "Config_Close c w =
     (if cfg_closed c then (c, w)
      else let (_, w1) = close_all (map src_close (cfg_sources c)) None w;
               (_, watcher, w2) = WatchManager_Stop (cfg_watcher c) w1
           in (c\<lparr>cfg_closed := True, cfg_watcher := watcher, cfg_engine := Engine_Close (cfg_engine c)\<rparr>, w2))"

section \<open>Templates\<close>

definition findColon :: "string \<Rightarrow> nat option" where
  "findColon s = index_of (CHR '':'') s"

text \<open>
  \<open>processTemplateDepth\<close>: the first argument is what is left of \<open>maxTemplateDepth\<close>.  The loop
  only looks ahead of its index, so it is written over the rest of the text; what it has passed
  or replaced is the result so far.
\<close>

function template :: "(string \<Rightarrow> Value \<times> bool) \<Rightarrow> nat \<Rightarrow> string \<Rightarrow> string" where
  "template get 0 s = s"
| "template get (Suc n) [] = []"
| "template get (Suc n) (c # cs) =
     (if c \<noteq> CHR ''$'' \<or> cs = [] \<or> hd cs \<noteq> CHR 0x7B then c # template get (Suc n) cs
      else case index_of (CHR 0x7D) (tl cs) of
        None \<Rightarrow> c # template get (Suc n) cs
      | Some close \<Rightarrow>
          let placeholder = take close (tl cs);
              after = drop (Suc close) (tl cs);
              (key, def) = (case findColon placeholder of
                 Some colon \<Rightarrow> (take colon placeholder, drop (Suc colon) placeholder)
               | None \<Rightarrow> (placeholder, []));
              (v, ok) = get key
          in if ok then template get n (vstr v) @ template get (Suc n) after
             else if def \<noteq> [] then def @ template get (Suc n) after
             else c # template get (Suc n) cs)"
  by pat_completeness auto
termination
  by (relation "measures [\<lambda>(_, n, _). n, \<lambda>(_, _, s). length s]") auto

definition maxTemplateDepth :: nat where "maxTemplateDepth = 16"

definition processTemplate :: "'w Config \<Rightarrow> string \<Rightarrow> string" where
  "processTemplate c s = template (Get c) maxTemplateDepth s"

fun template_loop :: "'w Config \<Rightarrow> data \<Rightarrow> data \<Rightarrow> bool \<Rightarrow> data \<times> bool" where
  "template_loop c [] d changed = (d, changed)"
| "template_loop c ((key, v) # rest) d changed =
     (case vraw v of
        AString s \<Rightarrow>
          let processed = processTemplate c s
          in if processed \<noteq> s
             then template_loop c rest
                    (mput key (NewValue (AString processed) TypeString (vsource v) (vpriority v)) d) True
             else template_loop c rest d changed
      | _ \<Rightarrow> template_loop c rest d changed)"

definition ProcessTemplates :: "int \<Rightarrow> 'w Config \<Rightarrow> 'w \<Rightarrow> 'w outcome" where
  "ProcessTemplates now c w =
     (let (d, changed) = template_loop c (entries (All c)) (entries (All c)) False
      in if changed then update_with now (Some d) c w else Some (None, c, w))"

section \<open>Updates through the engine\<close>

text \<open>
  An open configuration as \<open>New\<close> makes it: no hook ever reaches the engine, the observers'
  queues are open, and the state is a Go map.
\<close>

definition cfg_inv :: "'w Config \<Rightarrow> bool" where
  "cfg_inv c \<longleftrightarrow> eng_hooks (cfg_engine c) = (\<lambda>_. []) \<and> om_ready (eng_observers (cfg_engine c))
     \<and> \<not> eng_closed (cfg_engine c) \<and> \<not> cfg_closed c \<and> wf_map (entries (st_data (eng_state (cfg_engine c))))"

abbreviation cfg_data :: "'w Config \<Rightarrow> data" where
  "cfg_data c \<equiv> entries (st_data (eng_state (cfg_engine c)))"

abbreviation cfg_version :: "'w Config \<Rightarrow> u64" where
  "cfg_version c \<equiv> st_version (eng_state (cfg_engine c))"

lemma entries_All [simp]: "wf_map (cfg_data c) \<Longrightarrow> entries (All c) = cfg_data c"
  by (cases "st_data (eng_state (cfg_engine c))") (simp_all add: All_def State_GetAll_def)

lemma Get_iff: "Get c key = (v, True) \<longleftrightarrow> mget (cfg_data c) key = Some v"
  by (simp add: Get_def State_Get_iff)

lemma Get_cases: "Get c key = (case mget (cfg_data c) key of None \<Rightarrow> (zero_Value, False) | Some v \<Rightarrow> (v, True))"
  by (simp add: Get_def State_Get_def split: option.split)

lemma Get_eqI: "(\<And>v. Get c' k = (v, True) \<longleftrightarrow> Get c k = (v, True)) \<Longrightarrow> Get c' k = Get c k"
  unfolding Get_iff
  by (cases "mget (cfg_data c') k"; cases "mget (cfg_data c) k") (auto simp: Get_cases)

lemma update_with_ok:
  assumes "cfg_inv c" and "wf_map (entries d)"
  shows "\<exists>c'. update_with now d c w = Some (None, c', w) \<and> cfg_inv c'
    \<and> st_data (eng_state (cfg_engine c')) = d \<and> cfg_version c' = cfg_version c + 1
    \<and> cfg_snapshots c' = cfg_snapshots c \<and> cfg_sources c' = cfg_sources c"
proof -
  have h: "executeHooks (cfg_engine c) t w = (None, w)" for t
    using assms(1) by (simp add: cfg_inv_def executeHooks_def)
  have "om_ready (eng_observers (cfg_engine c))" "\<not> eng_closed (cfg_engine c)"
    using assms(1) by (simp_all add: cfg_inv_def)
  from Update_ready [OF this(1) h h, of now "NewState now d []"] this(2)
  obtain e' where u: "Update now (NewState now d []) (cfg_engine c) w = Some (None, e', w)"
    and e': "eng_state e' = NewState now d []\<lparr>st_version := cfg_version c + 1\<rparr>"
      "eng_hooks e' = eng_hooks (cfg_engine c)" "\<not> eng_closed e'" "om_ready (eng_observers e')"
    by auto
  show ?thesis
    by (rule exI [of _ "c\<lparr>cfg_engine := e'\<rparr>"])
       (use assms e' in \<open>simp add: update_with_def on_engine_def u cfg_inv_def\<close>)
qed

lemma update_with_closed:
  "eng_closed (cfg_engine c) \<Longrightarrow> update_with now d c w = Some (Some closed_error, c, w)"
  by (simp add: update_with_def on_engine_def Update_def)

section \<open>A map with snapshots\<close>

text \<open>
  What a client is promised: a partial map from keys to values, and the snapshots taken so far
  as maps of their own.
\<close>

datatype cfg_op =
    OpSet string any
  | OpDelete string
  | OpTake "SnapshotOption list"
  | OpRestore nat
  | OpMerge data
  | OpObserve

record spec =
  sp_map :: "string \<Rightarrow> Value option"
  sp_taken :: "(string \<Rightarrow> Value option) list"

fun spec_op :: "cfg_op \<Rightarrow> spec \<Rightarrow> spec" where
  "spec_op (OpSet k v) s = s\<lparr>sp_map := (sp_map s)(k \<mapsto> NewValue v (inferType v) SourceMemory 30)\<rparr>"
| "spec_op (OpDelete k) s = s\<lparr>sp_map := (sp_map s)(k := None)\<rparr>"
| "spec_op (OpTake opts) s = s\<lparr>sp_taken := sp_taken s @ [sp_map s]\<rparr>"
| "spec_op (OpRestore i) s = (if i < length (sp_taken s) then s\<lparr>sp_map := sp_taken s ! i\<rparr> else s)"
| "spec_op (OpMerge d) s = s\<lparr>sp_map := sp_map s ++ map_of d\<rparr>"
| "spec_op OpObserve s = s"

text \<open>Restoring a snapshot that was not taken is the only operation to be refused.\<close>

fun spec_err :: "cfg_op \<Rightarrow> spec \<Rightarrow> goerror option" where
  "spec_err (OpRestore i) s =
     (if i < length (sp_taken s) then None else Some (NewError ErrNotFound ''snapshot is nil'' []))"
| "spec_err _ s = None"

text \<open>The client holds the snapshots it has taken; restoring one it does not have passes nil.\<close>

type_synonym 'w session = "'w Config \<times> Snapshot list"

definition with_held :: "Snapshot list \<Rightarrow> 'w outcome \<Rightarrow> (goerror option \<times> 'w session \<times> 'w) option" where
  "with_held held r = map_option (\<lambda>(err, c, w). (err, (c, held), w)) r"

fun exec_op :: "int \<Rightarrow> cfg_op \<Rightarrow> 'w session \<Rightarrow> 'w \<Rightarrow> (goerror option \<times> 'w session \<times> 'w) option" where
  "exec_op now (OpSet k v) (c, held) w = with_held held (Set now k v c w)"
| "exec_op now (OpDelete k) (c, held) w = with_held held (Delete now k c w)"
| "exec_op now (OpTake opts) (c, held) w =
     map_option (\<lambda>(s, c'). (None, (c', held @ [s]), w)) (Config_Snapshot now opts c)"
| "exec_op now (OpRestore i) (c, held) w =
     with_held held (Restore now (if i < length held then Some (held ! i) else None) c w)"
| "exec_op now (OpMerge d) (c, held) w =
     with_held held (Config_Merge now
       (Some (initial_config now\<lparr>cfg_engine := NewEngine now\<lparr>eng_state := NewState now (Some d) []\<rparr>\<rparr>)) c w)"
| "exec_op now OpObserve (c, held) w = Some (None, (snd (Config_Observe c), held), w)"

definition abs_cfg :: "'w Config \<times> Snapshot list \<Rightarrow> spec" where
  "abs_cfg ch = \<lparr>sp_map = map_of (cfg_data (fst ch)), sp_taken = map (\<lambda>s. map_of (entries (sn_data s))) (snd ch)\<rparr>"

definition held_ok :: "Snapshot list \<Rightarrow> bool" where
  "held_ok held \<longleftrightarrow> (\<forall>s\<in>set held. wf_map (entries (sn_data s)))"

text \<open>The operations that cannot fail: snapshot options that do not dereference a nil pointer.\<close>

fun op_ok :: "cfg_op \<Rightarrow> bool" where
  "op_ok (OpTake opts) = (\<forall>p\<in>set opts. p \<noteq> SnapshotOption.WithMetadata None)"
| "op_ok (OpMerge d) = wf_map d"
| "op_ok _ = True"

lemma apply_options_some:
  "\<forall>p\<in>set opts. p \<noteq> SnapshotOption.WithMetadata None \<Longrightarrow> sn_metadata s \<noteq> None \<Longrightarrow>
     \<exists>s'. apply_snapshot_options opts s = Some s'"
proof (induction opts arbitrary: s)
  case (Cons p ps)
  obtain s1 where "apply_snapshot_option p s = Some s1" "sn_metadata s1 \<noteq> None"
    using Cons.prems by (cases p) auto
  then show ?case using Cons by auto
qed simp

lemma Take_some:
  "\<forall>p\<in>set opts. p \<noteq> SnapshotOption.WithMetadata None \<Longrightarrow> \<exists>s m'. Take now d opts m = Some (s, m')"
  using apply_options_some by (auto simp: Take_def Let_def split: option.splits)

lemma mget_merge_last:
  "wf_map (entries a) \<Longrightarrow> wf_map (entries b) \<Longrightarrow>
     map_of (entries (Merger_Merge StrategyLast [a, b])) = map_of (entries a) ++ map_of (entries b)"
  by (rule ext) (simp add: Merger_Merge_def mergeLast_def mget_mput_all map_add_def split: option.split)

lemma wf_merge_last:
  "wf_map (entries (Merger_Merge StrategyLast [a, b]))"
  by (simp add: Merger_Merge_def mergeLast_def)

lemma exec_op_refines:
  fixes c :: "'w Config"
  assumes inv: "cfg_inv c" "held_ok held" and ok: "op_ok p"
  shows "\<exists>c' held'. exec_op now p (c, held) w = Some (spec_err p (abs_cfg (c, held)), (c', held'), w)
    \<and> cfg_inv c' \<and> held_ok held'
    \<and> abs_cfg (c', held') = spec_op p (abs_cfg (c, held))"
proof -
  have wf: "wf_map (cfg_data c)" and opn: "\<not> cfg_closed c" using inv(1) by (simp_all add: cfg_inv_def)
  have upd: "\<exists>c'. update_with now d c w = Some (None, c', w) \<and> cfg_inv c' \<and> cfg_data c' = entries d"
    if "wf_map (entries d)" for d
    using update_with_ok [OF inv(1) that, of now w] by auto
  show ?thesis
  proof (cases p)
    case (OpSet k v)
    have "wf_map (entries (Some (set_data k v (All c))))" using wf by (simp add: set_data_def)
    from upd [OF this] show ?thesis
      using inv(2) wf opn by (auto simp: with_held_def OpSet Set_def abs_cfg_def set_data_def fun_eq_iff)
  next
    case (OpDelete k)
    have e: "entries (map_option (mdel k) (All c)) = mdel k (cfg_data c)"
      using wf entries_All [of c] by (cases "All c") auto
    then have "wf_map (entries (map_option (mdel k) (All c)))" using wf by simp
    from upd [OF this] show ?thesis
      using inv(2) opn e by (auto simp: with_held_def OpDelete Delete_def abs_cfg_def fun_eq_iff)
  next
    case (OpTake opts)
    obtain s m' where t: "Take now (All c) opts (cfg_snapshots c) = Some (s, m')"
      using ok Take_some [of opts now "All c" "cfg_snapshots c"] by (auto simp: OpTake)
    then have "entries (sn_data s) = cfg_data c" using Take_result [OF t] wf by simp
    then show ?thesis
      using inv wf t by (auto simp: OpTake Config_Snapshot_def abs_cfg_def held_ok_def cfg_inv_def)
  next
    case (OpRestore i)
    show ?thesis
    proof (cases "i < length held")
      case True
      then have h: "wf_map (entries (sn_data (held ! i)))" using inv(2) by (simp add: held_ok_def)
      then have "wf_map (entries (Some (Snapshot_Data (held ! i))))" by (simp add: Snapshot_Data_def)
      from upd [OF this] show ?thesis
        using inv(2) True h by (auto simp: with_held_def OpRestore Restore_def abs_cfg_def Snapshot_Data_def)
    next
      case False
      then show ?thesis using inv by (auto simp: with_held_def OpRestore Restore_def abs_cfg_def)
    qed
  next
    case (OpMerge d)
    define c2 :: "'w Config" where "c2 = initial_config now\<lparr>cfg_engine := NewEngine now\<lparr>eng_state := NewState now (Some d) []\<rparr>\<rparr>"
    have d: "cfg_data c2 = d" by (simp add: c2_def)
    then have "wf_map (cfg_data c2)" using ok by (simp add: OpMerge)
    then have "entries (All c2) = d" using d by simp
    then have "map_of (entries (Merger_Merge StrategyLast [All c, All c2])) = map_of (cfg_data c) ++ map_of d"
      using mget_merge_last [of "All c" "All c2"] wf ok by (simp add: OpMerge)
    moreover have "wf_map (entries (Merger_Merge StrategyLast [All c, All c2]))" by (rule wf_merge_last)
    moreover have "exec_op now p (c, held) w
        = with_held held (update_with now (Merger_Merge StrategyLast [All c, All c2]) c w)"
      unfolding OpMerge exec_op.simps c2_def Config_Merge_def option.case ..
    ultimately show ?thesis
      using upd [of "Merger_Merge StrategyLast [All c, All c2]"] inv(2)
      by (auto simp: with_held_def abs_cfg_def OpMerge)
  next
    case OpObserve
    have "om_ready (snd (Subscribe False (eng_observers (cfg_engine c))))"
      using inv(1) by (auto simp: cfg_inv_def om_ready_def Subscribe_def Let_def)
    then show ?thesis
      using inv by (auto simp: OpObserve Config_Observe_def Observe_def abs_cfg_def cfg_inv_def split: prod.splits)
  qed
qed

fun exec_ops :: "int \<Rightarrow> cfg_op list \<Rightarrow> 'w session \<Rightarrow> 'w \<Rightarrow> (goerror option list \<times> 'w session \<times> 'w) option" where
  "exec_ops now [] ch w = Some ([], ch, w)"
| "exec_ops now (p # ps) ch w =
     (case exec_op now p ch w of
        None \<Rightarrow> None
      | Some (err, ch', w') \<Rightarrow>
          map_option (\<lambda>(errs, r). (err # errs, r)) (exec_ops now ps ch' w'))"

fun spec_errs :: "cfg_op list \<Rightarrow> spec \<Rightarrow> goerror option list" where
  "spec_errs [] s = []"
| "spec_errs (p # ps) s = spec_err p s # spec_errs ps (spec_op p s)"

lemma exec_ops_refines:
  "cfg_inv c \<Longrightarrow> held_ok held \<Longrightarrow> list_all op_ok ops \<Longrightarrow>
     \<exists>c' held'. exec_ops now ops (c, held) w = Some (spec_errs ops (abs_cfg (c, held)), (c', held'), w)
       \<and> cfg_inv c' \<and> abs_cfg (c', held') = fold spec_op ops (abs_cfg (c, held))"
proof (induction ops arbitrary: c held)
  case (Cons p ops)
  obtain c1 held1 where s: "exec_op now p (c, held) w = Some (spec_err p (abs_cfg (c, held)), (c1, held1), w)"
    "cfg_inv c1" "held_ok held1" "abs_cfg (c1, held1) = spec_op p (abs_cfg (c, held))"
    using exec_op_refines [OF Cons.prems(1,2), of p now w] Cons.prems(3) by auto
  then show ?case using Cons.IH [OF s(2,3)] Cons.prems(3) by auto
qed simp

text \<open>What \<open>New\<close> guarantees for options that do not touch the engine, as all options of the package.\<close>

definition option_ok :: "'w option_fun \<Rightarrow> bool" where
  "option_ok p \<longleftrightarrow> (\<forall>c c'. p c = Inr c' \<longrightarrow> cfg_engine c' = cfg_engine c \<and> cfg_closed c' = cfg_closed c
     \<and> cfg_snapshots c' = cfg_snapshots c)"

lemma option_ok_simps [simp]:
  "option_ok (WithHook t h)" "option_ok (WithMemory d mopts)" "option_ok (WithEnv environ pre eopts)"
  "option_ok (WithFile decode read_file resolve path fopts)" "option_ok WithWatcher" "option_ok (WithObserver fn)"
  "option_ok (WithEncryption sha seal open_sealed read_random key)"
  "option_ok (WithRemote cache_of put_cache clock endpoint ropts)"
  by (auto simp: option_ok_def WithHook_def WithMemory_def WithEnv_def WithFile_def WithWatcher_def
      WithObserver_def WithEncryption_def WithRemote_def add_source_def split: sum.splits)

lemma facade_options_keep:
  "apply_options opts c = Inr c' \<Longrightarrow> list_all option_ok opts \<Longrightarrow>
     cfg_engine c' = cfg_engine c \<and> cfg_closed c' = cfg_closed c \<and> cfg_snapshots c' = cfg_snapshots c"
proof (induction opts arbitrary: c)
  case (Cons p ps)
  then obtain c1 where "p c = Inr c1" "apply_options ps c1 = Inr c'" by (auto split: sum.splits)
  then show ?case using Cons by (auto simp: option_ok_def)
qed simp

definition sources_ok :: "'w Config \<Rightarrow> bool" where
  "sources_ok c \<longleftrightarrow> (\<forall>l\<in>set (map src_load (cfg_sources c)). \<forall>w d w'. l w = (Inr d, w') \<longrightarrow> wf_map (entries d))"

lemma Load_ready:
  assumes "om_ready (eng_observers e)" and "\<not> eng_closed e" and "eng_hooks e = (\<lambda>_. [])"
  shows "(case load_sources srcs [] w of
      (Inl err, w') \<Rightarrow> Engine.Load now srcs e w = Some (Some err, e, w')
    | (Inr d, w') \<Rightarrow> \<exists>e'. Engine.Load now srcs e w = Some (None, e', w')
        \<and> eng_state e' = NewState now (Some d) []\<lparr>st_version := st_version (eng_state e) + 1\<rparr>
        \<and> eng_hooks e' = (\<lambda>_. []) \<and> \<not> eng_closed e' \<and> om_ready (eng_observers e'))"
proof -
  have h: "eng_hooks e' = (\<lambda>_. []) \<Longrightarrow> executeHooks e' t w = (None, w)" for t w and e' :: "'a Engine"
    by (simp add: executeHooks_def)
  obtain r w' where ls: "load_sources srcs [] w = (r, w')" by fastforce
  show ?thesis
  proof (cases r)
    case (Inl err)
    then show ?thesis using assms ls h by (simp add: Engine.Load_def)
  next
    case (Inr d)
    obtain e' where u: "Update now (NewState now (Some d) []) e w' = Some (None, e', w')"
      and e': "eng_state e' = NewState now (Some d) []\<lparr>st_version := st_version (eng_state e) + 1\<rparr>"
        "eng_hooks e' = eng_hooks e" "\<not> eng_closed e'" "om_ready (eng_observers e')"
      using Update_ready [OF assms(1) h [OF assms(3)] h [OF assms(3)], of now "NewState now (Some d) []" w'] assms(2)
      by auto
    then show ?thesis using assms ls Inr h by (simp add: Engine.Load_def)
  qed
qed

lemma New_inv:
  assumes "New now opts w = Some (Inr c, w')" and "list_all option_ok opts"
  shows "cfg_inv c"
proof -
  obtain c0 where c0: "apply_options opts (initial_config now) = Inr c0"
    using assms(1) by (auto simp: New_def split: sum.splits)
  have k: "cfg_engine c0 = NewEngine now" "\<not> cfg_closed c0"
    using facade_options_keep [OF c0 assms(2)] by (simp_all add: initial_config_def)
  have inv0: "cfg_inv c0" using k by (simp add: cfg_inv_def NewEngine_def om_ready_def NewObserverManager_def)
  show ?thesis
  proof (cases "cfg_sources c0 = []")
    case True
    then show ?thesis using assms(1) c0 inv0 by (simp add: New_def)
  next
    case False
    obtain d w1 where ls: "load_sources (map src_load (cfg_sources c0)) [] w = (Inr d, w1)"
      and r: "reload now c0 w = Some (None, c, w')"
    proof -
      have r: "reload now c0 w = Some (None, c, w')"
        using assms(1) c0 False by (auto simp: New_def split: option.splits)
      obtain x w1 where ls: "load_sources (map src_load (cfg_sources c0)) [] w = (x, w1)" by fastforce
      have "x \<noteq> Inl err" for err
        using r Load_ready [where e = "cfg_engine c0" and srcs = "map src_load (cfg_sources c0)" and w = w and now = now] inv0 ls
        by (auto simp: reload_def on_engine_def cfg_inv_def)
      then obtain d where "x = Inr d" by (cases x) auto
      then show ?thesis using that ls r by simp
    qed
    obtain e' where l: "Engine.Load now (map src_load (cfg_sources c0)) (cfg_engine c0) w = Some (None, e', w1)"
      and e': "eng_state e' = NewState now (Some d) []\<lparr>st_version := cfg_version c0 + 1\<rparr>"
        "eng_hooks e' = (\<lambda>_. [])" "\<not> eng_closed e'" "om_ready (eng_observers e')"
      using Load_ready [where e = "cfg_engine c0" and srcs = "map src_load (cfg_sources c0)" and w = w and now = now] inv0 ls
      by (auto simp: cfg_inv_def)
    have "wf_map d" using load_sources_wf [OF ls] by simp
    moreover have "c = c0\<lparr>cfg_engine := e'\<rparr>" using r l by (simp add: reload_def on_engine_def)
    ultimately show ?thesis using e' inv0 by (simp add: cfg_inv_def)
  qed
qed

section \<open>Set in two steps\<close>

text \<open>
  \<open>Set\<close> reads the state, copies and changes the data, and then updates the engine; nothing is
  locked in between.
\<close>

definition Set_read :: "string \<Rightarrow> any \<Rightarrow> 'w Config \<Rightarrow> nildata" where
  "Set_read key v c = Some (set_data key v (All c))"

definition Set_commit :: "int \<Rightarrow> nildata \<Rightarrow> 'w Config \<Rightarrow> 'w \<Rightarrow> 'w outcome" where
  "Set_commit now d c w = update_with now d c w"

lemma Set_steps: "\<not> cfg_closed c \<Longrightarrow> Set now key v c w = Set_commit now (Set_read key v c) c w"
  by (simp add: Set_def Set_commit_def Set_read_def)

section \<open>Templates and clones\<close>

lemma template_plain: "CHR ''$'' \<notin> set s \<Longrightarrow> template get n (s @ t) = s @ template get n t"
  by (cases n) (simp, induction s, auto)

lemma template_plain_all: "CHR ''$'' \<notin> set s \<Longrightarrow> template get n s = s"
  using template_plain [of s get n "[]"] by (cases n) simp_all

lemma template_hole:
  "CHR 0x7D \<notin> set body \<Longrightarrow>
     template get (Suc n) (''${'' @ body @ CHR 0x7D # after) =
       (let (key, def) = (case findColon body of
              Some colon \<Rightarrow> (take colon body, drop (Suc colon) body) | None \<Rightarrow> (body, []));
            (v, ok) = get key
        in if ok then template get n (vstr v) @ template get (Suc n) after
           else if def \<noteq> [] then def @ template get (Suc n) after
           else CHR ''$'' # template get (Suc n) (CHR 0x7B # body @ CHR 0x7D # after))"
proof -
  assume b: "CHR 0x7D \<notin> set body"
  have "index_of (CHR 0x7D) (body @ CHR 0x7D # after) = Some (length body)"
    by (rule index_of_append [OF b])
  then show ?thesis by (simp add: Let_def)
qed

text \<open>The value that replaces a value, and whether it differs.\<close>

definition processed :: "'w Config \<Rightarrow> Value \<Rightarrow> Value" where
  "processed c v =
     (case vraw v of
        AString s \<Rightarrow> if processTemplate c s = s then v
          else NewValue (AString (processTemplate c s)) TypeString (vsource v) (vpriority v)
      | _ \<Rightarrow> v)"

definition text_changes :: "'w Config \<Rightarrow> Value \<Rightarrow> bool" where
  "text_changes c v \<longleftrightarrow> (case vraw v of AString s \<Rightarrow> processTemplate c s \<noteq> s | _ \<Rightarrow> False)"

lemma template_loop_Cons:
  "template_loop c ((k, v) # rest) d ch =
     (if text_changes c v then template_loop c rest (mput k (processed c v) d) True
      else template_loop c rest d ch)"
  "\<not> text_changes c v \<Longrightarrow> processed c v = v"
  by (auto simp: text_changes_def processed_def Let_def split: any.splits)

lemma template_loop_get:
  assumes "wf_map rest" and "template_loop c rest d ch = (d', ch')" and "\<forall>(k, v)\<in>set rest. mget d k = Some v"
  shows "(\<forall>k. mget d' k = (case mget rest k of None \<Rightarrow> mget d k | Some v \<Rightarrow> Some (processed c v)))
    \<and> (ch' \<longleftrightarrow> ch \<or> (\<exists>(k, v)\<in>set rest. text_changes c v)) \<and> (wf_map d \<longrightarrow> wf_map d')"
  using assms
proof (induction rest arbitrary: d ch)
  case (Cons kv rest)
  obtain k0 v0 where kv: "kv = (k0, v0)" by (cases kv)
  have fresh: "mget rest k0 = None" "k0 \<notin> fst ` set rest" and wf: "wf_map rest"
    using Cons.prems(1) by (simp_all add: kv mget_None_iff)
  have k0: "mget d k0 = Some v0" and rest: "\<forall>(k, v)\<in>set rest. mget d k = Some v"
    using Cons.prems(3) by (auto simp: kv)
  note l = Cons.prems(2) [unfolded kv template_loop_Cons(1)]
  show ?case
  proof (cases "text_changes c v0")
    case True
    let ?d = "mput k0 (processed c v0) d"
    have "\<forall>(k, v)\<in>set rest. mget ?d k = Some v" using rest fresh(2) by force
    from Cons.IH [OF wf _ this, of True] l True show ?thesis
      using fresh by (auto simp: kv split: option.splits)
  next
    case False
    from Cons.IH [OF wf _ rest, of ch] l False show ?thesis
      using fresh k0 template_loop_Cons(2) [OF False] by (auto simp: kv split: option.splits)
  qed
qed auto

lemma Flatten_flat:
  assumes "wf_map m" and "\<forall>(k, v)\<in>set m. \<not> is_map v"
  shows "Flatten m [] = m"
proof -
  have "flattenRecursive m [] r = mput_all r m" if "\<forall>(k, v)\<in>set m. \<not> is_map v" for r
    using that by (induction m arbitrary: r) (auto simp: prefixed_def split: any.splits)
  then show ?thesis using assms mcopy_id [OF assms(1)] by (simp add: Flatten_def mcopy_def)
qed

section \<open>Results\<close>

text \<open>
  C1: the facade refines a map with snapshots.  On any configuration that \<open>New\<close> returned, every
  sequence of sets, deletes, snapshots, restores, merges and observations behaves as the abstract
  operations say: the same keys with the same values, the held snapshots with the contents of the
  moment they were taken, and the errors of the abstract operations, so that only restoring a
  snapshot that was never taken is refused.  The outside world is not touched.
\<close>

theorem config_refines_map:
  assumes "New now0 opts w = Some (Inr c, w1)" and "list_all option_ok opts" and "list_all op_ok ops"
  shows "\<exists>c' held. exec_ops now ops (c, []) w1
        = Some (spec_errs ops \<lparr>sp_map = map_of (cfg_data c), sp_taken = []\<rparr>, (c', held), w1)
    \<and> (let s = fold spec_op ops \<lparr>sp_map = map_of (cfg_data c), sp_taken = []\<rparr>
       in (\<forall>k v. Get c' k = (v, True) \<longleftrightarrow> sp_map s k = Some v)
        \<and> map (\<lambda>s. map_of (entries (sn_data s))) held = sp_taken s)"
proof -
  have "cfg_inv c" by (rule New_inv [OF assms(1,2)])
  then obtain c' held where r: "exec_ops now ops (c, []) w1
      = Some (spec_errs ops (abs_cfg (c, [])), (c', held), w1)"
    "abs_cfg (c', held) = fold spec_op ops (abs_cfg (c, []))"
    using exec_ops_refines [OF _ _ assms(3), of c "[]" now w1] by (auto simp: held_ok_def)
  have a: "abs_cfg (c, []) = \<lparr>sp_map = map_of (cfg_data c), sp_taken = []\<rparr>" by (simp add: abs_cfg_def)
  let ?s = "fold spec_op ops \<lparr>sp_map = map_of (cfg_data c), sp_taken = []\<rparr>"
  have "sp_map ?s = map_of (cfg_data c')" "sp_taken ?s = map (\<lambda>s. map_of (entries (sn_data s))) held"
    using r(2) unfolding a by (simp_all add: abs_cfg_def flip: r(2) [unfolded a])
  then show ?thesis
    using r(1) unfolding a Let_def Get_iff by (intro exI conjI allI) auto
qed

theorem config_refines_map_witness:
  "\<exists>c c' held. New 0 [WithMemory [(''host'', AString ''a'')] []] (0 :: nat) = Some (Inr c, 0)
     \<and> exec_ops 0 [OpTake [], OpSet ''host'' (AString ''b''), OpRestore 0, OpRestore 1] (c, []) 0
         = Some ([None, None, None, Some (NewError ErrNotFound ''snapshot is nil'' [])], (c', held), 0)
     \<and> Get c' ''host'' = Get c ''host''"
proof -
  let ?opts = "[WithMemory [(''host'', AString ''a'')] []] :: nat option_fun list"
  let ?ops = "[OpTake [], OpSet ''host'' (AString ''b''), OpRestore 0, OpRestore 1]"
  obtain c where c: "New 0 ?opts (0 :: nat) = Some (Inr c, 0)"
    by (simp add: New_def WithMemory_def add_source_def initial_config_def reload_def on_engine_def
        Engine.Load_def executeHooks_def NewEngine_def MemorySource_Load_def Update_def Let_def
        generateEvents_list NewObserverManager_def Notify_def diff_events_def values_of_map
        Update_prepare_def Update_store_def NewMemorySource_def Flatten_def prefixed_def)
  have ok: "list_all option_ok ?opts" "list_all op_ok ?ops" by simp_all
  let ?s0 = "\<lparr>sp_map = map_of (cfg_data c), sp_taken = []\<rparr>"
  obtain c' held where r: "exec_ops 0 ?ops (c, []) 0 = Some (spec_errs ?ops ?s0, (c', held), 0)"
    and g: "\<And>k v. Get c' k = (v, True) \<longleftrightarrow> sp_map (fold spec_op ?ops ?s0) k = Some v"
    using config_refines_map [OF c ok, of 0] unfolding Let_def by blast
  have eq: "sp_map (fold spec_op ?ops ?s0) = map_of (cfg_data c)" by simp
  have "Get c' ''host'' = Get c ''host''"
    by (rule Get_eqI) (simp only: g eq, simp only: Get_iff)
  moreover have "spec_errs ?ops ?s0 = [None, None, None, Some (NewError ErrNotFound ''snapshot is nil'' [])]"
    by simp
  ultimately show ?thesis
    by (intro exI [of _ c] exI [of _ c'] exI [of _ held] conjI c) (simp_all only: r)
qed

text \<open>
  Typed readback.  A value just set is returned by the getter of its type, as text it is the
  formatted value, and neither getter falls back to its default or panics.
\<close>

theorem set_then_get:
  assumes "New now0 opts w = Some (Inr c, w1)" and "list_all option_ok opts"
    and "Set now key v c w2 = Some (err, c', w3)"
  shows "err = None \<and> w3 = w2 \<and> cfg_version c' = cfg_version c + 1
    \<and> GetStringDefault c' key def = formatValue v
    \<and> (case v of
         AInt i \<Rightarrow> GetIntDefault c' key di = Some i
       | AInt64 i \<Rightarrow> GetInt64 c' key = Some i
       | AFloat64 x \<Rightarrow> GetFloat64 c' key = Some x
       | ABool b \<Rightarrow> GetBoolDefault c' key db = Some b
       | ADuration d \<Rightarrow> GetDurationDefault c' key dd = Some d
       | ASlice s \<Rightarrow> GetSlice c' key = Some s
       | AMap m \<Rightarrow> GetMap c' key = Some m
       | _ \<Rightarrow> True)
    \<and> (\<forall>k. k \<noteq> key \<longrightarrow> Get c' k = Get c k)"
proof -
  have inv: "cfg_inv c" by (rule New_inv [OF assms(1,2)])
  then have wf: "wf_map (cfg_data c)" and opn: "\<not> cfg_closed c" by (simp_all add: cfg_inv_def)
  have "wf_map (entries (Some (set_data key v (All c))))" using wf by (simp add: set_data_def)
  from update_with_ok [OF inv this, of now w2] assms(3) opn
  have c': "err = None" "w3 = w2" "cfg_data c' = set_data key v (All c)" "cfg_version c' = cfg_version c + 1"
    by (auto simp: Set_def)
  have "Get c' key = (NewValue v (inferType v) SourceMemory 30, True)"
    "\<forall>k. k \<noteq> key \<longrightarrow> Get c' k = Get c k"
    using wf by (simp_all add: Get_cases c' set_data_def)
  then show ?thesis
    using c' by (cases v) (simp_all add: GetStringDefault_def GetIntDefault_def GetInt64_def GetFloat64_def
        GetBoolDefault_def GetDurationDefault_def GetSlice_def GetMap_def typed_get_def accessor_defs)
qed

theorem set_then_get_witness:
  "\<exists>c c'. New 0 [] (0 :: nat) = Some (Inr c, 0) \<and> Set 5 ''port'' (AInt 8080) c 0 = Some (None, c', 0)
     \<and> GetIntDefault c' ''port'' 1 = Some 8080 \<and> GetStringDefault c' ''port'' [] = ''8080''"
proof -
  let ?c = "initial_config 0 :: nat Config"
  have c: "New 0 [] (0 :: nat) = Some (Inr ?c, 0)" by (simp add: New_def initial_config_def)
  obtain err c' w3 where s: "Set 5 ''port'' (AInt 8080) ?c 0 = Some (err, c', w3)"
    by (simp add: Set_def initial_config_def update_with_def on_engine_def NewEngine_def Update_def Let_def
        executeHooks_def generateEvents_list NewObserverManager_def Notify_def diff_events_def
        Update_prepare_def Update_store_def set_data_def All_def State_GetAll_def)
  have "formatValue (AInt 8080) = ''8080''" by code_simp
  then show ?thesis using set_then_get [OF c _ s, of "[]" 1] c s by auto
qed

text \<open>
  A closed configuration is frozen.  After \<open>Close\<close> every update, reload, restore and merge
  returns an error and changes neither the configuration nor the world, and reads still return
  what they returned before.
\<close>

theorem closed_config_frozen:
  assumes "Config_Close c w = (c', w')" and "cfg_closed c = eng_closed (cfg_engine c)"
  shows "(\<exists>e. Set now k v c' w2 = Some (Some e, c', w2)) \<and> (\<exists>e. Delete now k c' w2 = Some (Some e, c', w2))
    \<and> (\<exists>e. Reload now c' w2 = Some (Some e, c', w2)) \<and> (\<exists>e. Restore now snap c' w2 = Some (Some e, c', w2))
    \<and> (other \<noteq> None \<longrightarrow> (\<exists>e. Config_Merge now other c' w2 = Some (Some e, c', w2)))
    \<and> Get c' = Get c \<and> Config_Close c' w2 = (c', w2)"
proof -
  have cl: "cfg_closed c'" "eng_closed (cfg_engine c')" "eng_state (cfg_engine c') = eng_state (cfg_engine c)"
    using assms by (auto simp: Config_Close_def Engine_Close_def split: if_splits prod.splits)
  have r: "reload now c' w2 = Some (Some closed_error, c', w2)"
    using cl by (simp add: reload_def on_engine_def Engine.Load_def)
  show ?thesis
    using cl r update_with_closed [OF cl(2)]
    by (auto simp: Set_def Delete_def Reload_def Restore_def Config_Merge_def Get_def [abs_def]
        Config_Close_def split: option.split)
qed

theorem closed_config_frozen_witness:
  "\<exists>c'. Config_Close (initial_config 0 :: nat Config) 0 = (c', 0)
     \<and> (\<exists>e. Set 1 ''k'' ANil c' 0 = Some (Some e, c', 0))"
proof -
  obtain c' where c: "Config_Close (initial_config 0 :: nat Config) 0 = (c', 0)"
    by (simp add: Config_Close_def initial_config_def WatchManager_Stop_def NewWatchManager_def)
  have "cfg_closed (initial_config 0 :: nat Config) = eng_closed (cfg_engine (initial_config 0 :: nat Config))"
    by (simp add: initial_config_def NewEngine_def)
  from closed_config_frozen [OF c this, of 1 "''k''" ANil 0] show ?thesis using c by blast
qed

text \<open>
  C39: concurrent sets can lose an update.  When two goroutines set different keys and both read
  the state before either commits, both calls return no error, and the value of the first to
  commit is gone: its key is as it was before, although two versions have been stored.
\<close>

theorem concurrent_set_loses_update:
  assumes "New now0 opts w = Some (Inr c, w1)" and "list_all option_ok opts" and "k1 \<noteq> k2"
  shows "\<exists>c1 c2. Set_commit now (Set_read k1 v1 c) c w1 = Some (None, c1, w1)
    \<and> Set_commit now (Set_read k2 v2 c) c1 w1 = Some (None, c2, w1)
    \<and> Get c1 k1 = (NewValue v1 (inferType v1) SourceMemory 30, True)
    \<and> Get c2 k1 = Get c k1 \<and> Get c2 k2 = (NewValue v2 (inferType v2) SourceMemory 30, True)
    \<and> cfg_version c2 = cfg_version c + 2"
proof -
  have inv: "cfg_inv c" by (rule New_inv [OF assms(1,2)])
  then have wf: "wf_map (cfg_data c)" by (simp add: cfg_inv_def)
  have wfs: "wf_map (entries (Set_read k v c))" for k v using wf by (simp add: Set_read_def set_data_def)
  obtain c1 where c1: "Set_commit now (Set_read k1 v1 c) c w1 = Some (None, c1, w1)" "cfg_inv c1"
    "st_data (eng_state (cfg_engine c1)) = Set_read k1 v1 c" "cfg_version c1 = cfg_version c + 1"
    using update_with_ok [OF inv wfs [of k1 v1], of now w1] by (auto simp: Set_commit_def)
  obtain c2 where c2: "Set_commit now (Set_read k2 v2 c) c1 w1 = Some (None, c2, w1)"
    "st_data (eng_state (cfg_engine c2)) = Set_read k2 v2 c" "cfg_version c2 = cfg_version c1 + 1"
    using update_with_ok [OF c1(2) wfs [of k2 v2], of now w1] by (auto simp: Set_commit_def)
  have "Get c1 k1 = (NewValue v1 (inferType v1) SourceMemory 30, True)"
    "Get c2 k1 = Get c k1" "Get c2 k2 = (NewValue v2 (inferType v2) SourceMemory 30, True)"
    using wf assms(3) by (simp_all add: Get_cases c1 c2 Set_read_def set_data_def)
  moreover have "cfg_version c2 = cfg_version c + 2" using c1(4) c2(3) by simp
  ultimately show ?thesis using c1(1) c2(1) by blast
qed

theorem concurrent_set_loses_update_witness:
  "\<exists>c1 c2. Set_commit 0 (Set_read ''a'' (AInt 1) (initial_config 0 :: nat Config)) (initial_config 0) (0 :: nat) = Some (None, c1, 0)
     \<and> Set_commit 0 (Set_read ''b'' (AInt 2) (initial_config 0 :: nat Config)) c1 0 = Some (None, c2, 0)
     \<and> \<not> Has c2 ''a''"
proof -
  have c: "New 0 [] (0 :: nat) = Some (Inr (initial_config 0), 0)" by (simp add: New_def initial_config_def)
  have "\<not> Has (initial_config 0 :: nat Config) ''a''"
    by (simp add: Has_def Get_cases initial_config_def NewEngine_def)
  moreover obtain c1 c2 where r: "Set_commit 0 (Set_read ''a'' (AInt 1) (initial_config 0 :: nat Config)) (initial_config 0) (0 :: nat) = Some (None, c1, 0)"
    "Set_commit 0 (Set_read ''b'' (AInt 2) (initial_config 0 :: nat Config)) c1 0 = Some (None, c2, 0)"
    "Get c2 ''a'' = Get (initial_config 0 :: nat Config) ''a''"
    using concurrent_set_loses_update [OF c, of "''a''" "''b''" 0 "AInt 1" "AInt 2"] by auto
  ultimately have "\<not> Has c2 ''a''" by (simp add: Has_def)
  then show ?thesis by (intro exI [of _ c1] exI [of _ c2] conjI r)
qed

text \<open>
  Hooks given to \<open>WithHook\<close> never run.  Even a before-set hook that always fails does not keep
  \<open>Set\<close> from succeeding, and no hook acts on the world, although the configuration holds it.
\<close>

theorem registered_hooks_never_run:
  assumes "New now0 (WithHook HookBeforeSet h # opts) w = Some (Inr c, w1)" and "list_all option_ok opts"
  shows "\<exists>c'. Set now k v c w2 = Some (None, c', w2)"
proof -
  have inv: "cfg_inv c" using New_inv [OF assms(1)] assms(2) by simp
  then have "wf_map (entries (Some (set_data k v (All c))))" "\<not> cfg_closed c"
    by (simp_all add: set_data_def cfg_inv_def)
  then show ?thesis using update_with_ok [OF inv, of "Some (set_data k v (All c))" now w2]
    by (auto simp: Set_def)
qed

theorem registered_hooks_never_run_witness:
  "\<exists>c c'. New 0 [WithHook HookBeforeSet (sample_hook (Some (PlainError ''refused'')))] 0 = Some (Inr c, 0)
     \<and> Set 1 ''k'' ANil c 0 = Some (None, c', 0)"
proof -
  obtain c where c: "New 0 [WithHook HookBeforeSet (sample_hook (Some (PlainError ''refused'')))] 0 = Some (Inr c, 0)"
    by (simp add: New_def WithHook_def initial_config_def)
  then show ?thesis using registered_hooks_never_run [OF c, of 1 "''k''" ANil 0] by auto
qed

section \<open>Templates\<close>

text \<open>A template as pieces: literal text, and holes with a key and a default that may be empty.\<close>

datatype piece = Lit string | Hole string string

fun piece_text :: "piece \<Rightarrow> string" where
  "piece_text (Lit s) = s"
| "piece_text (Hole k def) = ''${'' @ k @ (if def = [] then [] else CHR '':'' # def) @ [CHR 0x7D]"

fun piece_ok :: "piece \<Rightarrow> bool" where
  "piece_ok (Lit s) \<longleftrightarrow> CHR ''$'' \<notin> set s"
| "piece_ok (Hole k def) \<longleftrightarrow> set k \<inter> {CHR ''$'', CHR '':'', CHR 0x7D} = {} \<and> set def \<inter> {CHR ''$'', CHR 0x7D} = {}"

fun expand :: "(string \<Rightarrow> Value \<times> bool) \<Rightarrow> nat \<Rightarrow> piece \<Rightarrow> string" where
  "expand get n (Lit s) = s"
| "expand get n (Hole k def) =
     (if snd (get k) then template get n (vstr (fst (get k)))
      else if def \<noteq> [] then def else piece_text (Hole k def))"

lemma findColon_body:
  "CHR '':'' \<notin> set k \<Longrightarrow> findColon (k @ (if def = [] then [] else CHR '':'' # def)) =
     (if def = [] then None else Some (length k))"
  using split2_plain [of "CHR '':''" k] index_of_append [of "CHR '':''" k def]
  by (auto simp: findColon_def split2_def split: option.splits)

lemma template_pieces:
  "list_all piece_ok ps \<Longrightarrow>
     template get (Suc n) (concat (map piece_text ps) @ rest)
       = concat (map (expand get n) ps) @ template get (Suc n) rest"
proof (induction ps)
  case (Cons p ps)
  let ?tl = "concat (map piece_text ps) @ rest"
  have IH: "template get (Suc n) ?tl = concat (map (expand get n) ps) @ template get (Suc n) rest"
    using Cons by simp
  show ?case
  proof (cases p)
    case (Lit s)
    then show ?thesis using Cons.prems IH template_plain [of s get "Suc n" ?tl] by simp
  next
    case (Hole k def)
    let ?body = "k @ (if def = [] then [] else CHR '':'' # def)"
    have b: "CHR 0x7D \<notin> set ?body" "CHR ''$'' \<notin> set ?body" "CHR '':'' \<notin> set k"
      using Cons.prems by (auto simp: Hole)
    have kept: "template get (Suc n) (CHR 0x7B # ?body @ CHR 0x7D # ?tl) = CHR 0x7B # ?body @ CHR 0x7D # template get (Suc n) ?tl"
      using template_plain [of "CHR 0x7B # ?body @ [CHR 0x7D]" get "Suc n" ?tl] b(2) by simp
    have "template get (Suc n) (concat (map piece_text (p # ps)) @ rest)
        = template get (Suc n) (''${'' @ ?body @ CHR 0x7D # ?tl)" by (simp add: Hole)
    also have "\<dots> = expand get n p @ template get (Suc n) ?tl"
      unfolding template_hole [OF b(1)] findColon_body [OF b(3)] kept
      by (auto simp: Hole Let_def split: prod.split)
    finally show ?thesis using IH by simp
  qed
qed simp

text \<open>
  C20: what processing a template yields.  A text made of literals and placeholders is the
  concatenation of the literals and the expansions: the value of the key, itself expanded with one
  level less, where the key is set; otherwise the default; otherwise the placeholder unchanged.
\<close>

theorem template_expands:
  assumes "list_all piece_ok ps"
  shows "processTemplate c (concat (map piece_text ps)) = concat (map (expand (Get c) 15) ps)"
proof -
  have "maxTemplateDepth = Suc 15" by (simp add: maxTemplateDepth_def)
  then show ?thesis
    using template_pieces [OF assms, of "Get c" 15 "[]"] template_plain_all [of "[]" "Get c" "Suc 15"]
    by (simp add: processTemplate_def)
qed

theorem template_expands_witness:
  "processTemplate (initial_config 0 :: nat Config) (''http://${host:localhost}:${port}'')
     = ''http://localhost:${port}''"
proof -
  have g: "Get (initial_config 0 :: nat Config) k = (zero_Value, False)" for k
    by (simp add: Get_cases initial_config_def NewEngine_def)
  show ?thesis
    using template_expands [of "[Lit ''http://'', Hole ''host'' ''localhost'', Lit '':'', Hole ''port'' []]"
        "initial_config 0 :: nat Config"] by (simp add: g)
qed

lemma template_self:
  assumes "get k = (v, True)" and "vstr v = pre @ ''${'' @ k @ [CHR 0x7D] @ post"
    and "CHR ''$'' \<notin> set pre" "CHR ''$'' \<notin> set post" "set k \<inter> {CHR ''$'', CHR '':'', CHR 0x7D} = {}"
  shows "template get n (''${'' @ k @ [CHR 0x7D])
    = concat (replicate n pre) @ ''${'' @ k @ [CHR 0x7D] @ concat (replicate n post)"
proof (induction n)
  case (Suc n)
  have shift: "concat (replicate n s) @ s = s @ concat (replicate n s)" for s :: string
    by (induction n) simp_all
  have hole: "template get (Suc n') (''${'' @ k @ [CHR 0x7D] @ rest) = template get n' (vstr v) @ template get (Suc n') rest" for n' rest
    using template_pieces [of "[Hole k []]" get n' rest] assms by simp
  have hole1: "template get (Suc n') (''${'' @ k @ [CHR 0x7D]) = template get n' (vstr v)" for n'
    using hole [of n' "[]"] template_plain_all [of "[]" get "Suc n'"] by (simp only: append_Nil2) simp
  have "template get n (vstr v) = pre @ template get n (''${'' @ k @ [CHR 0x7D]) @ post"
  proof (cases n)
    case (Suc n')
    have "template get n (vstr v) = pre @ template get n (''${'' @ k @ [CHR 0x7D] @ post)"
      unfolding assms(2) by (rule template_plain [OF assms(3)])
    also have "\<dots> = pre @ template get n' (vstr v) @ post"
      unfolding Suc hole template_plain_all [OF assms(4)] ..
    finally show ?thesis unfolding Suc hole1 .
  qed (simp add: assms(2))
  then show ?case unfolding hole1 Suc.IH by (simp add: shift)
qed simp

text \<open>
  C21: a value that refers to itself does not loop: the text around the reference is repeated
  exactly \<open>maxTemplateDepth\<close> times and the innermost placeholder stays.
\<close>

theorem template_cycle_stops:
  assumes "Get c k = (v, True)" and "vstr v = pre @ ''${'' @ k @ [CHR 0x7D] @ post"
    and "CHR ''$'' \<notin> set pre" and "CHR ''$'' \<notin> set post" and "set k \<inter> {CHR ''$'', CHR '':'', CHR 0x7D} = {}"
  shows "processTemplate c (''${'' @ k @ [CHR 0x7D])
    = concat (replicate 16 pre) @ ''${'' @ k @ [CHR 0x7D] @ concat (replicate 16 post)"
  unfolding processTemplate_def maxTemplateDepth_def 
  by (rule template_self [where get = "Get c" and k = k and v = v and pre = pre and post = post, OF assms])

theorem template_cycle_stops_witness:
  "\<exists>c. New 0 [WithMemory [(''k'', AString ''-${k}'')] []] (0 :: nat) = Some (Inr c, 0)
     \<and> processTemplate c ''${k}'' = replicate 16 (CHR ''-'') @ ''${k}''"
proof -
  let ?opts = "[WithMemory [(''k'', AString ''-${k}'')] []] :: nat option_fun list"
  obtain c where c: "New 0 ?opts (0 :: nat) = Some (Inr c, 0)"
    and d: "cfg_data c = [(''k'', NewValue (AString ''-${k}'') TypeString SourceMemory 30)]"
    by (simp add: New_def WithMemory_def add_source_def initial_config_def reload_def on_engine_def
        Engine.Load_def executeHooks_def NewEngine_def MemorySource_Load_def Update_def Let_def
        generateEvents_list NewObserverManager_def Notify_def diff_events_def values_of_map
        Update_prepare_def Update_store_def NewMemorySource_def Flatten_def prefixed_def)
  have g: "Get c ''k'' = (NewValue (AString ''-${k}'') TypeString SourceMemory 30, True)"
    by (simp add: Get_cases d)
  have v: "vstr (NewValue (AString ''-${k}'') TypeString SourceMemory 30) = ''-'' @ ''${'' @ ''k'' @ [CHR 0x7D] @ []"
    by (simp add: NewValue_def)
  have r: "concat (replicate 16 ''-'') = replicate 16 (CHR ''-'')" "concat (replicate 16 []) = ([] :: string)"
    by (simp_all add: numeral_eq_Suc)
  have "processTemplate c (''${'' @ ''k'' @ [CHR 0x7D]) = replicate 16 (CHR ''-'') @ ''${k}''"
    using template_cycle_stops [OF g v] by (simp add: r)
  then show ?thesis using c by (intro exI [of _ c]) simp
qed

text \<open>
  C19: \<open>ProcessTemplates\<close> acts value by value.  On a configuration from \<open>New\<close> it succeeds; every
  text becomes its processed form over the values before the call, keeping source and priority;
  every other value stays; the version moves exactly when some text changed.
\<close>

theorem process_templates_pointwise:
  assumes "New now0 opts w = Some (Inr c, w1)" and "list_all option_ok opts"
  shows "\<exists>c'. ProcessTemplates now c w2 = Some (None, c', w2)
    \<and> (\<forall>k. Get c' k = (if Has c k then (processed c (fst (Get c k)), True) else Get c k))
    \<and> cfg_version c' = cfg_version c + (if \<exists>k v. Get c k = (v, True) \<and> text_changes c v then 1 else 0)"
proof -
  have inv: "cfg_inv c" by (rule New_inv [OF assms])
  then have wf: "wf_map (cfg_data c)" by (simp add: cfg_inv_def)
  obtain d ch where l: "template_loop c (cfg_data c) (cfg_data c) False = (d, ch)" by fastforce
  have all: "\<forall>(k, v)\<in>set (cfg_data c). mget (cfg_data c) k = Some v"
    using wf by (auto simp: wf_map_mget_iff)
  note t = template_loop_get [OF wf l all]
  have ch: "ch \<longleftrightarrow> (\<exists>k v. Get c k = (v, True) \<and> text_changes c v)"
    using t wf by (auto simp: Get_iff wf_map_mget_iff)
  have get: "mget d k = map_option (processed c) (mget (cfg_data c) k)" for k
    using t by (cases "mget (cfg_data c) k") simp_all
  show ?thesis
  proof (cases ch)
    case True
    obtain c' where c': "update_with now (Some d) c w2 = Some (None, c', w2)"
      "st_data (eng_state (cfg_engine c')) = Some d" "cfg_version c' = cfg_version c + 1"
      using update_with_ok [OF inv, of "Some d" now w2] t wf by auto
    have "Get c' k = (if Has c k then (processed c (fst (Get c k)), True) else Get c k)" for k
      using get [of k] by (simp add: Get_cases Has_def c'(2) split: option.split)
    then show ?thesis using c' True ch l wf
      by (intro exI [of _ c']) (simp add: ProcessTemplates_def)
  next
    case False
    have "processed c v = v" if "Get c k = (v, True)" for k v
      using that False ch template_loop_Cons(2) by blast
    then have "Get c k = (if Has c k then (processed c (fst (Get c k)), True) else Get c k)" for k
      by (cases "Get c k") (auto simp: Has_def)
    moreover have "ProcessTemplates now c w2 = Some (None, c, w2)"
      using l False wf by (simp add: ProcessTemplates_def)
    moreover have "\<not> (\<exists>k v. Get c k = (v, True) \<and> text_changes c v)" using False ch by simp
    ultimately show ?thesis by (intro exI [of _ c]) (simp only: if_False add_0_right simp_thms)
  qed
qed

theorem process_templates_pointwise_witness:
  "\<exists>c c'. New 0 [WithMemory [(''a'', AString ''x''), (''b'', AString ''${a}!'')] []] (0 :: nat) = Some (Inr c, 0)
     \<and> ProcessTemplates 1 c 0 = Some (None, c', 0)
     \<and> Get c' ''b'' = (NewValue (AString ''x!'') TypeString SourceMemory 30, True)"
proof -
  let ?opts = "[WithMemory [(''a'', AString ''x''), (''b'', AString ''${a}!'')] []] :: nat option_fun list"
  obtain c where c: "New 0 ?opts (0 :: nat) = Some (Inr c, 0)"
    and d: "cfg_data c = [(''a'', NewValue (AString ''x'') TypeString SourceMemory 30),
       (''b'', NewValue (AString ''${a}!'') TypeString SourceMemory 30)]"
    by (simp add: New_def WithMemory_def add_source_def initial_config_def reload_def on_engine_def
        Engine.Load_def executeHooks_def NewEngine_def MemorySource_Load_def Update_def Let_def
        generateEvents_list NewObserverManager_def Notify_def diff_events_def values_of_map
        Update_prepare_def Update_store_def NewMemorySource_def Flatten_def prefixed_def)
  have g: "Get c ''a'' = (NewValue (AString ''x'') TypeString SourceMemory 30, True)"
    "Get c ''b'' = (NewValue (AString ''${a}!'') TypeString SourceMemory 30, True)"
    by (simp_all add: Get_cases d)
  have x: "template (Get c) 15 ''x'' = ''x''" by (rule template_plain_all) simp
  have "concat (map piece_text [Hole ''a'' [], Lit ''!'']) = ''${a}!''" by simp
  then have t: "processTemplate c ''${a}!'' = ''x!''"
    using template_pieces [of "[Hole ''a'' [], Lit ''!'']" "Get c" 15 "[]"] g x
    by (simp add: processTemplate_def maxTemplateDepth_def NewValue_def numeral_eq_Suc)
  obtain c' where "ProcessTemplates 1 c 0 = Some (None, c', 0)"
    "Get c' ''b'' = (NewValue (AString ''x!'') TypeString SourceMemory 30, True)"
    using process_templates_pointwise [OF c, of 1 0] t g(2) by (auto simp: Has_def processed_def NewValue_def)
  then show ?thesis using c by (intro exI [of _ c] exI [of _ c'] conjI)
qed

section \<open>Clones\<close>

lemma merge_loop_fresh:
  "wf_map source \<Longrightarrow> fst ` set source \<inter> fst ` set result = {} \<Longrightarrow>
     merge_loop beats result source = result @ source"
  by (induction beats result source rule: merge_loop.induct)
     (auto simp: mput_fresh map_of_eq_None_iff [symmetric] split: option.splits)

text \<open>A configuration with a single source that loads.\<close>

lemma New_single:
  fixes opts :: "'w option_fun list"
  assumes "apply_options opts (initial_config now) = Inr (add_source s (initial_config now))"
    and "src_load s w = (Inr d, w')" and "wf_map (entries d)"
  shows "\<exists>c. New now opts w = Some (Inr c, w') \<and> cfg_inv c \<and> cfg_data c = entries d"
proof -
  have ls: "load_sources [src_load s] [] w = (Inr (entries d), w')"
    using assms(2,3) merge_loop_fresh [of "entries d" "[]"] by simp
  obtain e' where e': "Engine.Load now [src_load s] (NewEngine now) w = Some (None, e', w')"
    "eng_state e' = NewState now (Some (entries d)) []\<lparr>st_version := st_version (eng_state (NewEngine now :: 'w Engine)) + 1\<rparr>"
    "eng_hooks e' = (\<lambda>_. [])" "\<not> eng_closed e'" "om_ready (eng_observers e')"
    using Load_ready [where e = "NewEngine now" and srcs = "[src_load s]" and w = w and now = now] ls
    by (auto simp: NewEngine_def om_ready_def NewObserverManager_def)
  let ?c = "(add_source s (initial_config now))\<lparr>cfg_engine := e'\<rparr>"
  have "New now opts w = Some (Inr ?c, w')"
    unfolding New_def assms(1)
    using e'(1) by (simp add: add_source_def reload_def on_engine_def initial_config_def)
  then show ?thesis using e' assms(3)
    by (intro exI [of _ ?c]) (simp add: cfg_inv_def add_source_def initial_config_def)
qed

text \<open>
  A clone has the same contents, told apart only by its metadata.  When no value is a map
  (a memory source flattens those), cloning a configuration from \<open>New\<close> succeeds and every key of
  the clone has the original's value, now from the memory source with priority 30; a key that was
  not set is not set in the clone, whatever the sources of the original were.
\<close>

theorem clone_same_values:
  assumes "New now0 opts w = Some (Inr c, w1)" and "list_all option_ok opts"
    and "\<forall>k v. Get c k = (v, True) \<longrightarrow> \<not> is_map (vraw v)"
  shows "\<exists>c'. Clone now c w2 = Some (Inr c', w2)
    \<and> (\<forall>k. Get c' k = (if Has c k
         then (NewValue (vraw (fst (Get c k))) (inferType (vraw (fst (Get c k)))) SourceMemory 30, True)
         else (zero_Value, False)))"
proof -
  have inv: "cfg_inv c" by (rule New_inv [OF assms(1,2)])
  then have wf: "wf_map (cfg_data c)" by (simp add: cfg_inv_def)
  let ?m = "raws (cfg_data c)"
  have ex: "entries (State_Export (eng_state (cfg_engine c))) = ?m"
    using wf by (cases "st_data (eng_state (cfg_engine c))") (simp_all add: State_Export_def raws_def)
  have "\<forall>(k, v)\<in>set ?m. \<not> is_map v"
    using assms(3) wf by (auto simp: raws_def Get_iff wf_map_mget_iff)
  then have fl: "Flatten ?m [] = ?m" using wf by (intro Flatten_flat) simp_all
  let ?s = "\<lparr>src_load = MemorySource_Load (NewMemorySource [WithMemoryData ?m]), src_close = no_close\<rparr> :: 'a source"
  let ?d = "map (\<lambda>(k, v). (k, NewValue v (inferType v) SourceMemory 30)) ?m"
  obtain c' where c': "New now [WithMemory ?m []] w2 = Some (Inr c', w2)" "cfg_data c' = ?d"
    using New_single [of "[WithMemory ?m []]" now ?s w2 "Some ?d" w2] wf
    by (auto simp: WithMemory_def MemorySource_Load_def values_of_map NewMemorySource_def fl)
  have "Get c' k = (if Has c k
         then (NewValue (vraw (fst (Get c k))) (inferType (vraw (fst (Get c k)))) SourceMemory 30, True)
         else (zero_Value, False))" for k
    by (cases "mget (cfg_data c) k") (simp_all add: Get_cases Has_def c'(2))
  then show ?thesis using c'(1) by (auto simp: Clone_def ex)
qed

theorem clone_same_values_witness:
  "\<exists>c c'. New 0 [WithMemory [(''a'', AString ''x'')] []] (0 :: nat) = Some (Inr c, 0)
     \<and> Clone 1 c 0 = Some (Inr c', 0) \<and> Has c' ''a'' \<and> \<not> Has c' ''b''"
proof -
  obtain c where c: "New 0 [WithMemory [(''a'', AString ''x'')] []] (0 :: nat) = Some (Inr c, 0)"
    and d: "cfg_data c = [(''a'', NewValue (AString ''x'') TypeString SourceMemory 30)]"
    by (simp add: New_def WithMemory_def add_source_def initial_config_def reload_def on_engine_def
        Engine.Load_def executeHooks_def NewEngine_def MemorySource_Load_def Update_def Let_def
        generateEvents_list NewObserverManager_def Notify_def diff_events_def values_of_map
        Update_prepare_def Update_store_def NewMemorySource_def Flatten_def prefixed_def)
  have nm: "\<forall>k v. Get c k = (v, True) \<longrightarrow> \<not> is_map (vraw v)"
    by (auto simp: Get_iff d NewValue_def split: if_splits)
  have h: "Has c ''a''" "\<not> Has c ''b''" by (simp_all add: Has_def Get_cases d)
  obtain c' where "Clone 1 c 0 = Some (Inr c', 0)" "\<forall>k. Get c' k = (if Has c k
         then (NewValue (vraw (fst (Get c k))) (inferType (vraw (fst (Get c k)))) SourceMemory 30, True)
         else (zero_Value, False))"
    using clone_same_values [OF c _ nm, of 1 0] by auto
  then show ?thesis using c h by (intro exI [of _ c] exI [of _ c'] conjI) (simp_all add: Has_def)
qed

end
