(* ===== verification/Export.thy ===== *)
theory Export
  imports GoFmt Source
begin

text \<open>
  Package export (export/export.go): the nested view of the flat data, the YAML, TOML and
  environment writers, and the exporter registry.

  Every writer is a sequence of \<open>Write\<close> calls that stops at the first error; its control flow
  does not depend on the writer otherwise.  A writer function is therefore given as the list of the
  texts it writes, and \<open>write_all\<close> performs them.  The loops that first sort the keys of a map are
  taken over the sorted entries (\<open>sort_entries\<close>).  \<open>other\<close> is the text of opaque values and
  \<open>encode\<close> the JSON encoder.
\<close>

section \<open>Writing\<close>

type_synonym 'w writer = "string \<Rightarrow> 'w \<Rightarrow> goerror option \<times> 'w"

fun write_all :: "'w writer \<Rightarrow> string list \<Rightarrow> 'w \<Rightarrow> goerror option \<times> 'w" where
  "write_all wr [] w = (None, w)"
| "write_all wr (c # cs) w =
     (case wr c w of (Some err, w') \<Rightarrow> (Some err, w') | (None, w') \<Rightarrow> write_all wr cs w')"

text \<open>A \<open>bytes.Buffer\<close>, which never fails.\<close>

definition buffer_write :: "string writer" where
  "buffer_write s buf = (None, buf @ s)"

section \<open>The nested view\<close>

text \<open>The inner loop of \<open>buildNested\<close>: a part that is there and is no map is stepped over.\<close>

fun nest_path :: "string list \<Rightarrow> any \<Rightarrow> any gomap \<Rightarrow> any gomap" where
  "nest_path [] v current = current"
| "nest_path [part] v current = mput part v current"
| "nest_path (part # p # ps) v current =
     (case mget current part of
        None \<Rightarrow> mput part (AMap (nest_path (p # ps) v [])) current
      | Some (AMap next) \<Rightarrow> mput part (AMap (nest_path (p # ps) v next)) current
      | Some _ \<Rightarrow> nest_path (p # ps) v current)"

fun nest_loop :: "data \<Rightarrow> any gomap \<Rightarrow> any gomap" where
  "nest_loop [] result = result"
| "nest_loop ((key, v) # d) result = nest_loop d (nest_path (split_on (CHR ''.'') key) (vraw v) result)"

definition buildNested :: "data \<Rightarrow> any gomap" where
  "buildNested d = nest_loop d []"

section \<open>Strings\<close>

definition needsQuoting :: "string \<Rightarrow> bool" where
  "needsQuoting s \<longleftrightarrow>
     s = [] \<or> (\<exists>c\<in>set s. c \<in> set '':#{}[],&*?|-<>=!%@'')
     \<or> s \<in> set [''true'', ''false'', ''null'', ''yes'', ''no'', ''on'', ''off'', [CHR 0x7E]]
     \<or> parse_float s \<noteq> None
     \<or> hd s = CHR '' '' \<or> last s = CHR '' '' \<or> hd s = CHR 0x09 \<or> last s = CHR 0x09"

definition escape_rune :: "nat \<Rightarrow> string" where
  "escape_rune r =
     (if r = 34 then [backslash, dquote]
      else if r = 92 then [backslash, backslash]
      else if r = 10 then [backslash, CHR ''n'']
      else if r = 13 then [backslash, CHR ''r'']
      else if r = 9 then [backslash, CHR ''t'']
      else encode_rune r)"

definition escapeString :: "string \<Rightarrow> string" where
  "escapeString s = concat (map (\<lambda>(i, r). escape_rune r) (runes_from 0 s))"

section \<open>YAML\<close>

abbreviation quoted :: "string \<Rightarrow> string" where
  "quoted s \<equiv> dquote # s @ [dquote]"

text \<open>The values \<open>writeYAML\<close> writes itself, on one line.\<close>

fun yaml_line_text :: "(nat \<Rightarrow> string) \<Rightarrow> any \<Rightarrow> string" where
  "yaml_line_text other (AString s) = (if needsQuoting s then quoted (escapeString s) else s)"
| "yaml_line_text other (AInt i) = itoa (sint i)"
| "yaml_line_text other (AInt64 i) = itoa (sint i)"
| "yaml_line_text other (AFloat64 x) = format_g x"
| "yaml_line_text other (ABool b) = (if b then ''true'' else ''false'')"
| "yaml_line_text other (ADuration d) = quoted (duration_str (sint d))"
| "yaml_line_text other (ATime t) = quoted (rfc3339 t)"
| "yaml_line_text other ANil = ''null''"
| "yaml_line_text other v = sprint_v other v"

definition indent_text :: "nat \<Rightarrow> string" where
  "indent_text n = concat (replicate n ''  '')"

fun writeYAML :: "(nat \<Rightarrow> string) \<Rightarrow> any \<Rightarrow> nat \<Rightarrow> string list"
  and writeYAMLMap :: "(nat \<Rightarrow> string) \<Rightarrow> any gomap \<Rightarrow> nat \<Rightarrow> string list"
  and writeYAMLArray :: "(nat \<Rightarrow> string) \<Rightarrow> any list \<Rightarrow> nat \<Rightarrow> string list"
  and writeYAMLItem :: "(nat \<Rightarrow> string) \<Rightarrow> any gomap \<Rightarrow> nat \<Rightarrow> string list" where
  "writeYAML other (AMap m) n = writeYAMLMap other m n"
| "writeYAML other (ASlice a) n = writeYAMLArray other a n"
| "writeYAML other v n = [yaml_line_text other v @ [newline]]"
| "writeYAMLMap other [] n = []"
| "writeYAMLMap other ((key, v) # m) n =
     [indent_text n @ key @ '':'']
     @ (case v of
          AMap sub \<Rightarrow> [[newline]] @ writeYAMLMap other sub (n + 1)
        | ASlice a \<Rightarrow> [[newline]] @ writeYAMLArray other a (n + 1)
        | _ \<Rightarrow> ['' ''] @ writeYAML other v n)
     @ writeYAMLMap other m n"
| "writeYAMLArray other [] n = []"
| "writeYAMLArray other (v # a) n =
     [indent_text n @ ''-'']
     @ (case v of
          AMap m \<Rightarrow> (if m = [] then ['' {}'' @ [newline]] else [[newline]] @ writeYAMLItem other m n)
        | ASlice b \<Rightarrow> [[newline]] @ writeYAMLArray other b (n + 1)
        | _ \<Rightarrow> ['' ''] @ writeYAML other v n)
     @ writeYAMLArray other a n"
| "writeYAMLItem other [] n = []"
| "writeYAMLItem other ((key, v) # m) n =
     [indent_text n @ ''  '' @ key @ '':'']
     @ (case v of
          AMap sub \<Rightarrow> [[newline]] @ writeYAMLMap other sub (n + 2)
        | _ \<Rightarrow> ['' ''] @ writeYAML other v n)
     @ writeYAMLItem other m n"

section \<open>TOML\<close>

definition isFlatMap :: "any gomap \<Rightarrow> bool" where
  "isFlatMap m \<longleftrightarrow> list_all (\<lambda>(k, v). case v of AMap _ \<Rightarrow> False | ASlice _ \<Rightarrow> False | _ \<Rightarrow> True) m"

fun toml_elem_text :: "(nat \<Rightarrow> string) \<Rightarrow> any \<Rightarrow> string" where
  "toml_elem_text other (AString s) = quoted (escapeString s)"
| "toml_elem_text other v = sprint_v other v"

fun toml_elems :: "(nat \<Rightarrow> string) \<Rightarrow> any list \<Rightarrow> string list" where
  "toml_elems other [] = []"
| "toml_elems other (v # vs) = toml_elem_text other v # (if vs = [] then [] else '', '' # toml_elems other vs)"

text \<open>The text after the equals sign, for the values written in one piece.\<close>

fun toml_scalar_text :: "(nat \<Rightarrow> string) \<Rightarrow> any \<Rightarrow> string" where
  "toml_scalar_text other (AString s) = quoted (escapeString s)"
| "toml_scalar_text other (ADuration d) = quoted (duration_str (sint d))"
| "toml_scalar_text other (ATime t) = quoted (rfc3339 t)"
| "toml_scalar_text other v = sprint_v other v"

definition writeTOMLKey :: "(nat \<Rightarrow> string) \<Rightarrow> string \<Rightarrow> any \<Rightarrow> string list" where
  "writeTOMLKey other key v =
     (case v of
        ASlice a \<Rightarrow> [key @ '' = [''] @ toml_elems other a @ ['']'' @ [newline]]
      | _ \<Rightarrow> [key @ '' = '' @ toml_scalar_text other v @ [newline]])"

fun writeTOMLMap :: "(nat \<Rightarrow> string) \<Rightarrow> any gomap \<Rightarrow> string \<Rightarrow> string list" where
  "writeTOMLMap other [] pre = []"
| "writeTOMLMap other ((key, v) # m) pre =
     (let fullKey = (if pre \<noteq> [] then pre @ ''.'' @ key else key)
      in (case v of
            AMap sub \<Rightarrow>
              (if isFlatMap sub
               then concat (map (\<lambda>(k2, v2). writeTOMLKey other (fullKey @ ''.'' @ k2) v2) sub)
               else [''['' @ fullKey @ '']'' @ [newline]] @ writeTOMLMap other sub fullKey)
          | _ \<Rightarrow> writeTOMLKey other fullKey v)
         @ writeTOMLMap other m pre)"

text \<open>
  Every level is sorted, except that the entries of a map that is written as dotted keys come in
  the order of the iteration.
\<close>

fun toml_order :: "any \<Rightarrow> any" where
  "toml_order (AMap m) =
     AMap (if isFlatMap m then m else sort_key fst (map (\<lambda>(k, v). (k, toml_order v)) m))"
| "toml_order v = v"

definition writeTOML :: "(nat \<Rightarrow> string) \<Rightarrow> any gomap \<Rightarrow> string list" where
  "writeTOML other m = writeTOMLMap other (sort_key fst (map (\<lambda>(k, v). (k, toml_order v)) m)) []"

section \<open>Environment variables\<close>

definition env_value_text :: "(nat \<Rightarrow> string) \<Rightarrow> any \<Rightarrow> string" where
  "env_value_text other v =
     (case v of
        AString s \<Rightarrow> s
      | ABool b \<Rightarrow> (if b then ''true'' else ''false'')
      | ADuration d \<Rightarrow> duration_str (sint d)
      | ATime t \<Rightarrow> rfc3339 t
      | _ \<Rightarrow> sprint_v other v)"

definition env_key :: "string \<Rightarrow> string" where
  "env_key key = to_upper (replace_char (CHR ''.'') (CHR ''_'') key)"

definition env_lines :: "(nat \<Rightarrow> string) \<Rightarrow> data \<Rightarrow> string list" where
  "env_lines other d =
     map (\<lambda>(key, v). env_key key @ ''='' @ env_value_text other (vraw v) @ [newline]) (sort_key fst d)"

section \<open>The registry\<close>

datatype ExportFormat = ExportJSON | ExportYAML | ExportTOML | ExportEnv | ExportOther string

fun ExportFormat_text :: "ExportFormat \<Rightarrow> string" where
  "ExportFormat_text ExportJSON = ''json''"
| "ExportFormat_text ExportYAML = ''yaml''"
| "ExportFormat_text ExportTOML = ''toml''"
| "ExportFormat_text ExportEnv = ''env''"
| "ExportFormat_text (ExportOther s) = s"

type_synonym 'w exporter = "data \<Rightarrow> 'w writer \<Rightarrow> 'w \<Rightarrow> goerror option \<times> 'w"

definition jsonExporter :: "(any \<Rightarrow> goerror + string) \<Rightarrow> 'w exporter" where
  "jsonExporter encode d wr w =
     (case encode (AMap (buildNested d)) of Inl err \<Rightarrow> (Some err, w) | Inr text \<Rightarrow> write_all wr [text] w)"

definition sorted_map :: "any gomap \<Rightarrow> any gomap" where
  "sorted_map m = sort_key fst (map (\<lambda>(k, v). (k, sort_entries v)) m)"

definition yamlExporter :: "(nat \<Rightarrow> string) \<Rightarrow> 'w exporter" where
  "yamlExporter other d wr w = write_all wr (writeYAML other (AMap (sorted_map (buildNested d))) 0) w"

definition tomlExporter :: "(nat \<Rightarrow> string) \<Rightarrow> 'w exporter" where
  "tomlExporter other d wr w = write_all wr (writeTOML other (buildNested d)) w"

definition envExporter :: "(nat \<Rightarrow> string) \<Rightarrow> 'w exporter" where
  "envExporter other d wr w = write_all wr (env_lines other d) w"

type_synonym 'w ExportRegistry = "(ExportFormat \<times> 'w exporter) list"

definition NewExportRegistry :: "(nat \<Rightarrow> string) \<Rightarrow> (any \<Rightarrow> goerror + string) \<Rightarrow> 'w ExportRegistry" where
  "NewExportRegistry other encode =
     mput ExportEnv (envExporter other) (mput ExportTOML (tomlExporter other)
       (mput ExportYAML (yamlExporter other) (mput ExportJSON (jsonExporter encode) [])))"

definition ExportRegistry_Register :: "ExportFormat \<Rightarrow> 'w exporter \<Rightarrow> 'w ExportRegistry \<Rightarrow> 'w ExportRegistry" where
  "ExportRegistry_Register f e r = mput f e r"

definition ExportRegistry_Get :: "'w ExportRegistry \<Rightarrow> ExportFormat \<Rightarrow> goerror + 'w exporter" where
  "ExportRegistry_Get r f =
     (case mget r f of
        None \<Rightarrow> Inl (NewError ErrInvalidFormat (''no exporter for format: '' @ ExportFormat_text f) [])
      | Some e \<Rightarrow> Inr e)"

definition Registry_Export :: "'w ExportRegistry \<Rightarrow> data \<Rightarrow> 'w writer \<Rightarrow> ExportFormat \<Rightarrow> 'w \<Rightarrow> goerror option \<times> 'w" where
  "Registry_Export r d wr f w =
     (case ExportRegistry_Get r f of Inl err \<Rightarrow> (Some err, w) | Inr e \<Rightarrow> e d wr w)"

text \<open>The four \<open>To\<close> functions: the bytes and the error, in Go's order of results.\<close>

definition to_format :: "(nat \<Rightarrow> string) \<Rightarrow> (any \<Rightarrow> goerror + string) \<Rightarrow> ExportFormat \<Rightarrow> data \<Rightarrow> string \<times> goerror option" where
  "to_format other encode f d =
     (let (err, buf) = Registry_Export (NewExportRegistry other encode) d buffer_write f [] in (buf, err))"

definition ToJSON where "ToJSON other encode d = to_format other encode ExportJSON d"
definition ToYAML where "ToYAML other encode d = to_format other encode ExportYAML d"
definition ToTOML where "ToTOML other encode d = to_format other encode ExportTOML d"
definition ToEnv where "ToEnv other encode d = to_format other encode ExportEnv d"

section \<open>The nested view agrees with the engine's\<close>

lemma nest_path_insert:
  "(\<And>qs. qs \<noteq> [] \<Longrightarrow> strict_prefix qs ps \<Longrightarrow> leaf_at qs m = None) \<Longrightarrow>
     nest_path ps v m = insert_path ps v m"
proof (induction ps v m rule: nest_path.induct)
  case (3 part p ps v current)
  have leaf: "leaf_at qs (submap part current) = None" if ne: "qs \<noteq> []" and pre: "strict_prefix qs (p # ps)" for qs
  proof -
    obtain q qs' where "qs = q # qs'" using ne by (cases qs) auto
    then show ?thesis using "3.prems" [of "part # qs"] pre by simp
  qed
  have one: "leaf_at [part] current = None" using "3.prems" [of "[part]"] by simp
  show ?case
  proof (cases "mget current part")
    case None
    then have "nest_path (p # ps) v [] = insert_path (p # ps) v []"
      by (intro "3.IH"(1)) simp_all
    then show ?thesis using None by (simp add: submap_def)
  next
    case (Some w)
    then obtain n where n: "w = AMap n" using one by (cases w) (auto split: if_splits)
    then have "nest_path (p # ps) v n = insert_path (p # ps) v n"
      using "3.IH"(11) [OF Some n] leaf by (simp add: Some n submap_def)
    then show ?thesis using Some n by (simp add: submap_def)
  qed
qed simp_all

lemma split_on_clean: "clean_key k \<Longrightarrow> split_on (CHR ''.'') k = splitKey k"
  using split_on_dotted [of "splitKey k" "CHR ''.''"] splitKey_clean_parts [of _ k]
  by (auto simp: clean_key_def clean_part_def)

lemma nest_loop_index_all:
  assumes "flat_ok (raws d)"
    and "\<And>k qs. k \<in> set (mkeys d) \<Longrightarrow> qs \<noteq> [] \<Longrightarrow> strict_prefix qs (splitKey k) \<Longrightarrow> leaf_at qs acc = None"
  shows "nest_loop d acc = index_all (raws d) acc"
  using assms
proof (induction d arbitrary: acc)
  case (Cons kv d)
  obtain k v where kv: "kv = (k, v)" by (cases kv)
  have f: "flat_ok ((k, vraw v) # raws d)" using Cons.prems(1) by (simp add: kv raws_def)
  note c = flat_ok_Cons [OF f]
  have nest: "nest_path (split_on (CHR ''.'') k) (vraw v) acc = insertIndexed k (vraw v) acc"
    unfolding split_on_clean [OF c(2)] insertIndexed_def
    by (rule nest_path_insert) (use Cons.prems(2) in \<open>auto simp: kv\<close>)
  have "leaf_at qs (insertIndexed k (vraw v) acc) = None"
    if k2: "k2 \<in> set (mkeys d)" and qs: "qs \<noteq> []" "strict_prefix qs (splitKey k2)" for k2 qs
  proof -
    have "k2 \<in> set (mkeys (raws d))" using k2 by (simp add: raws_def case_prod_beta)
    then have "qs \<noteq> splitKey k" using c(5) [of k2] qs(2) by (auto simp: strict_prefix_def)
    moreover have "leaf_at qs acc = None" using Cons.prems(2) [of k2] that by (simp add: kv)
    ultimately show ?thesis
      using c(2,3) by (simp add: insertIndexed_def clean_key_def leaf_at_insert)
  qed
  then show ?case using Cons.IH [OF c(1)] nest by (simp add: kv raws_def)
qed (simp add: raws_def)

lemma buildNested_index: "flat_ok (raws d) \<Longrightarrow> buildNested d = index_all (raws d) []"
  unfolding buildNested_def by (rule nest_loop_index_all) simp_all

section \<open>Strings in YAML\<close>

text \<open>Printable ASCII without quotes and backslashes, and not read as something else when bare.\<close>

definition text_char :: "char \<Rightarrow> bool" where
  "text_char c \<longleftrightarrow> 32 \<le> byte c \<and> byte c \<le> 126 \<and> c \<noteq> dquote \<and> c \<noteq> backslash"

definition text_ok :: "string \<Rightarrow> bool" where
  "text_ok s \<longleftrightarrow> list_all text_char s
     \<and> (needsQuoting s \<or> \<not> quoted_by squote s \<and> atoi s = None
        \<and> to_lower s \<notin> {''true'', ''yes'', ''on'', ''false'', ''no'', ''off'', ''null''})"

fun export_ok :: "(nat \<Rightarrow> string) \<Rightarrow> any \<Rightarrow> bool" where
  "export_ok other (AString s) \<longleftrightarrow> text_ok s"
| "export_ok other (AInt i) \<longleftrightarrow> True"
| "export_ok other (ABool b) \<longleftrightarrow> True"
| "export_ok other ANil \<longleftrightarrow> True"
| "export_ok other _ \<longleftrightarrow> False"

lemma text_charD:
  "text_char c \<Longrightarrow> byte c < 128" "text_char c \<Longrightarrow> 32 \<le> byte c" "text_char c \<Longrightarrow> byte c \<le> 126"
  "text_char c \<Longrightarrow> c \<noteq> dquote" "text_char c \<Longrightarrow> c \<noteq> backslash"
  by (simp_all add: text_char_def)

lemma byte_eq_iff: "byte c = byte d \<longleftrightarrow> c = d"
  unfolding byte_def by (rule of_char_eq_iff)

lemma escape_text_char:
  assumes "text_char c"
  shows "escape_rune (byte c) = [c]"
proof -
  have "c \<noteq> dquote" "c \<noteq> backslash" "32 \<le> byte c" "byte c < 128" using assms by (simp_all add: text_char_def)
  moreover have "byte dquote = 34" "byte backslash = 92" by (simp_all add: byte_def)
  ultimately have "byte c \<noteq> 34" "byte c \<noteq> 92" by (metis byte_eq_iff)+
  with \<open>32 \<le> byte c\<close> \<open>byte c < 128\<close> show ?thesis by (simp add: escape_rune_def encode_ascii)
qed

lemma map_enumerate_snd: "map (\<lambda>(i, r). f r) (List.enumerate n xs) = map f xs"
  by (induction xs arbitrary: n) auto

lemma escape_text: "list_all text_char s \<Longrightarrow> escapeString s = s"
proof -
  assume s: "list_all text_char s"
  have "\<forall>c\<in>set s. byte c < 128" using s text_charD(1) unfolding list_all_iff by blast
  then have "escapeString s = concat (map (\<lambda>(i, r). escape_rune r) (List.enumerate 0 (map byte s)))"
    by (simp add: escapeString_def runes_ascii)
  also have "\<dots> = concat (map escape_rune (map byte s))"
    by (simp only: map_enumerate_snd)
  also have "\<dots> = s" using s by (induction s) (simp_all add: escape_text_char)
  finally show ?thesis .
qed

lemma bareD:
  assumes "\<not> needsQuoting s"
  shows "s \<noteq> []" "hd s \<noteq> CHR '' ''" "last s \<noteq> CHR '' ''" "CHR ''#'' \<notin> set s" "parse_float s = None"
    "s \<noteq> [CHR 0x7E]"
proof -
  have "CHR ''#'' \<in> set '':#{}[],&*?|-<>=!%@''" by simp
  then show "CHR ''#'' \<notin> set s" using assms unfolding needsQuoting_def by blast
  have "[CHR 0x7E] \<in> set [''true'', ''false'', ''null'', ''yes'', ''no'', ''on'', ''off'', [CHR 0x7E]]" by simp
  then show "s \<noteq> [CHR 0x7E]" using assms unfolding needsQuoting_def by blast
qed (use assms in \<open>unfold needsQuoting_def, blast\<close>)+

lemma text_char_not_newline: "text_char c \<Longrightarrow> c \<noteq> newline"
  by (auto simp: text_char_def newline_def byte_def)

lemma bare_text:
  assumes "text_ok s" and "\<not> needsQuoting s"
  shows "s \<noteq> []" "plain_char (hd s)" "plain_char (last s)" "strip_loop False False False s = s"
    "parseValue s = Some (AString s)"
proof -
  note b = bareD [OF assms(2)]
  have t: "list_all text_char s" using assms(1) by (simp add: text_ok_def)
  show "s \<noteq> []" by (rule b(1))
  have ends: "plain_char c" if "c \<in> set s" "c \<noteq> CHR '' ''" for c
  proof -
    have "byte c \<noteq> byte (CHR '' '')" using that(2) by (simp only: byte_eq_iff not_False_eq_True)
    then have "byte c \<noteq> 32" by (simp add: byte_def)
    moreover have "32 \<le> byte c" "byte c \<le> 126" using t that(1) text_charD(2,3) unfolding list_all_iff by blast+
    ultimately show ?thesis by (simp add: plain_char_def)
  qed
  show p: "plain_char (hd s)" "plain_char (last s)" using b by (simp_all add: ends)
  have n: "dquote \<notin> set s" "backslash \<notin> set s" using t text_charD(4,5) unfolding list_all_iff by blast+
  have "strip_loop q False False s = s" if "dquote \<notin> set s" "backslash \<notin> set s" "CHR ''#'' \<notin> set s" for q s
    using that by (induction s arbitrary: q) auto
  then show "strip_loop False False False s = s" using n b(4) by simp
  have "\<not> quoted_by dquote s"
    using n(1) quoted_by_hd [of dquote s] hd_in_set [OF b(1)] by auto
  moreover have "trim_space s = s" using p by (simp add: trim_space_plain)
  moreover have "\<not> quoted_by squote s" "to_lower s \<notin> {''true'', ''yes'', ''on'', ''false'', ''no'', ''off'', ''null''}"
    "parse_number s = AString s"
    using assms b(5) by (simp_all add: text_ok_def parse_number_def)
  ultimately show "parseValue s = Some (AString s)" using b(6) unfolding parseValue_def Let_def by simp
qed

lemma quoted_text:
  assumes "text_ok s"
  shows "strip_loop False False False (quoted s) = quoted s" "newline \<notin> set (quoted s)"
proof -
  have "set s \<inter> {dquote, backslash} = {}" using assms text_charD(4,5) unfolding text_ok_def list_all_iff by blast
  then show "strip_loop False False False (quoted s) = quoted s" by (simp add: strip_loop_quoted)
  show "newline \<notin> set (quoted s)"
    using assms text_char_not_newline by (auto simp: text_ok_def list_all_iff newline_def)
qed

lemma yaml_text_string:
  "text_ok s \<Longrightarrow> yaml_line_text other (AString s) = (if needsQuoting s then quoted s else s)"
  by (simp add: text_ok_def escape_text)

interpretation export_yaml: scalar_text "yaml_line_text other" "export_ok other" for other
proof unfold_locales
  fix v assume ok: "export_ok other v"
  have other: "\<not> (\<exists>s. v = AString s) \<Longrightarrow> yaml_leaf v \<and> yaml_line_text other v = yaml_scalar v"
    using ok by (cases v) auto
  show "parseValue (yaml_line_text other v) = Some v"
    using ok other bare_text(5) yaml_scalar_parse [of v]
    by (cases "\<exists>s. v = AString s") (auto simp: yaml_text_string parseValue_quoted simp del: yaml_line_text.simps)
  show "strip_loop False False False (yaml_line_text other v) = yaml_line_text other v"
    using ok other bare_text(4) quoted_text(1) yaml_scalar_strip [of v]
    by (cases "\<exists>s. v = AString s") (auto simp: yaml_text_string simp del: yaml_line_text.simps strip_loop.simps)
  show "yaml_line_text other v \<noteq> [] \<and> plain_char (hd (yaml_line_text other v)) \<and> plain_char (last (yaml_line_text other v))"
  proof (cases "\<exists>s. v = AString s")
    case True
    then obtain s where s: "v = AString s" "text_ok s" using ok by auto
    then show ?thesis using bare_text(1-3) [OF s(2)]
      by (cases "needsQuoting s") (simp_all add: yaml_text_string del: yaml_line_text.simps)
  qed (use other yaml_scalar_ends [of v] in simp)
  show "newline \<notin> set (yaml_line_text other v)"
  proof (cases "\<exists>s. v = AString s")
    case True
    then obtain s where s: "v = AString s" "text_ok s" using ok by auto
    then have "newline \<notin> set s" using text_char_not_newline by (auto simp: text_ok_def list_all_iff)
    then show ?thesis using s quoted_text(2) [OF s(2)]
      by (cases "needsQuoting s") (simp_all add: yaml_text_string del: yaml_line_text.simps)
  qed (use other yaml_scalar_newline [of v] in simp)
qed

section \<open>The YAML text is a block document\<close>

lemma indent_blanks: "indent_text n = replicate (2 * n) (CHR '' '')"
  by (induction n) (simp_all add: indent_text_def)

lemma export_ok_cases: "export_ok other v \<Longrightarrow> \<not> is_map v \<and> (\<forall>a. v \<noteq> ASlice a) \<and> sort_entries v = v"
  by (cases v) auto

lemma writeYAML_scalar:
  "export_ok other v \<Longrightarrow> writeYAML other v n = [yaml_line_text other v @ [newline]]"
  by (cases v) auto

lemma writeYAMLMap_doc:
  "yaml_ok (export_ok other) m \<Longrightarrow>
     concat (writeYAMLMap other m n) = concat (map (\<lambda>l. l @ [newline]) (yaml_doc (yaml_line_text other) (2 * n) m))"
proof (induction m arbitrary: n rule: leaves.induct)
  case (2 k v m)
  have m: "concat (writeYAMLMap other m n) = concat (map (\<lambda>l. l @ [newline]) (yaml_doc (yaml_line_text other) (2 * n) m))"
    using "2.IH"(2) "2.prems" by simp
  show ?case
  proof (cases "is_map v")
    case True
    then obtain sub where v: "v = AMap sub" by (cases v) auto
    then have "concat (writeYAMLMap other sub (n + 1))
        = concat (map (\<lambda>l. l @ [newline]) (yaml_doc (yaml_line_text other) (2 * (n + 1)) sub))"
      using "2.IH"(1) "2.prems" by simp
    then show ?thesis using m by (simp add: v indent_blanks)
  next
    case False
    then have ok: "export_ok other v" using "2.prems" by (cases v) auto
    note c = export_ok_cases [OF ok]
    have "(case v of AMap sub \<Rightarrow> X sub | ASlice a \<Rightarrow> Y a | _ \<Rightarrow> Z) = Z" for X :: "any gomap \<Rightarrow> string list" and Y Z
      using c by (cases v) auto
    moreover have "(case v of AMap sub \<Rightarrow> X sub | _ \<Rightarrow> Z) = Z" for X :: "any gomap \<Rightarrow> string list" and Z
      using c by (cases v) auto
    ultimately show ?thesis using m by (simp add: writeYAML_scalar [OF ok] indent_blanks)
  qed
qed simp

section \<open>Which data are readable documents\<close>

definition readable :: "(any \<Rightarrow> bool) \<Rightarrow> any \<Rightarrow> bool" where
  "readable ok v \<longleftrightarrow> (case v of AMap sub \<Rightarrow> yaml_ok ok sub | _ \<Rightarrow> ok v)"

lemma readable_AMap [simp]: "readable ok (AMap sub) \<longleftrightarrow> yaml_ok ok sub"
  by (simp add: readable_def)

lemma readable_leaf: "\<not> is_map v \<Longrightarrow> readable ok v \<longleftrightarrow> ok v"
  by (cases v) (simp_all add: readable_def)

lemma yaml_ok_iff: "yaml_ok ok m \<longleftrightarrow> wf_map m \<and> (\<forall>(k, v)\<in>set m. yaml_key k \<and> readable ok v)"
  by (induction m) (auto simp: readable_def)

lemma yaml_okD: "yaml_ok ok m \<Longrightarrow> mget m k = Some v \<Longrightarrow> yaml_key k \<and> readable ok v"
  by (auto simp: yaml_ok_iff dest: map_of_SomeD)

lemma yaml_ok_mput:
  assumes "yaml_ok ok m" and "yaml_key k" and "readable ok v"
  shows "yaml_ok ok (mput k v m)"
proof -
  have "wf_map m" using assms(1) by (simp add: yaml_ok_iff)
  moreover have "yaml_key k' \<and> readable ok v'" if "mget (mput k v m) k' = Some v'" for k' v'
    using that assms yaml_okD [OF assms(1)] by (auto split: if_splits)
  ultimately show ?thesis unfolding yaml_ok_iff by (auto simp flip: wf_map_mget_iff)
qed

lemma yaml_ok_submap: "yaml_ok ok m \<Longrightarrow> yaml_ok ok (submap p m)"
  using yaml_okD [of ok m p] by (auto simp: submap_def split: option.splits any.splits)

lemma yaml_ok_insert:
  "yaml_ok ok m \<Longrightarrow> \<forall>p\<in>set ps. yaml_key p \<Longrightarrow> ok v \<Longrightarrow> \<not> is_map v \<Longrightarrow> yaml_ok ok (insert_path ps v m)"
proof (induction ps v m rule: insert_path.induct)
  case (2 p v cur)
  then show ?case by (simp add: yaml_ok_mput readable_leaf)
next
  case (3 p q ps v cur)
  then show ?case by (simp add: yaml_ok_mput yaml_ok_submap)
qed simp

lemma yaml_ok_index_all:
  "yaml_ok ok acc \<Longrightarrow> \<forall>(k, v)\<in>set m. (\<forall>p\<in>set (splitKey k). yaml_key p) \<and> ok v \<and> \<not> is_map v \<Longrightarrow>
     yaml_ok ok (index_all m acc)"
  by (induction m acc rule: index_all.induct) (auto simp: insertIndexed_def yaml_ok_insert)

section \<open>Sorting keeps the contents\<close>

lemma sort_entries_AMap: "sort_entries (AMap m) = AMap (sorted_map m)"
  by (simp add: sorted_map_def)

lemma wf_map_sort [simp]: "wf_map (sort_key fst m) \<longleftrightarrow> wf_map m"
  by (metis wf_map_def mset_map mset_sort mset_eq_imp_distinct_iff)

lemma mget_sort: "wf_map m \<Longrightarrow> mget (sort_key fst m) k = mget m k"
  by (metis map_of_eqI set_sort wf_map_def wf_map_sort distinct_map map_of_inject_set option.exhaust wf_map_mget_iff set_sort)

lemma wf_map_sorted [simp]: "wf_map (sorted_map m) \<longleftrightarrow> wf_map m"
  by (simp add: sorted_map_def)

lemma mget_sorted: "wf_map m \<Longrightarrow> mget (sorted_map m) k = map_option sort_entries (mget m k)"
  by (simp add: sorted_map_def mget_sort)

lemma yaml_ok_sort_iff: "yaml_ok ok (sorted_map m) \<longleftrightarrow> yaml_ok ok (map (\<lambda>(k, v). (k, sort_entries v)) m)"
  by (simp only: yaml_ok_iff sorted_map_def wf_map_sort set_sort)

lemma mkeys_map_snd: "mkeys (map (\<lambda>(k, v). (k, f v)) m) = mkeys m"
  by (simp add: case_prod_beta o_def)

lemma map_snd_keys: "fst ` set (map (\<lambda>(k, v). (k, f v)) m) = fst ` set m"
  by (force simp: image_iff)

lemma yaml_ok_sorted:
  assumes "\<And>v. ok v \<Longrightarrow> sort_entries v = v \<and> \<not> is_map v"
  shows "yaml_ok ok m \<Longrightarrow> yaml_ok ok (sorted_map m)"
proof (induction m rule: leaves.induct)
  case (2 k v m)
  have v: "readable ok v" using "2.prems" by (simp add: yaml_ok_iff)
  have "readable ok (sort_entries v)"
  proof (cases "is_map v")
    case True
    then obtain sub where "v = AMap sub" by (cases v) auto
    then show ?thesis using "2.IH"(1) v by (simp add: sort_entries_AMap del: sort_entries.simps)
  qed (use v assms [of v] in \<open>simp add: readable_leaf\<close>)
  moreover have "yaml_ok ok (map (\<lambda>(k, v). (k, sort_entries v)) m)"
    using "2.IH"(2) "2.prems" by (simp add: yaml_ok_sort_iff)
  ultimately have "yaml_ok ok (map (\<lambda>(k, v). (k, sort_entries v)) ((k, v) # m))"
    using "2.prems" by (simp add: readable_def map_snd_keys del: set_map)
  then show ?case unfolding yaml_ok_sort_iff .
qed (simp add: sorted_map_def)

lemma leaf_at_sorted:
  assumes "\<And>v. ok v \<Longrightarrow> sort_entries v = v \<and> \<not> is_map v"
  shows "yaml_ok ok m \<Longrightarrow> leaf_at ps (sorted_map m) = leaf_at ps m"
proof (induction ps m rule: leaf_at.induct)
  case (2 p m)
  have "is_map (sort_entries v) = is_map v \<and> (\<not> is_map v \<longrightarrow> sort_entries v = v)" if "mget m p = Some v" for v
    using yaml_okD [OF "2" that] assms [of v] by (cases "is_map v") (auto simp: readable_leaf elim: is_map.elims)
  moreover have "wf_map m" using 2 by (rule yaml_ok_wf)
  ultimately show ?case by (cases "mget m p") (auto simp: mget_sorted)
next
  case (3 p q ps m)
  have wf: "wf_map m" using "3.prems" by (rule yaml_ok_wf)
  have "submap p (sorted_map m) = sorted_map (submap p m)"
  proof (cases "mget m p")
    case (Some v)
    then show ?thesis
    proof (cases "is_map v")
      case True
      then obtain sub where "v = AMap sub" by (cases v) auto
      then show ?thesis using Some wf by (simp add: submap_def mget_sorted sort_entries_AMap del: sort_entries.simps)
    next
      case False
      then have "sort_entries v = v" using yaml_okD [OF "3.prems" Some] assms [of v] by (simp add: readable_leaf)
      then have "mget (sorted_map m) p = Some v" using Some wf by (simp add: mget_sorted)
      with False Some show ?thesis by (cases v) (simp_all add: submap_def sorted_map_def)
    qed
  qed (use wf in \<open>simp add: submap_def mget_sorted sorted_map_def [of "[]"]\<close>)
  then show ?case using 3 yaml_ok_submap by simp
qed simp

lemma nested_ok_iff:
  "nested_ok m \<longleftrightarrow> wf_map m \<and> (\<forall>(k, v)\<in>set m. clean_part k \<and> (\<forall>n. v = AMap n \<longrightarrow> nested_ok n))"
  by (induction m) (auto split: any.splits)

lemma nested_ok_sort_iff: "nested_ok (sorted_map m) \<longleftrightarrow> nested_ok (map (\<lambda>(k, v). (k, sort_entries v)) m)"
  unfolding nested_ok_iff [of "sorted_map m"] nested_ok_iff [of "map (\<lambda>(k, v). (k, sort_entries v)) m"]
  by (simp only: sorted_map_def wf_map_sort set_sort)

lemma nested_ok_sorted: "nested_ok m \<Longrightarrow> nested_ok (sorted_map m)"
proof (induction m rule: leaves.induct)
  case (2 k v m)
  have "nested_ok (map (\<lambda>(k, v). (k, sort_entries v)) m)"
    using "2.IH"(2) "2.prems" by (simp add: nested_ok_sort_iff)
  moreover have "nested_ok n" if "sort_entries v = AMap n" for n
    using that "2.IH"(1) "2.prems" by (cases v) (auto simp: sort_entries_AMap simp del: sort_entries.simps(1))
  ultimately have "nested_ok (map (\<lambda>(k, v). (k, sort_entries v)) ((k, v) # m))"
    using "2.prems" by (simp add: mkeys_map_snd [simplified] split: any.split)
  then show ?case unfolding nested_ok_sort_iff .
qed (simp add: sorted_map_def)

section \<open>Results\<close>

lemma write_all_buffer: "write_all buffer_write cs buf = (None, buf @ concat cs)"
  by (induction cs arbitrary: buf) (simp_all add: buffer_write_def)

lemma ToYAML_text:
  "ToYAML other encode d = (concat (writeYAMLMap other (sorted_map (buildNested d)) 0), None)"
  by (simp add: ToYAML_def to_format_def Registry_Export_def ExportRegistry_Get_def NewExportRegistry_def
      yamlExporter_def write_all_buffer)

text \<open>Data whose keys are clean, visible and prefix-free, and whose values a document can hold.\<close>

definition export_data_ok :: "(nat \<Rightarrow> string) \<Rightarrow> data \<Rightarrow> bool" where
  "export_data_ok other d \<longleftrightarrow> flat_ok (raws d)
     \<and> (\<forall>(k, v)\<in>set d. (\<forall>p\<in>set (splitKey k). yaml_key p) \<and> export_ok other (vraw v))"

lemma exported_document:
  assumes "export_data_ok other d"
  defines "m \<equiv> sorted_map (buildNested d)"
  shows "yaml_ok (export_ok other) m" "nested_ok m" "map_of (Flatten m []) = map_of (raws d)"
    "fst (ToYAML other encode d) = yaml_text (yaml_line_text other) m"
proof -
  have flat: "flat_ok (raws d)" using assms(1) by (simp add: export_data_ok_def)
  have ok: "sort_entries v = v \<and> \<not> is_map v" if "export_ok other v" for v
    using export_ok_cases [OF that] by simp
  let ?n = "buildNested d"
  have n: "?n = index_all (raws d) []" by (rule buildNested_index [OF flat])
  have y: "yaml_ok (export_ok other) ?n"
    unfolding n using assms(1) ok by (intro yaml_ok_index_all) (auto simp: export_data_ok_def raws_def)
  show m: "yaml_ok (export_ok other) m" unfolding m_def by (rule yaml_ok_sorted [OF ok y])
  have leaf: "leaf_at ps m = leaf_at ps ?n" for ps unfolding m_def by (rule leaf_at_sorted [OF ok y])
  have nn: "nested_ok ?n" unfolding n by (rule nested_ok_index_all [OF flat]) simp
  show nm: "nested_ok m" unfolding m_def by (rule nested_ok_sorted [OF nn])
  have "mget (Flatten m []) k = Some v \<longleftrightarrow> mget (Flatten ?n []) k = Some v" for k v
    by (simp only: mget_Flatten_iff [OF nm] mget_Flatten_iff [OF nn] leaf)
  then have "map_of (Flatten m []) = map_of (Flatten ?n [])"
    by (intro ext) (metis not_None_eq)
  then show "map_of (Flatten m []) = map_of (raws d)" using Flatten_index_all [OF flat] by (simp add: n)
  show "fst (ToYAML other encode d) = yaml_text (yaml_line_text other) m"
    using writeYAMLMap_doc [OF m, of 0] by (simp add: ToYAML_text yaml_text_def m_def)
qed

text \<open>
  A YAML export is read back.  For data with clean, visible, prefix-free keys whose values are
  integers, booleans, nil or plain text, exporting succeeds, and parsing and flattening the exported
  text gives every key its value again, whatever the order in which the nested maps were built:
  the quoting rules of the exporter match the scalar rules of the parser.
\<close>

theorem yaml_export_roundtrip:
  assumes "export_data_ok other d"
  shows "\<exists>m. snd (ToYAML other encode d) = None \<and> yamlParse (fst (ToYAML other encode d)) = Some m
    \<and> (\<forall>key. mget (Flatten m []) key = map_option vraw (mget d key))"
proof -
  note e = exported_document [OF assms]
  have "yamlParse (fst (ToYAML other encode d)) = Some (sorted_map (buildNested d))"
    unfolding e(4) by (rule export_yaml.yaml_read_back [OF e(1)])
  moreover have "mget (Flatten (sorted_map (buildNested d)) []) key = map_option vraw (mget d key)" for key
    by (simp only: e(3) mget_raws)
  ultimately show ?thesis by (intro exI [of _ "sorted_map (buildNested d)"]) (simp add: ToYAML_text)
qed

theorem yaml_export_roundtrip_witness:
  "\<exists>m. yamlParse (fst (ToYAML (\<lambda>_. []) (\<lambda>_. Inr []) [(''db.url'', NewValue (AString ''x:y'') TypeString SourceMemory 30),
       (''db.port'', NewValue (AInt 1) TypeInt SourceMemory 30), (''name'', NewValue (AString ''a b'') TypeString SourceMemory 30)])) = Some m
     \<and> mget (Flatten m []) ''db.url'' = Some (AString ''x:y'')"
proof -
  let ?d = "[(''db.url'', NewValue (AString ''x:y'') TypeString SourceMemory 30),
       (''db.port'', NewValue (AInt 1) TypeInt SourceMemory 30), (''name'', NewValue (AString ''a b'') TypeString SourceMemory 30)]"
  have flat: "flat_ok (raws ?d)" by code_simp
  have "text_ok ''x:y''" "text_ok ''a b''" by (code_simp, code_simp)
  moreover have "\<forall>(k, v)\<in>set ?d. \<forall>p\<in>set (splitKey k). yaml_key p" by code_simp
  ultimately have "export_data_ok (\<lambda>_. []) ?d"
    using flat unfolding export_data_ok_def by simp
  from yaml_export_roundtrip [OF this, of "\<lambda>_. Inr []"] show ?thesis by auto
qed

section \<open>The environment export is read back\<close>

text \<open>A key that survives: lower case, without underscores and equals signs.\<close>

definition env_char :: "char \<Rightarrow> bool" where
  "env_char c \<longleftrightarrow> \<not> is_upper c \<and> c \<noteq> CHR ''_'' \<and> c \<noteq> CHR ''=''"

lemma env_char_back:
  assumes "env_char c"
  shows "to_lower_char (if to_upper_char (if c = CHR ''.'' then CHR ''_'' else c) = CHR ''_'' then CHR ''.''
     else to_upper_char (if c = CHR ''.'' then CHR ''_'' else c)) = c"
    and "to_upper_char (if c = CHR ''.'' then CHR ''_'' else c) \<noteq> CHR ''=''"
proof -
  have lower: "byte (to_upper_char c) = byte c - 32 \<and> to_lower_char (to_upper_char c) = c" if "is_lower c"
  proof -
    have b: "97 \<le> byte c" "byte c \<le> 122" using that by (simp_all add: is_lower_def)
    then have u: "byte (to_upper_char c) = byte c - 32"
      using that by (simp add: to_upper_char_def byte_def)
    then have "is_upper (to_upper_char c)" "byte (to_upper_char c) + 32 = byte c"
      unfolding is_upper_def using b by linarith+
    then show ?thesis using u by (simp add: to_lower_char_def) (simp add: byte_def char_of_char)
  qed
  have dot: "to_upper_char (CHR ''_'') = CHR ''_''" "to_lower_char (CHR ''.'') = CHR ''.''" by (code_simp, code_simp)
  have codes: "byte (CHR ''_'') = 95" "byte (CHR ''='') = 61" by (simp_all add: byte_def)
  have up: "to_upper_char c \<noteq> CHR ''_'' \<and> to_upper_char c \<noteq> CHR ''='' \<and> to_lower_char (to_upper_char c) = c"
  proof (cases "is_lower c")
    case True
    then have "65 \<le> byte (to_upper_char c)" "byte (to_upper_char c) \<le> 90"
      using conjunct1 [OF lower [OF True]] True unfolding is_lower_def by linarith+
    then have "byte (to_upper_char c) \<noteq> byte (CHR ''_'')" "byte (to_upper_char c) \<noteq> byte (CHR ''='')"
      by (simp_all only: codes)
    then have "to_upper_char c \<noteq> CHR ''_''" "to_upper_char c \<noteq> CHR ''=''" by auto
    then show ?thesis using lower [OF True] by blast
  next
    case False
    then have "to_upper_char c = c" by (simp add: to_upper_char_def)
    then show ?thesis using assms by (simp add: env_char_def to_lower_char_def)
  qed
  then show "to_lower_char (if to_upper_char (if c = CHR ''.'' then CHR ''_'' else c) = CHR ''_'' then CHR ''.''
     else to_upper_char (if c = CHR ''.'' then CHR ''_'' else c)) = c"
    "to_upper_char (if c = CHR ''.'' then CHR ''_'' else c) \<noteq> CHR ''=''"
    using dot by auto
qed

lemma env_key_back: "list_all env_char k \<Longrightarrow> defaultEnvTransform (env_key k) = k \<and> CHR ''='' \<notin> set (env_key k)"
proof -
  assume "list_all env_char k"
  then have k: "c \<in> set k \<Longrightarrow> env_char c" for c by (simp add: list_all_iff)
  have "defaultEnvTransform (env_key k) = k"
    unfolding defaultEnvTransform_def env_key_def to_lower_def to_upper_def replace_char_def map_map o_def
    by (rule map_idI) (rule env_char_back(1) [OF k])
  moreover have "CHR ''='' \<notin> set (env_key k)"
  proof
    assume "CHR ''='' \<in> set (env_key k)"
    then obtain c where "c \<in> set k" "CHR ''='' = to_upper_char (if c = CHR ''.'' then CHR ''_'' else c)"
      unfolding env_key_def to_upper_def replace_char_def map_map o_def set_map image_iff by blast
    then show False using env_char_back(2) [OF k] by metis
  qed
  ultimately show ?thesis ..
qed

lemma env_loop_lines:
  fixes other :: "nat \<Rightarrow> string"
  defines "entry \<equiv> \<lambda>v. let x = parseEnvValue (env_value_text other (vraw v)) in NewValue x (inferType x) SourceEnv 20"
  assumes "\<forall>k\<in>set (mkeys d). list_all env_char k"
  shows "env_loop (NewEnvSource []) (map (\<lambda>(k, v). env_key k @ ''='' @ env_value_text other (vraw v)) d) result
    = mput_all result (map (\<lambda>(k, v). (k, entry v)) d)"
  using assms(2)
proof (induction d arbitrary: result)
  case (Cons kv d)
  obtain k v where kv: "kv = (k, v)" by (cases kv)
  have k: "list_all env_char k" using Cons.prems by (simp add: kv)
  show ?case
    using Cons env_key_back [OF k]
    by (simp add: kv split2_append NewEnvSource_def entry_def Let_def)
qed simp




end
