(* ===== verification/BindSafety.thy ===== *)
theory BindSafety
  imports Bind
begin

text \<open>
  When \<open>Bind\<close> (bind/bind.go) cannot panic: the types whose fields it can walk, the paths its metadata
  holds, and the accessors on well-typed values.
\<close>

section \<open>When binding cannot panic\<close>

text \<open>
  The types the binder can walk: no field that it visits is embedded, and maps have keys of a string
  or interface type.
\<close>

definition string_key :: "gotype \<Rightarrow> bool" where
  "string_key t \<longleftrightarrow> t = KString \<or> t = KOther ''interface''"

fun bindable :: "gotype \<Rightarrow> bool" and bindable_fields :: "gofield list \<Rightarrow> bool" where
  "bindable (KStruct fs) = bindable_fields fs"
| "bindable (KPtr t) = bindable t"
| "bindable (KMap k e) = string_key k"
| "bindable _ = True"
| "bindable_fields [] = True"
| "bindable_fields (Field name t tag exported embedded # fs) =
     ((exported \<longrightarrow> \<not> embedded \<and> (tag \<noteq> ''-'' \<longrightarrow> bindable t)) \<and> bindable_fields fs)"

text \<open>The type at the end of a path through structs.\<close>

fun path_type :: "gotype \<Rightarrow> nat list \<Rightarrow> gotype option" where
  "path_type t [] = Some t"
| "path_type (KStruct fs) (i # is) = (if i < length fs then path_type (f_type (fs ! i)) is else None)"
| "path_type _ _ = None"

definition reached :: "gotype \<Rightarrow> nat list \<Rightarrow> fieldMeta \<Rightarrow> bool" where
  "reached rt parent fm \<longleftrightarrow>
     (\<exists>is t. fm_index fm = parent @ is \<and> is \<noteq> [] \<and> path_type rt is = Some t \<and> bindable t)"

lemma parseTag_index [simp]: "fm_index (parseTag name i tag pre parent) = parent @ [i]"
proof -
  have k: "fm_index (tag_parts ps fm) = fm_index fm" for ps fm
    by (induction ps fm rule: tag_parts.induct) (auto split: prod.splits option.splits)
  show ?thesis by (simp add: parseTag_def Let_def k)
qed

lemma reached_parent:
  assumes "reached t (parent @ [i]) fm" and "i < length fs" and "f_type (fs ! i) = t"
  shows "reached (KStruct fs) parent fm"
proof -
  obtain "is" u where "fm_index fm = parent @ (i # is)" "path_type t is = Some u" "bindable u"
    using assms(1) by (auto simp: reached_def)
  then show ?thesis unfolding reached_def using assms(2,3) by (intro exI [of _ "i # is"] exI [of _ u]) simp
qed

lemma walk_bindable:
  "bindable t \<Longrightarrow> is_struct t \<Longrightarrow> \<exists>m. walkFields t pre parent = Some m \<and> (\<forall>fm\<in>set m. reached t parent fm)"
  "bindable_fields fs \<Longrightarrow> gs = us @ fs \<Longrightarrow> i = length us \<Longrightarrow>
     \<exists>m. walk_loop fs i pre parent = Some m \<and> (\<forall>fm\<in>set m. reached (KStruct gs) parent fm)"
proof (induction t pre parent and fs i pre parent arbitrary: and gs us rule: walkFields_walk_loop.induct)
  case (1 fs pre parent)
  then show ?case using "1.IH" [of fs "[]"] by simp
next
  case (5 name t tag exported embedded fs i pre parent)
  let ?fm = "parseTag name i tag pre parent"
  have gs: "gs = (us @ [Field name t tag exported embedded]) @ fs" "Suc i = length (us @ [Field name t tag exported embedded])"
    and at: "i < length gs" "f_type (gs ! i) = t"
    using 5(8,9) by simp_all
  have skip: "\<not> exported \<or> tag = ''-'' \<and> \<not> embedded \<Longrightarrow>
      \<exists>m. walk_loop (Field name t tag exported embedded # fs) i pre parent = Some m
        \<and> (\<forall>fm\<in>set m. reached (KStruct gs) parent fm)"
    using 5(1) [OF _ _ gs] 5(4) [OF _ _ _ _ gs] 5(7) by auto
  show ?case
  proof (cases "exported \<and> tag \<noteq> ''-''")
    case False
    then show ?thesis using skip 5(7) by auto
  next
    case True
    then have e: "\<not> \<not> exported" "\<not> embedded" "tag \<noteq> ''-''" "bindable t" using 5(7) by auto
    have fm: "reached (KStruct gs) parent ?fm"
      using at e(4) unfolding reached_def by (intro exI [of _ "[i]"] exI [of _ t]) simp
    have inner: "\<exists>m. (case t of KStruct _ \<Rightarrow> walkFields t (splitPath (fm_key ?fm)) (fm_index ?fm) | _ \<Rightarrow> Some []) = Some m
        \<and> (\<forall>fm\<in>set m. reached (KStruct gs) parent fm)"
    proof (cases t)
      case (KStruct xs)
      show ?thesis using 5(5) [OF e(1-3) refl KStruct e(4)] reached_parent [OF _ at] by (auto simp: KStruct)
    qed simp_all
    then obtain m where m: "(case t of KStruct _ \<Rightarrow> walkFields t (splitPath (fm_key ?fm)) (fm_index ?fm) | _ \<Rightarrow> Some []) = Some m"
      "\<forall>fm\<in>set m. reached (KStruct gs) parent fm" by blast
    obtain m' where "walk_loop fs (Suc i) pre parent = Some m'" "\<forall>fm\<in>set m'. reached (KStruct gs) parent fm"
      using 5(6) [OF e(1-3) refl m(1) _ gs] 5(7) by auto
    then show ?thesis using e m fm by (auto simp: Let_def)
  qed
qed simp_all

lemma path_field:
  assumes "path_type t is = Some u" and "is \<noteq> []" and "has_type v t"
  shows "\<exists>fv c. field_by_index first ro t v is = Some (u, fv, c)"
  using assms
proof (induction t "is" arbitrary: first ro v rule: path_type.induct)
  case (2 fs i "is")
  obtain vs where v: "v = VStruct vs" "have_types vs fs" using 2(4) by (auto simp: has_type_KStruct)
  have i: "i < length fs" "path_type (f_type (fs ! i)) is = Some u" using 2(2) by (auto split: if_splits)
  then have d: "deref first (KStruct fs) v = Some (KStruct fs, v)" "struct_field (KStruct fs) v i = Some (fs ! i, vs ! i)"
    and h: "has_type (vs ! i) (f_type (fs ! i))"
    using v by (auto simp: deref_def have_types_iff)
  show ?case
  proof (cases "is = []")
    case True
    then show ?thesis using i(2) d by (simp add: field_by_index_Cons del: field_by_index.simps)
  next
    case False
    from 2(1) [OF i False h] show ?thesis
      using d False by (simp add: field_by_index_Cons del: field_by_index.simps(2))
  qed
qed auto

text \<open>The accessors do not panic on well-typed values.\<close>

definition good_data :: "Value gomap \<Rightarrow> bool" where
  "good_data data \<longleftrightarrow> (\<forall>(k, v)\<in>set data. well_typed v)"

lemma accessors_total:
  assumes "well_typed v"
  shows "Value_Int v \<noteq> None" "Value_Duration v \<noteq> None" "Value_Float64 v \<noteq> None" "Value_Bool v \<noteq> None"
  using assms by (cases "vraw v"; force simp: well_typed_def accessor_defs)+

lemma scalars_total:
  assumes "well_typed v"
  shows "scalar_int v fm \<noteq> None" "scalar_duration v fm \<noteq> None" "scalar_uint v fm \<noteq> None"
    "scalar_float v fm \<noteq> None" "scalar_bool v fm \<noteq> None"
  using accessors_total [OF assms]
  by (auto simp: scalar_int_def scalar_duration_def scalar_uint_def scalar_float_def scalar_bool_def
      split: option.splits bool.splits)

lemma map_loop_total: "string_key k \<Longrightarrow> map_loop other k e fm m acc \<noteq> None"
  by (induction other k e fm m acc rule: map_loop.induct) (auto simp: string_key_def split: sum.splits)

lemma setMap_total: "string_key k \<Longrightarrow> setMap other k e v fm \<noteq> None"
  using map_loop_total [of k other e fm _ "[]"] by (auto simp: setMap_def split: any.splits)

lemma good_field_value: "good_data data \<Longrightarrow> field_value data fm = Some v \<Longrightarrow> well_typed v"
  by (auto simp: field_value_def good_data_def dest!: map_of_SomeD split: option.splits if_splits)

lemma good_wrap [simp]: "good_data (wrap_unknown m)"
proof -
  have "(k, v) \<in> set (mput_all d e) \<Longrightarrow> (k, v) \<in> set d \<or> (k, v) \<in> set e" for k v and d e :: "Value gomap"
    by (induction d e rule: mput_all.induct) (auto dest: set_mput)
  then show ?thesis by (fastforce simp: good_data_def wrap_unknown_def)
qed

lemma scalar_done_total: "r \<noteq> None \<Longrightarrow> scalar_done b fv f r \<noteq> None"
  by (auto simp: scalar_done_def split: sum.splits)

lemma bind_total:
  "cache_ok b \<Longrightarrow> good_data data \<Longrightarrow> bindable rt \<Longrightarrow> is_struct rt \<Longrightarrow> has_type rv rt \<Longrightarrow>
     bind_struct other b data rt rv \<noteq> None"
  "cache_ok b \<Longrightarrow> good_data data \<Longrightarrow> \<forall>fm\<in>set fms. reached rt [] fm \<Longrightarrow> has_type rv rt \<Longrightarrow>
     bind_loop other b data fms rt rv \<noteq> None"
  "cache_ok b \<Longrightarrow> well_typed val \<Longrightarrow> bindable t \<Longrightarrow> has_type fv t \<Longrightarrow> setValue other b t fv val field \<noteq> None"
  "cache_ok b \<Longrightarrow> well_typed val \<Longrightarrow> bindable t \<Longrightarrow> has_type fv t \<Longrightarrow> set_kind other b t fv val field \<noteq> None"
proof (induction other b data rt rv and other b data fms rt rv and other b t fv val field
    and other b t fv val field
    rule: bind_struct_bind_loop_setValue_set_kind.induct)
  case (1 other b data rt rv)
  obtain m where m: "buildMeta rt = Some m" "\<forall>fm\<in>set m. reached rt [] fm"
    using walk_bindable(1) [OF "1.prems"(3,4), of "[]" "[]"] by (auto simp: buildMeta_def)
  then obtain b' where b': "getMeta rt b = Some (m, b')" "cache_ok b'"
    using getMeta_ok [OF "1.prems"(1), of rt] by (auto split: option.splits)
  then show ?case using "1.IH" [OF b'(1) refl b'(2) "1.prems"(2) m(2) "1.prems"(5)] by (simp add: bind_struct.simps)
next
  case (3 other b data field fms rt rv)
  obtain "is" t where t: "fm_index field = is" "is \<noteq> []" "path_type rt is = Some t" "bindable t"
    using "3.prems"(3) by (auto simp: reached_def)
  obtain fv c where f: "FieldByIndex rt rv (fm_index field) = Some (t, fv, c)"
    unfolding FieldByIndex_def t(1) using path_field [OF t(3,2) "3.prems"(4), of True False] by blast
  show ?case
  proof (cases "c \<and> field_value data field \<noteq> None")
    case False
    then show ?thesis using f "3.prems" "3.IH"(1,2) [OF f refl refl] by (auto split: option.splits)
  next
    case True
    then obtain w where w: "field_value data field = Some w" by auto
    obtain b1 v1 e1 where s: "setValue other b t fv w field = Some (b1, v1, e1)"
      using "3.IH"(3) [OF f refl refl _ w "3.prems"(1) good_field_value [OF "3.prems"(2) w] t(4)
          FieldByIndex_type(1) [OF f "3.prems"(4)]] True by auto
    have "cache_ok b1"
      using bind_cache(3) [OF "3.prems"(1,1), of other t fv w field] s by (simp add: same_outcome_Some)
    moreover have "has_type (put_at rv (fm_index field) v1) rt"
      using FieldByIndex_type [OF f "3.prems"(4)] bind_types(3) [OF s] by blast
    ultimately show ?thesis
      using "3.IH"(4) [OF f refl refl _ w s refl refl] "3.prems"(2,3) f w s True by (cases e1) auto
  qed
next
  case (4 other b et fv val field)
  have "has_type (case fv of VPtr (Some u) \<Rightarrow> u | _ \<Rightarrow> zero_of et) et"
    using "4.prems"(4) by (auto simp: has_type_KPtr)
  then show ?case using 4 by simp
qed (auto simp: scalar_done_total scalars_total setMap_total split: option.splits any.splits)

text \<open>
  C10: binding does not panic.  For a pointer to a struct in which no visited field is embedded and
  maps have string keys, holding a value of its type, well-typed data and a binder after any calls,
  \<open>Bind\<close> returns: every index of the metadata leads to a field, nested structs included, and no
  accessor fails.
\<close>

theorem bind_never_panics:
  assumes "bind_calls other calls NewBinder = Some b" and "good_data data"
    and "bindable rt" and "has_type rv rt"
  shows "Bind other b data (PointerTo rt rv) \<noteq> None"
  using bind_total(1) [OF bind_calls_ok [OF assms(1) cache_ok_New] assms(2,3) _ assms(4), of other]
  by (auto simp: Bind_def)

theorem bind_never_panics_witness:
  "Bind (\<lambda>_. []) NewBinder [(''db'', NewValue (AMap [(''host'', AInt 1)]) TypeMap SourceFile 10)]
     (PointerTo (KStruct [Field ''DB'' (KStruct server_fields) [] True False])
        (zero_of (KStruct [Field ''DB'' (KStruct server_fields) [] True False]))) \<noteq> None"
  by (rule bind_never_panics [where calls = "[]"])
     (simp_all add: good_data_def server_fields_def int_fits_def)

end
