(* ===== verification/ConfigIO.thy ===== *)
theory ConfigIO
  imports Config Export BindSafety
begin

text \<open>
  The facade's way in and out (config.go): binding, export, encryption, files, watching the sources,
  and the global instance, on top of Config and of the packages they delegate to.

  \<open>other\<close> and \<open>encode\<close> are the parameters of the exporters, \<open>decode\<close> and \<open>read_file\<close> those of the file
  source; \<open>create\<close> and \<open>write_file\<close> are \<open>os.Create\<close> and the writes to the file it makes.
\<close>

section \<open>Construction\<close>

definition MustNew :: "int \<Rightarrow> 'w option_fun list \<Rightarrow> 'w \<Rightarrow> ('w Config \<times> 'w) option" where
  "MustNew now opts w =
     (case New now opts w of
        None \<Rightarrow> None
      | Some (Inl err, w') \<Rightarrow> None
      | Some (Inr c, w') \<Rightarrow> Some (c, w'))"

definition LoadFile ::
  "(string \<Rightarrow> goerror + json gomap option) \<Rightarrow> ('w \<Rightarrow> string \<Rightarrow> goerror + string) \<Rightarrow> (string \<Rightarrow> goerror + string)
     \<Rightarrow> int \<Rightarrow> string \<Rightarrow> 'w option_fun list \<Rightarrow> 'w \<Rightarrow> ((goerror + 'w Config) \<times> 'w) option" where
  "LoadFile decode read_file resolve now path opts w =
     New now (WithFile decode read_file resolve path [] # opts) w"

definition LoadEnv ::
  "('w \<Rightarrow> string list) \<Rightarrow> int \<Rightarrow> string \<Rightarrow> 'w option_fun list \<Rightarrow> 'w \<Rightarrow> ((goerror + 'w Config) \<times> 'w) option" where
  "LoadEnv environ now pre opts w = New now (WithEnv environ pre [] # opts) w"

definition Config_Load :: "int \<Rightarrow> 'w option_fun list \<Rightarrow> 'w \<Rightarrow> ((goerror + 'w Config) \<times> 'w) option" where
  "Config_Load now sources w = New now sources w"

section \<open>Binding\<close>

definition Config_Bind ::
  "(nat \<Rightarrow> string) \<Rightarrow> 'w Config \<Rightarrow> bind_target \<Rightarrow> ('w Config \<times> bind_target \<times> goerror option) option" where
  "Config_Bind other c target =
     map_option (\<lambda>(b, target', err). (c\<lparr>cfg_binder := b\<rparr>, target', err))
       (Bind.Bind other (cfg_binder c) (entries (All c)) target)"

definition Config_MustBind :: "(nat \<Rightarrow> string) \<Rightarrow> 'w Config \<Rightarrow> bind_target \<Rightarrow> ('w Config \<times> bind_target) option" where
  "Config_MustBind other c target =
     (case Config_Bind other c target of
        Some (c', target', None) \<Rightarrow> Some (c', target')
      | _ \<Rightarrow> None)"

definition Config_Schema :: "'w Config \<Rightarrow> bind_target \<Rightarrow> ('w Config \<times> (goerror + Schema)) option" where
  "Config_Schema c target =
     map_option (\<lambda>(b, r). (c\<lparr>cfg_binder := b\<rparr>, r)) (Schema_of (cfg_binder c) target)"

text \<open>\<open>ValidateStruct\<close> keeps the metadata of the validator's cache.\<close>

definition Config_ValidateStruct ::
  "unicode \<Rightarrow> (string \<Rightarrow> (string \<Rightarrow> bool) option) \<Rightarrow> 'w Config \<Rightarrow> reflected \<Rightarrow> goerror option \<times> 'w Config" where
  "Config_ValidateStruct u compile c target =
     (case validateStruct u compile (cfg_validator c) target of (err, cache) \<Rightarrow> (err, c\<lparr>cfg_validator := cache\<rparr>))"

section \<open>Export\<close>

definition Config_Export ::
  "(nat \<Rightarrow> string) \<Rightarrow> (any \<Rightarrow> goerror + string) \<Rightarrow> 'w Config \<Rightarrow> 'w writer \<Rightarrow> ExportFormat \<Rightarrow> 'w \<Rightarrow> goerror option \<times> 'w" where
  "Config_Export other encode c wr f w = Registry_Export (NewExportRegistry other encode) (entries (All c)) wr f w"

definition ExportJSON_of where "ExportJSON_of other encode c = ToJSON other encode (entries (All c))"
definition ExportYAML_of where "ExportYAML_of other encode c = ToYAML other encode (entries (All c))"
definition ExportTOML_of where "ExportTOML_of other encode c = ToTOML other encode (entries (All c))"
definition ExportEnv_of where "ExportEnv_of other encode c = ToEnv other encode (entries (All c))"

definition MarshalJSON where "MarshalJSON other encode c = ExportJSON_of other encode c"

definition UnmarshalJSON :: "string \<Rightarrow> 'w Config \<Rightarrow> goerror option" where
  "UnmarshalJSON data c = Some (NewError ErrInvalidFormat ''cannot unmarshal into Config'' [])"

text \<open>The texts: an error becomes the empty string, or an empty object.\<close>

definition checked :: "string \<times> goerror option \<Rightarrow> string \<times> goerror option" where
  "checked r = (case r of (data, Some err) \<Rightarrow> ([], Some err) | (data, None) \<Rightarrow> (data, None))"

definition Config_ToJSON where "Config_ToJSON other encode c = checked (ExportJSON_of other encode c)"
definition Config_ToYAML where "Config_ToYAML other encode c = checked (ExportYAML_of other encode c)"

definition Config_String :: "(nat \<Rightarrow> string) \<Rightarrow> (any \<Rightarrow> goerror + string) \<Rightarrow> 'w Config \<Rightarrow> string" where
  "Config_String other encode c =
     (case ExportJSON_of other encode c of (data, Some err) \<Rightarrow> ''{}'' | (data, None) \<Rightarrow> data)"

definition JSON_of :: "(nat \<Rightarrow> string) \<Rightarrow> (any \<Rightarrow> goerror + string) \<Rightarrow> 'w Config \<Rightarrow> string" where
  "JSON_of other encode c =
     (case ExportJSON_of other encode c of (data, Some err) \<Rightarrow> ''{}'' | (data, None) \<Rightarrow> data)"

definition PrettyJSON :: "(nat \<Rightarrow> string) \<Rightarrow> (any \<Rightarrow> goerror + string) \<Rightarrow> 'w Config \<Rightarrow> string" where
  "PrettyJSON other encode c =
     (case ExportJSON_of other encode c of (data, Some err) \<Rightarrow> ''{}'' | (data, None) \<Rightarrow> [] @ data)"

definition Print where "Print other encode stdout c w = Config_Export other encode c stdout ExportJSON w"
definition PrintYAML where "PrintYAML other encode stdout c w = Config_Export other encode c stdout ExportYAML w"

definition AsMap :: "'w Config \<Rightarrow> any gomap" where "AsMap c = Data c"

section \<open>Files\<close>

definition ReadFile ::
  "(string \<Rightarrow> goerror + json gomap option) \<Rightarrow> ('w \<Rightarrow> string \<Rightarrow> goerror + string) \<Rightarrow> string \<Rightarrow> 'w
     \<Rightarrow> (goerror + any gomap) option" where
  "ReadFile decode read_file path w =
     (case read_file w path of
        Inl err \<Rightarrow> Some (Inl err)
      | Inr data \<Rightarrow>
          (case Registry_Get (NewRegistry decode) (DetectFormat path) of
             Inl err \<Rightarrow> Some (Inl err)
           | Inr p \<Rightarrow> p data))"

definition WriteFile ::
  "(nat \<Rightarrow> string) \<Rightarrow> (any \<Rightarrow> goerror + string) \<Rightarrow> (string \<Rightarrow> 'w \<Rightarrow> goerror option \<times> 'w) \<Rightarrow> (string \<Rightarrow> 'w writer)
     \<Rightarrow> string \<Rightarrow> data \<Rightarrow> ExportFormat \<Rightarrow> 'w \<Rightarrow> goerror option \<times> 'w" where
  "WriteFile other encode create write_file path d f w =
     (case create path w of
        (Some err, w') \<Rightarrow> (Some err, w')
      | (None, w') \<Rightarrow> Registry_Export (NewExportRegistry other encode) d (write_file path) f w')"

section \<open>Encryption\<close>

definition not_enabled :: goerror where
  "not_enabled = NewError ErrCryptoError ''encryption not enabled'' []"

definition Config_Encrypt :: "'w Config \<Rightarrow> string \<Rightarrow> 'w \<Rightarrow> (goerror + EncryptedValue) \<times> 'w" where
  "Config_Encrypt c plaintext w =
     (case cfg_crypto c of None \<Rightarrow> (Inl not_enabled, w) | Some m \<Rightarrow> CryptoManager_EncryptString m plaintext w)"

definition Config_Decrypt :: "'w Config \<Rightarrow> EncryptedValue \<Rightarrow> 'w \<Rightarrow> (goerror + string) \<times> 'w" where
  "Config_Decrypt c ev w =
     (case cfg_crypto c of None \<Rightarrow> (Inl not_enabled, w) | Some m \<Rightarrow> CryptoManager_DecryptString m ev w)"

section \<open>Hot reload\<close>

text \<open>\<open>notifyObservers\<close> starts a goroutine for each observer; \<open>order\<close> is the order in which they run.\<close>

definition notifyObservers :: "nat list \<Rightarrow> Event \<Rightarrow> 'w Config \<Rightarrow> 'w \<Rightarrow> 'w" where
  "notifyObservers order event c w = fold (\<lambda>i. (cfg_onChange c ! i) event) order w"

definition reload_event :: "int \<Rightarrow> Event" where
  "reload_event now = \<lparr>ev_type = EventReload, ev_key = [], ev_old = zero_Value, ev_new = zero_Value,
     ev_time = now, ev_source = SourceFile\<rparr>"

text \<open>The callback of \<open>Watch\<close>; the error of \<open>Reload\<close> is dropped.\<close>

definition on_file_change :: "int \<Rightarrow> int \<Rightarrow> nat list \<Rightarrow> 'w Config \<Rightarrow> 'w \<Rightarrow> ('w Config \<times> 'w) option" where
  "on_file_change now later order c w =
     map_option (\<lambda>(err, c', w'). (c', notifyObservers order (reload_event later) c' w')) (Reload now c w)"

text \<open>
  \<open>watch s\<close> is the \<open>Watch\<close> of a file source with that callback (theory SourceWatch), and \<open>None\<close> for
  the other sources.
\<close>

fun watch_sources :: "('w source \<Rightarrow> 'w hook option) \<Rightarrow> 'w source list \<Rightarrow> 'w \<Rightarrow> goerror option \<times> 'w" where
  "watch_sources watch [] w = (None, w)"
| "watch_sources watch (s # ss) w =
     (case watch s of
        None \<Rightarrow> watch_sources watch ss w
      | Some start \<Rightarrow>
          (case start w of
             (Some err, w') \<Rightarrow> (Some err, w')
           | (None, w') \<Rightarrow> watch_sources watch ss w'))"

definition Config_Watch :: "('w source \<Rightarrow> 'w hook option) \<Rightarrow> 'w Config \<Rightarrow> 'w \<Rightarrow> goerror option \<times> 'w" where
  "Config_Watch watch c w = watch_sources watch (cfg_sources c) w"

section \<open>Introspection and the global instance\<close>

record DebugInfo =
  dbg_keys :: "string list option"
  dbg_version :: u64
  dbg_createdAt :: int
  dbg_snapshots :: nat
  dbg_encryption :: bool
  dbg_closed :: bool

definition Debug :: "'w Config \<Rightarrow> DebugInfo" where
  "Debug c =
     (let s = eng_state (cfg_engine c)
      in \<lparr>dbg_keys = Keys c, dbg_version = st_version s, dbg_createdAt = st_created s,
          dbg_snapshots = length (mg_snapshots (cfg_snapshots c)), dbg_encryption = (cfg_crypto c \<noteq> None),
          dbg_closed = cfg_closed c\<rparr>)"

definition Done :: "'w Config \<Rightarrow> bool" where "Done c = eng_closed (cfg_engine c)"

text \<open>The global instance: a pointer, nil at the start.\<close>

type_synonym 'w global = "'w Config option"

definition Init :: "int \<Rightarrow> 'w option_fun list \<Rightarrow> 'w global \<Rightarrow> 'w \<Rightarrow> (goerror option \<times> 'w global \<times> 'w) option" where
  "Init now opts g w =
     (case New now opts w of
        None \<Rightarrow> None
      | Some (Inl err, w') \<Rightarrow> Some (Some err, g, w')
      | Some (Inr c, w') \<Rightarrow> Some (None, Some c, w'))"

definition Global :: "'w global \<Rightarrow> 'w Config option" where "Global g = g"

text \<open>The configuration that was closed is returned beside the pointer, since others may still hold it.\<close>

definition CloseGlobal :: "'w global \<Rightarrow> 'w \<Rightarrow> 'w Config option \<times> 'w global \<times> 'w" where
  "CloseGlobal g w =
     (case g of
        None \<Rightarrow> (None, None, w)
      | Some c \<Rightarrow> (case Config_Close c w of (c', w') \<Rightarrow> (Some c', None, w')))"

section \<open>An export is a configuration file\<close>

text \<open>What the code relies on in the file system: \<open>os.Create\<close> makes an empty file and a write appends.\<close>

definition file_ok ::
  "(string \<Rightarrow> 'w \<Rightarrow> goerror option \<times> 'w) \<Rightarrow> (string \<Rightarrow> 'w writer) \<Rightarrow> ('w \<Rightarrow> string \<Rightarrow> goerror + string) \<Rightarrow> string \<Rightarrow> 'w \<Rightarrow> bool" where
  "file_ok create write_file read_file path w \<longleftrightarrow>
     (\<exists>w'. create path w = (None, w') \<and> read_file w' path = Inr [])
     \<and> (\<forall>w' t s. read_file w' path = Inr s \<longrightarrow>
          (\<exists>w2. write_file path t w' = (None, w2) \<and> read_file w2 path = Inr (s @ t)))"

lemma write_all_file:
  assumes "\<forall>w' t s. read_file w' path = Inr s \<longrightarrow> (\<exists>w2. write_file path t w' = (None, w2) \<and> read_file w2 path = Inr (s @ t))"
  shows "read_file w path = Inr s \<Longrightarrow>
     \<exists>w2. write_all (write_file path) cs w = (None, w2) \<and> read_file w2 path = Inr (s @ concat cs)"
proof (induction cs arbitrary: w s)
  case (Cons t cs)
  obtain w1 where "write_file path t w = (None, w1)" "read_file w1 path = Inr (s @ t)"
    using assms Cons.prems by blast
  then show ?case using Cons.IH [of w1 "s @ t"] by simp
qed simp

lemma WriteFile_yaml:
  assumes "file_ok create write_file read_file path w"
  shows "\<exists>w2. WriteFile other encode create write_file path d ExportYAML w = (None, w2)
    \<and> read_file w2 path = Inr (fst (ToYAML other encode d))"
proof -
  obtain w1 where w1: "create path w = (None, w1)" "read_file w1 path = Inr []"
    using assms by (auto simp: file_ok_def)
  let ?cs = "writeYAMLMap other (sorted_map (buildNested d)) 0"
  obtain w2 where "write_all (write_file path) ?cs w1 = (None, w2)" "read_file w2 path = Inr (concat ?cs)"
    using write_all_file [of read_file path write_file w1 "[]" ?cs] assms w1(2) by (auto simp: file_ok_def)
  then show ?thesis
    by (intro exI [of _ w2]) (simp add: WriteFile_def w1(1) Registry_Export_def ExportRegistry_Get_def
        NewExportRegistry_def yamlExporter_def ToYAML_text)
qed

text \<open>A configuration from one YAML file that is the text of a nested map.\<close>

lemma New_yaml_file:
  assumes "resolve path = Inr p" and "DetectFormat p = FormatYAML" and "read_file w p = Inr t" and "yamlParse t = Some m"
  shows "\<exists>c. New now [WithFile decode read_file resolve path []] w = Some (Inr c, w) \<and> cfg_inv c
    \<and> cfg_data c = values_of SourceFile 10 m"
proof -
  let ?s = "\<lparr>src_load = FileSource_loader decode read_file (NewFileSource p []), src_close = no_close\<rparr> :: 'a source"
  have "src_load ?s w = (Inr (Some (values_of SourceFile 10 m)), w)"
    by (simp add: FileSource_loader_def FileSource_Load_def NewFileSource_def Let_def assms
        Registry_Get_def NewRegistry_def Register_def)
  moreover have "wf_map (values_of SourceFile 10 m)" by (simp add: values_of_map wf_map_Flatten)
  moreover have "apply_options [WithFile decode read_file resolve path []] (initial_config now)
      = Inr (add_source ?s (initial_config now))"
    by (simp add: WithFile_def assms(1))
  ultimately show ?thesis
    using New_single [of "[WithFile decode read_file resolve path []]" now ?s w "Some (values_of SourceFile 10 m)" w] by auto
qed


text \<open>A world that is one file, absent or with a text.\<close>

definition one_file_create :: "string \<Rightarrow> string option \<Rightarrow> goerror option \<times> string option" where
  "one_file_create path w = (None, Some [])"

definition one_file_write :: "string \<Rightarrow> string option writer" where
  "one_file_write path t w =
     (case w of None \<Rightarrow> (Some (PlainError ''file already closed''), None) | Some s \<Rightarrow> (None, Some (s @ t)))"

definition one_file_read :: "string option \<Rightarrow> string \<Rightarrow> goerror + string" where
  "one_file_read w path = (case w of None \<Rightarrow> Inl (PlainError ''no such file'') | Some s \<Rightarrow> Inr s)"

lemma one_file_ok: "file_ok one_file_create one_file_write one_file_read path w"
  by (auto simp: file_ok_def one_file_create_def one_file_write_def one_file_read_def split: option.splits)


text \<open>Loading changes nothing but the engine.\<close>

lemma reload_keeps: "reload now c w = Some (err, c', w') \<Longrightarrow> \<exists>e. c' = c\<lparr>cfg_engine := e\<rparr>"
  by (auto simp: reload_def on_engine_def)

lemma New_keeps:
  assumes "New now opts w = Some (Inr c, w')"
  shows "\<exists>c0 e. apply_options opts (initial_config now) = Inr c0 \<and> c = c0\<lparr>cfg_engine := e\<rparr>"
proof -
  obtain c0 where c0: "apply_options opts (initial_config now) = Inr c0"
    using assms by (auto simp: New_def split: sum.splits)
  show ?thesis
  proof (cases "cfg_sources c0 = []")
    case True
    then have "c = c0" using assms c0 by (simp add: New_def)
    then show ?thesis using c0 by (intro exI [of _ c0] exI [of _ "cfg_engine c0"]) simp
  next
    case False
    then have "reload now c0 w = Some (None, c, w')" using assms c0 by (auto simp: New_def split: option.splits)
    from reload_keeps [OF this] obtain e where "c = c0\<lparr>cfg_engine := e\<rparr>" by (elim exE)
    with c0 show ?thesis by (intro exI conjI)
  qed
qed

section \<open>Binding agrees with the getters\<close>

text \<open>The getter for a field of type \<open>t\<close>, with the content \<open>v\<close> of the field as its default.\<close>

definition getter_value :: "'w Config \<Rightarrow> string \<Rightarrow> gotype \<Rightarrow> goval \<Rightarrow> goval option" where
  "getter_value c key t v =
     (case (t, v) of
        (KString, VString s) \<Rightarrow> Some (VString (GetStringDefault c key s))
      | (KInt b, VInt i) \<Rightarrow> map_option (\<lambda>i. VInt (sint i)) (GetIntDefault c key (word_of_int i))
      | (KBool, VBool b) \<Rightarrow> map_option VBool (GetBoolDefault c key b)
      | (KDuration, VInt d) \<Rightarrow> map_option (\<lambda>d. VInt (sint d)) (GetDurationDefault c key (word_of_int d))
      | _ \<Rightarrow> None)"

text \<open>The types of fields that have a getter with a default, and the type of value they expect.\<close>

fun expects :: "gotype \<Rightarrow> ValueType \<Rightarrow> bool" where
  "expects KString t = True"
| "expects (KInt b) t = (b \<in> {W, W64} \<and> t = TypeInt)"
| "expects KBool t = (t = TypeBool)"
| "expects KDuration t = (t = TypeDuration)"
| "expects _ t = False"

fun has_getter :: "gotype \<Rightarrow> bool" where
  "has_getter (KInt b) = (b \<in> {W, W64})"
| "has_getter t = (t \<in> {KString, KBool, KDuration})"

lemma full_width: "int_fits W64 i \<Longrightarrow> sint (word_of_int i :: i64) = i"
  by (simp add: int_fits_def sint_sbintrunc' signed_take_bit_int_eq_self_iff)

lemma set_full_width: "b \<in> {W, W64} \<Longrightarrow> set_int b (sint (i :: i64)) = VInt (sint i)"
  using sint_ge [of i] sint_lt [of i] by (intro set_int_fits) (auto simp: int_fits_def)

lemma field_is_getter:
  fixes c :: "'w Config"
  assumes "wf_map (cfg_data c)" and "good_data (cfg_data c)" and "has_type v (f_type f)" and "has_getter (f_type f)"
    and "\<not> fm_required (meta_of i f)" and "\<not> fm_hasDefault (meta_of i f)"
    and "Has c (fm_key (meta_of i f)) \<Longrightarrow> expects (f_type f) (TypeOf c (fm_key (meta_of i f)))"
  shows "\<exists>x. field_outcome other (cfg_data c) i f v = Some x \<and> getter_value c (fm_key (meta_of i f)) (f_type f) v = Some x"
proof (cases "mget (cfg_data c) (fm_key (meta_of i f))")
  case None
  then have "field_outcome other (cfg_data c) i f v = Some v"
    using assms(5,6) by (simp add: field_outcome_value field_value_def)
  moreover have "getter_value c (fm_key (meta_of i f)) (f_type f) v = Some v"
    using assms(3,4) None
    by (cases "f_type f"; cases v)
       (auto simp: getter_value_def GetStringDefault_def GetIntDefault_def GetBoolDefault_def GetDurationDefault_def
          typed_get_def Get_cases full_width int_fits_def)
  ultimately show ?thesis by blast
next
  case (Some w)
  have w: "well_typed w" using assms(2) map_of_SomeD [OF Some] by (auto simp: good_data_def)
  have e: "expects (f_type f) (vtyp w)" using assms(7) Some by (simp add: Has_def Get_cases TypeOf_def)
  have fv: "field_value (cfg_data c) (meta_of i f) = Some w" by (simp add: field_value_def Some)
  show ?thesis
    using assms(3,4) e w
    by (cases "f_type f"; cases v; cases "vraw w")
       (auto simp: field_outcome_value fv getter_value_def GetStringDefault_def GetIntDefault_def GetBoolDefault_def
          GetDurationDefault_def typed_get_def Get_cases Some scalar_done_def scalar_int_def scalar_bool_def
          scalar_duration_def accessor_defs set_full_width well_typed_def)
qed


definition client_fields :: "gofield list" where
  "client_fields =
     [Field ''Host'' KString ''host'' True False, Field ''Port'' (KInt W) ''port'' True False,
      Field ''Debug'' KBool [] True False]"


section \<open>Hot reload\<close>

lemma exec_op_keeps:
  assumes "exec_op now p (c, held) w = Some (err, (c', held'), w')"
  shows "cfg_sources c' = cfg_sources c \<and> cfg_onChange c' = cfg_onChange c"
proof -
  have u: "update_with now d c w = Some (err, c', w') \<Longrightarrow>
      cfg_sources c' = cfg_sources c \<and> cfg_onChange c' = cfg_onChange c" for d
    by (auto simp: update_with_def on_engine_def)
  show ?thesis
    using assms u
    by (cases p) (auto simp: with_held_def Set_def Delete_def Restore_def Config_Merge_def Config_Snapshot_def
        Config_Observe_def Let_def split: if_splits prod.splits)
qed

lemma exec_ops_keep:
  "exec_ops now ops (c, held) w = Some (errs, (c', held'), w') \<Longrightarrow>
     cfg_sources c' = cfg_sources c \<and> cfg_onChange c' = cfg_onChange c"
proof (induction ops arbitrary: c held w errs)
  case (Cons p ops)
  then obtain err c1 held1 w1 where p: "exec_op now p (c, held) w = Some (err, (c1, held1), w1)"
    and r: "\<exists>errs. exec_ops now ops (c1, held1) w1 = Some (errs, (c', held'), w')"
    by (auto split: option.splits)
  from r obtain errs' where "exec_ops now ops (c1, held1) w1 = Some (errs', (c', held'), w')" by blast
  from Cons.IH [OF this] exec_op_keeps [OF p] show ?case by simp
qed simp

lemma Reload_single:
  assumes "cfg_inv c" and "cfg_sources c = [s]"
  shows "(\<forall>err w'. src_load s w = (Inl err, w') \<longrightarrow> Reload now c w = Some (Some err, c, w'))
    \<and> (\<forall>d w'. src_load s w = (Inr d, w') \<and> wf_map (entries d) \<longrightarrow>
         (\<exists>c'. Reload now c w = Some (None, c', w') \<and> cfg_data c' = entries d
            \<and> cfg_version c' = cfg_version c + 1 \<and> cfg_onChange c' = cfg_onChange c))"
proof -
  have e: "om_ready (eng_observers (cfg_engine c))" "\<not> eng_closed (cfg_engine c)" "eng_hooks (cfg_engine c) = (\<lambda>_. [])"
    using assms(1) by (simp_all add: cfg_inv_def)
  note L = Load_ready [OF e, where srcs = "[src_load s]" and w = w and now = now]
  have "Reload now c w = Some (Some err, c, w')" if "src_load s w = (Inl err, w')" for err w'
    using L that by (simp add: Reload_def reload_def on_engine_def assms(2))
  moreover have "\<exists>c'. Reload now c w = Some (None, c', w') \<and> cfg_data c' = entries d
      \<and> cfg_version c' = cfg_version c + 1 \<and> cfg_onChange c' = cfg_onChange c"
    if "src_load s w = (Inr d, w')" "wf_map (entries d)" for d w'
  proof -
    have "load_sources [src_load s] [] w = (Inr (entries d), w')"
      using that merge_loop_fresh [of "entries d" "[]"] by simp
    then obtain e' where "Engine.Load now [src_load s] (cfg_engine c) w = Some (None, e', w')"
      "eng_state e' = NewState now (Some (entries d)) []\<lparr>st_version := cfg_version c + 1\<rparr>"
      using L by auto
    then show ?thesis by (intro exI [of _ "c\<lparr>cfg_engine := e'\<rparr>"]) (simp add: Reload_def reload_def on_engine_def assms(2))
  qed
  ultimately show ?thesis by blast
qed

text \<open>
  C7: a changed file is read again, and nothing else survives.  A configuration made from one YAML file
  is changed by any operations of the facade; when the watcher then finds the file changed and it holds
  the block document of a nested map, the callback leaves a configuration with exactly the leaves of
  that document, under the next version: what was set since is gone.  The observers run after that,
  on the new configuration.  When the file cannot be read the configuration is kept, but the observers
  are told of a reload all the same.
\<close>

theorem hot_reload_reads_file:
  assumes "New now0 [WithFile decode read_file resolve path []] w0 = Some (Inr c0, w1)"
    and "list_all op_ok ops" and "exec_ops now1 ops (c0, []) w1 = Some (errs, (c, held), w2)"
    and "resolve path = Inr p" and "DetectFormat p = FormatYAML"
  shows "(yaml_ok yaml_leaf m \<and> nested_ok m \<and> read_file w p = Inr (yaml_text yaml_scalar m) \<longrightarrow>
      (\<exists>c'. on_file_change now later order c w = Some (c', notifyObservers order (reload_event later) c' w)
         \<and> cfg_version c' = cfg_version c + 1
         \<and> (\<forall>key v. Get c' key = (v, True) \<longleftrightarrow>
              (\<exists>ps x. key = dotted ps \<and> leaf_at ps m = Some x \<and> v = NewValue x (inferType x) SourceFile 10))))
    \<and> (read_file w p = Inl err \<longrightarrow>
      on_file_change now later order c w = Some (c, notifyObservers order (reload_event later) c w))"
proof -
  let ?s = "\<lparr>src_load = FileSource_loader decode read_file (NewFileSource p []), src_close = no_close\<rparr> :: 'a source"
  have src: "cfg_sources c = [?s]"
    using exec_ops_keep [OF assms(3)] New_keeps [OF assms(1)]
    by (auto simp: WithFile_def assms(4) add_source_def initial_config_def)
  have inv: "cfg_inv c"
    using exec_ops_refines [OF New_inv [OF assms(1)] _ assms(2), of "[]" now1 w1] assms(3) by (auto simp: held_ok_def)
  note R = Reload_single [OF inv src, of w now]
  have "\<exists>c'. on_file_change now later order c w = Some (c', notifyObservers order (reload_event later) c' w)
         \<and> cfg_version c' = cfg_version c + 1
         \<and> (\<forall>key v. Get c' key = (v, True) \<longleftrightarrow>
              (\<exists>ps x. key = dotted ps \<and> leaf_at ps m = Some x \<and> v = NewValue x (inferType x) SourceFile 10))"
    if m: "yaml_ok yaml_leaf m" "nested_ok m" "read_file w p = Inr (yaml_text yaml_scalar m)"
  proof -
    let ?d = "values_of SourceFile 10 m"
    have "src_load ?s w = (Inr (Some ?d), w)"
      by (simp add: FileSource_loader_def FileSource_Load_def NewFileSource_def Let_def assms(5) m(3)
          Registry_Get_def NewRegistry_def Register_def plain_yaml.yaml_read_back [OF m(1)])
    then obtain c' where c': "Reload now c w = Some (None, c', w)" "cfg_data c' = ?d" "cfg_version c' = cfg_version c + 1"
      using R by (auto simp: values_of_map wf_map_Flatten)
    have "Get c' key = (v, True) \<longleftrightarrow> (\<exists>x. mget (Flatten m []) key = Some x \<and> v = NewValue x (inferType x) SourceFile 10)" for key v
      by (auto simp: Get_iff c'(2) values_of_map)
    then show ?thesis using c'(1,3) unfolding mget_Flatten_iff [OF m(2)]
      by (intro exI [of _ c']) (simp add: on_file_change_def, blast)
  qed
  moreover have "on_file_change now later order c w = Some (c, notifyObservers order (reload_event later) c w)"
    if "read_file w p = Inl err"
  proof -
    have "\<exists>e. src_load ?s w = (Inl e, w)"
      using that by (simp add: FileSource_loader_def FileSource_Load_def NewFileSource_def Let_def)
    then obtain e where "Reload now c w = Some (Some e, c, w)" using R by blast
    then show ?thesis by (simp add: on_file_change_def)
  qed
  ultimately show ?thesis by blast
qed

definition port_doc :: "int \<Rightarrow> string" where
  "port_doc n = yaml_text yaml_scalar [(''port'', AInt (word_of_int n))]"

theorem hot_reload_reads_file_witness:
  "\<exists>c0 c held errs c'. New 0 [WithFile (\<lambda>_. Inr None) one_file_read Inr ''a.yaml'' []] (Some (port_doc 1)) = Some (Inr c0, Some (port_doc 1))
     \<and> exec_ops 1 [OpSet ''port'' (AInt 2)] (c0, []) (Some (port_doc 1)) = Some (errs, (c, held), Some (port_doc 1))
     \<and> on_file_change 2 3 [] c (Some (port_doc 3)) = Some (c', Some (port_doc 3))
     \<and> Get c' ''port'' = (NewValue (AInt 3) TypeInt SourceFile 10, True)"
proof -
  let ?m = "\<lambda>n. [(''port'', AInt (word_of_int n))]"
  have y: "yaml_ok yaml_leaf (?m n)" for n by (simp add: yaml_key_def plain_char_def byte_def newline_def)
  have nest: "nested_ok (?m 3)" by (simp add: clean_part_def)
  have f: "DetectFormat ''a.yaml'' = FormatYAML" by code_simp
  obtain c0 where c0: "New 0 [WithFile (\<lambda>_. Inr None) one_file_read Inr ''a.yaml'' []] (Some (port_doc 1)) = Some (Inr c0, Some (port_doc 1))"
    "cfg_inv c0"
    using New_yaml_file [of Inr "''a.yaml''" "''a.yaml''" one_file_read "Some (port_doc 1)" "port_doc 1" "?m 1" 0 "\<lambda>_. Inr None"]
      plain_yaml.yaml_read_back [OF y, of 1] f by (auto simp: one_file_read_def port_doc_def)
  have ok: "list_all op_ok [OpSet ''port'' (AInt 2)]" "held_ok []" by (simp_all add: held_ok_def)
  obtain c held errs where c: "exec_ops 1 [OpSet ''port'' (AInt 2)] (c0, []) (Some (port_doc 1)) = Some (errs, (c, held), Some (port_doc 1))"
    using exec_ops_refines [OF c0(2) ok(2,1), of 1 "Some (port_doc 1)"] by blast
  have r: "one_file_read (Some (port_doc 3)) ''a.yaml'' = Inr (yaml_text yaml_scalar (?m 3))"
    by (simp add: one_file_read_def port_doc_def)
  obtain c' where c': "on_file_change 2 3 [] c (Some (port_doc 3)) = Some (c', notifyObservers [] (reload_event 3) c' (Some (port_doc 3)))"
    and g: "\<forall>key v. Get c' key = (v, True) \<longleftrightarrow>
              (\<exists>ps x. key = dotted ps \<and> leaf_at ps (?m 3) = Some x \<and> v = NewValue x (inferType x) SourceFile 10)"
    using hot_reload_reads_file [OF c0(1) ok(1) c refl f, of "?m 3" "Some (port_doc 3)"] y [of 3] nest r by blast
  have "Get c' ''port'' = (NewValue (AInt 3) TypeInt SourceFile 10, True)"
    unfolding g [rule_format] by (intro exI [of _ "[''port'']"] exI [of _ "AInt 3"]) simp
  then show ?thesis using c0(1) c c' by (auto simp: notifyObservers_def)
qed

end
