(* ===== verification/SourceWatch.thy ===== *)
theory SourceWatch
  imports Source
begin

text \<open>
  Watching a file source (source/source.go): the polling \<open>FileWatcher\<close> of package source and the
  \<open>Watch\<close> and \<open>Close\<close> of \<open>FileSource\<close>, with the watching goroutine as steps.

  \<open>sw_stop\<close> and \<open>sw_stopped\<close> say whether the channels are closed, \<open>sw_locked\<close> whether a \<open>Stop\<close> that
  waits holds the mutex, \<open>sw_gos\<close> where each goroutine is and whether its context is done, and
  \<open>sw_called\<close> the modification times for which \<open>onChange\<close> was called.  A panic is \<open>None\<close>.
\<close>

section \<open>The watcher\<close>

datatype sw_point = SwPolling | SwCalling | SwReturning | SwReturned

record SourceWatcher =
  sw_path :: string
  sw_interval :: int
  sw_modTime :: int
  sw_stop :: bool
  sw_stopped :: bool
  sw_locked :: bool
  sw_gos :: "(sw_point \<times> bool) list"
  sw_called :: "int list"

definition NewSourceWatcher :: "string \<Rightarrow> SourceWatcher" where
  "NewSourceWatcher path =
     \<lparr>sw_path = path, sw_interval = 1000000000, sw_modTime = 0, sw_stop = False, sw_stopped = False,
      sw_locked = False, sw_gos = [], sw_called = []\<rparr>"

text \<open>\<open>info\<close> is the outcome of \<open>os.Stat\<close>, reduced to the modification time.\<close>

definition SourceWatcher_Start :: "goerror + int \<Rightarrow> SourceWatcher \<Rightarrow> goerror option \<times> SourceWatcher" where
  "SourceWatcher_Start info w =
     (case info of
        Inl err \<Rightarrow> (Some err, w)
      | Inr t \<Rightarrow> (None, w\<lparr>sw_modTime := t, sw_gos := sw_gos w @ [(SwPolling, False)]\<rparr>))"

definition put_point :: "nat \<Rightarrow> sw_point \<Rightarrow> SourceWatcher \<Rightarrow> SourceWatcher" where
  "put_point i p w = w\<lparr>sw_gos := (sw_gos w)[i := (p, snd (sw_gos w ! i))]\<rparr>"

text \<open>A tick: a file that cannot be read is skipped, a newer one is reported.\<close>

definition poll_file :: "nat \<Rightarrow> goerror + int \<Rightarrow> SourceWatcher \<Rightarrow> SourceWatcher" where
  "poll_file i info w =
     (case info of
        Inl _ \<Rightarrow> w
      | Inr t \<Rightarrow>
          if sw_modTime w < t
          then put_point i SwCalling (w\<lparr>sw_modTime := t, sw_called := sw_called w @ [t]\<rparr>)
          else w)"

text \<open>The deferred close of \<open>stopped\<close>.\<close>

definition close_stopped :: "nat \<Rightarrow> SourceWatcher \<Rightarrow> SourceWatcher option" where
  "close_stopped i w = (if sw_stopped w then None else Some (put_point i SwReturned (w\<lparr>sw_stopped := True\<rparr>)))"

text \<open>\<open>Stop\<close> up to its wait, which holds the mutex.\<close>

definition SourceWatcher_Stop :: "SourceWatcher \<Rightarrow> SourceWatcher option" where
  "SourceWatcher_Stop w =
     (if sw_stopped w then Some w
      else if sw_stop w then None
      else Some (w\<lparr>sw_stop := True, sw_locked := True\<rparr>))"

inductive sw_step :: "SourceWatcher \<Rightarrow> SourceWatcher \<Rightarrow> bool" where
  tick: "i < length (sw_gos w) \<Longrightarrow> fst (sw_gos w ! i) = SwPolling \<Longrightarrow> sw_step w (poll_file i info w)"
| called: "i < length (sw_gos w) \<Longrightarrow> fst (sw_gos w ! i) = SwCalling \<Longrightarrow> sw_step w (put_point i SwPolling w)"
| leave: "i < length (sw_gos w) \<Longrightarrow> fst (sw_gos w ! i) = SwPolling \<Longrightarrow> sw_stop w \<or> snd (sw_gos w ! i) \<Longrightarrow>
     sw_step w (put_point i SwReturning w)"
| exit: "i < length (sw_gos w) \<Longrightarrow> fst (sw_gos w ! i) = SwReturning \<Longrightarrow> close_stopped i w = Some w' \<Longrightarrow>
     sw_step w w'"
| context_done: "i < length (sw_gos w) \<Longrightarrow> sw_step w (w\<lparr>sw_gos := (sw_gos w)[i := (fst (sw_gos w ! i), True)]\<rparr>)"
| stop: "\<not> sw_locked w \<Longrightarrow> SourceWatcher_Stop w = Some w' \<Longrightarrow> sw_step w w'"
| stop_returns: "sw_locked w \<Longrightarrow> sw_stopped w \<Longrightarrow> sw_step w (w\<lparr>sw_locked := False\<rparr>)"

section \<open>The file source\<close>

record WatchedFile = FileSource +
  wf_watched :: bool
  wf_watcher :: "SourceWatcher option"

definition unwatched :: "FileSource \<Rightarrow> WatchedFile" where
  "unwatched f = FileSource.extend f \<lparr>wf_watched = False, wf_watcher = None\<rparr>"

definition FileSource_Watch :: "goerror + int \<Rightarrow> WatchedFile \<Rightarrow> goerror option \<times> WatchedFile" where
  "FileSource_Watch info f =
     (if wf_watched f then (None, f)
      else case SourceWatcher_Start info (NewSourceWatcher (fs_path f)) of
        (err, w) \<Rightarrow> (err, f\<lparr>wf_watched := True, wf_watcher := Some w\<rparr>))"

text \<open>\<open>Close\<close> up to the wait of the watcher's \<open>Stop\<close>.\<close>

definition FileSource_Close :: "WatchedFile \<Rightarrow> WatchedFile option" where
  "FileSource_Close f =
     (case wf_watcher f of
        None \<Rightarrow> Some f
      | Some w \<Rightarrow> map_option (\<lambda>w'. f\<lparr>wf_watcher := Some w'\<rparr>) (SourceWatcher_Stop w))"

text \<open>
  The steps of a source: a call of \<open>Watch\<close>, or a step of its watcher; a \<open>Close\<close> begins as the step
  \<open>stop\<close> of the watcher.
\<close>

inductive file_step :: "WatchedFile \<Rightarrow> WatchedFile \<Rightarrow> bool" where
  watch: "FileSource_Watch info f = (err, f') \<Longrightarrow> file_step f f'"
| watcher: "wf_watcher f = Some w \<Longrightarrow> sw_step w w' \<Longrightarrow> file_step f (f\<lparr>wf_watcher := Some w'\<rparr>)"

inductive_cases sw_stepE: "sw_step w w'"
inductive_cases file_stepE: "file_step f f'"

section \<open>What a watcher keeps\<close>

text \<open>
  At most one goroutine ran; it has returned exactly when \<open>stopped\<close> is closed; a \<open>Stop\<close> has passed its
  check exactly when \<open>stop\<close> is closed, and until \<open>stopped\<close> is, it holds the mutex; the reported times
  increase up to the last one seen.
\<close>

definition sw_inv :: "SourceWatcher \<Rightarrow> bool" where
  "sw_inv w \<longleftrightarrow> length (sw_gos w) \<le> 1
     \<and> (sw_stopped w \<longleftrightarrow> (\<exists>b. sw_gos w = [(SwReturned, b)]))
     \<and> (sw_stop w \<and> \<not> sw_stopped w \<longrightarrow> sw_locked w) \<and> (sw_locked w \<longrightarrow> sw_stop w)
     \<and> sorted_wrt (<) (sw_called w) \<and> (\<forall>t\<in>set (sw_called w). t \<le> sw_modTime w)
     \<and> (sw_called w \<noteq> [] \<longrightarrow> last (sw_called w) = sw_modTime w)"

lemma one_goroutine: "length xs \<le> 1 \<Longrightarrow> i < length xs \<Longrightarrow> i = 0 \<and> xs = [hd xs]"
  by (cases xs) auto

lemma sw_inv_step: "sw_step w w' \<Longrightarrow> sw_inv w \<Longrightarrow> sw_inv w'"
proof (induction rule: sw_step.induct)
  case (tick i w info)
  then show ?case using one_goroutine [of "sw_gos w" i]
    by (cases "sw_gos w") (auto simp: sw_inv_def poll_file_def put_point_def sorted_wrt_append dest: less_imp_le split: sum.splits)
next
  case (called i w)
  then show ?case using one_goroutine [of "sw_gos w" i]
    by (cases "sw_gos w") (auto simp: sw_inv_def put_point_def)
next
  case (leave i w)
  then show ?case using one_goroutine [of "sw_gos w" i]
    by (cases "sw_gos w") (auto simp: sw_inv_def put_point_def)
next
  case (exit i w w')
  then show ?case using one_goroutine [of "sw_gos w" i]
    by (cases "sw_gos w") (auto simp: sw_inv_def put_point_def close_stopped_def split: if_splits)
next
  case (context_done i w)
  then show ?case using one_goroutine [of "sw_gos w" i]
    by (cases "sw_gos w") (auto simp: sw_inv_def)
next
  case (stop w w')
  then show ?case by (auto simp: sw_inv_def SourceWatcher_Stop_def split: if_splits)
qed (auto simp: sw_inv_def)

definition wf_inv :: "WatchedFile \<Rightarrow> bool" where
  "wf_inv f \<longleftrightarrow> (case wf_watcher f of None \<Rightarrow> \<not> wf_watched f | Some w \<Rightarrow> wf_watched f \<and> sw_inv w)"

lemma wf_inv_step: "file_step f f' \<Longrightarrow> wf_inv f \<Longrightarrow> wf_inv f'"
proof (induction rule: file_step.induct)
  case (watch info f err f')
  then show ?case
    by (cases info) (auto simp: wf_inv_def FileSource_Watch_def SourceWatcher_Start_def NewSourceWatcher_def sw_inv_def
        split: if_splits option.splits)
next
  case (watcher f w w')
  then show ?case using sw_inv_step [OF watcher(2)] by (simp add: wf_inv_def)
qed

lemma wf_inv_reach: "file_step\<^sup>*\<^sup>* (unwatched f0) f \<Longrightarrow> wf_inv f"
  by (induction rule: rtranclp_induct)
     (auto simp: wf_inv_def unwatched_def FileSource.defs intro: wf_inv_step [unfolded wf_inv_def])

text \<open>
  C31: watching a file source does not panic.  In every state that calls of \<open>Watch\<close> and \<open>Close\<close>, ticks
  and the context can lead to, a goroutine that leaves closes \<open>stopped\<close> for the first time, and a
  \<open>Close\<close> that gets the mutex closes \<open>stop\<close> for the first time; the callback has been called for
  strictly increasing modification times, the last of them the one remembered.
\<close>

theorem source_watch_safe:
  assumes "file_step\<^sup>*\<^sup>* (unwatched f0) f" and "wf_watcher f = Some w"
  shows "(\<forall>i < length (sw_gos w). fst (sw_gos w ! i) = SwReturning \<longrightarrow> close_stopped i w \<noteq> None)
    \<and> (\<not> sw_locked w \<longrightarrow> FileSource_Close f \<noteq> None)
    \<and> sorted_wrt (<) (sw_called w) \<and> (sw_called w \<noteq> [] \<longrightarrow> last (sw_called w) = sw_modTime w)"
proof -
  have inv: "sw_inv w" using wf_inv_reach [OF assms(1)] assms(2) by (simp add: wf_inv_def)
  have "close_stopped i w \<noteq> None" if "i < length (sw_gos w)" "fst (sw_gos w ! i) = SwReturning" for i
    using inv that one_goroutine [of "sw_gos w" i] by (auto simp: sw_inv_def close_stopped_def)
  moreover have "FileSource_Close f \<noteq> None" if "\<not> sw_locked w"
    using inv that by (auto simp: sw_inv_def FileSource_Close_def SourceWatcher_Stop_def assms(2))
  ultimately show ?thesis using inv by (auto simp: sw_inv_def)
qed

text \<open>A run: a successful \<open>Watch\<close>, one change, and the end of the context.\<close>

lemma file_watcher_run:
  "sw_step\<^sup>*\<^sup>* w w' \<Longrightarrow> wf_watcher f = Some w \<Longrightarrow> file_step\<^sup>*\<^sup>* f (f\<lparr>wf_watcher := Some w'\<rparr>)"
proof (induction rule: rtranclp_induct)
  case base
  then show ?case by (cases f) simp
next
  case (step w1 w2)
  then have "file_step (f\<lparr>wf_watcher := Some w1\<rparr>) (f\<lparr>wf_watcher := Some w1\<rparr>\<lparr>wf_watcher := Some w2\<rparr>)"
    by (intro file_step.watcher) simp_all
  with step show ?case by simp
qed

definition watcher_at :: "string \<Rightarrow> int \<Rightarrow> int list \<Rightarrow> sw_point \<Rightarrow> bool \<Rightarrow> SourceWatcher" where
  "watcher_at path t called p b =
     \<lparr>sw_path = path, sw_interval = 1000000000, sw_modTime = t, sw_stop = False, sw_stopped = False,
      sw_locked = False, sw_gos = [(p, b)], sw_called = called\<rparr>"

lemma watch_changes: "sw_step\<^sup>*\<^sup>* (watcher_at path 5 [] SwPolling False) (watcher_at path 7 [7] SwReturning True)"
proof -
  note at = watcher_at_def put_point_def
  have s1: "sw_step (watcher_at path 5 [] SwPolling False) (watcher_at path 7 [7] SwCalling False)"
    using sw_step.tick [of 0 "watcher_at path 5 [] SwPolling False" "Inr 7"] by (simp add: at poll_file_def)
  have s2: "sw_step (watcher_at path 7 [7] SwCalling False) (watcher_at path 7 [7] SwPolling False)"
    using sw_step.called [of 0 "watcher_at path 7 [7] SwCalling False"] by (simp add: at)
  have s3: "sw_step (watcher_at path 7 [7] SwPolling False) (watcher_at path 7 [7] SwPolling True)"
    using sw_step.context_done [of 0 "watcher_at path 7 [7] SwPolling False"] by (simp add: at)
  have s4: "sw_step (watcher_at path 7 [7] SwPolling True) (watcher_at path 7 [7] SwReturning True)"
    using sw_step.leave [of 0 "watcher_at path 7 [7] SwPolling True"] by (simp add: at)
  show ?thesis
    by (rule converse_rtranclp_into_rtranclp [OF s1 converse_rtranclp_into_rtranclp [OF s2
        converse_rtranclp_into_rtranclp [OF s3 r_into_rtranclp [where r = sw_step, OF s4]]]])
qed

lemma watched_run:
  "\<exists>f. file_step\<^sup>*\<^sup>* (unwatched f0) f \<and> wf_watcher f = Some (watcher_at (fs_path f0) 7 [7] SwReturning True)"
proof -
  let ?f = "unwatched f0"
  let ?w = "watcher_at (fs_path f0) 5 [] SwPolling False" and ?w' = "watcher_at (fs_path f0) 7 [7] SwReturning True"
  let ?f1 = "?f\<lparr>wf_watched := True, wf_watcher := Some ?w\<rparr>"
  have "FileSource_Watch (Inr 5) ?f = (None, ?f1)"
    by (simp add: FileSource_Watch_def unwatched_def FileSource.defs SourceWatcher_Start_def NewSourceWatcher_def watcher_at_def)
  then have "file_step ?f ?f1" by (rule file_step.watch)
  moreover have "file_step\<^sup>*\<^sup>* ?f1 (?f1\<lparr>wf_watcher := Some ?w'\<rparr>)" by (rule file_watcher_run [OF watch_changes]) simp
  ultimately have "file_step\<^sup>*\<^sup>* ?f (?f1\<lparr>wf_watcher := Some ?w'\<rparr>)" by (rule converse_rtranclp_into_rtranclp)
  then show ?thesis by (intro exI [of _ "?f1\<lparr>wf_watcher := Some ?w'\<rparr>"] conjI) simp_all
qed

theorem source_watch_safe_witness:
  "\<exists>f w. file_step\<^sup>*\<^sup>* (unwatched (NewFileSource ''a.yaml'' [])) f \<and> wf_watcher f = Some w \<and> sw_called w = [7]
     \<and> close_stopped 0 w \<noteq> None"
proof -
  obtain f where f: "file_step\<^sup>*\<^sup>* (unwatched (NewFileSource ''a.yaml'' [])) f"
    "wf_watcher f = Some (watcher_at (fs_path (NewFileSource ''a.yaml'' [])) 7 [7] SwReturning True)" (is "_ = Some ?w")
    using watched_run by blast
  have "0 < length (sw_gos ?w)" "fst (sw_gos ?w ! 0) = SwReturning" "sw_called ?w = [7]"
    by (simp_all add: watcher_at_def)
  then show ?thesis using source_watch_safe [OF f] f by blast
qed

text \<open>
  C32: a source whose watch failed cannot be closed.  When \<open>Watch\<close> fails because the file cannot be
  read, it reports the error once and success ever after, although nothing is watched; and once
  \<open>Close\<close> is called, it waits for a goroutine that does not exist: no step of the source ends the wait.
\<close>

theorem failed_watch_blocks_close:
  assumes "\<not> wf_watched f" and "FileSource_Watch (Inl err) f = (r, f1)"
    and "FileSource_Close f1 = Some f2" and "file_step\<^sup>*\<^sup>* f2 g"
  shows "r = Some err \<and> FileSource_Watch info f1 = (None, f1)
    \<and> (\<exists>w. wf_watcher g = Some w \<and> sw_locked w \<and> \<not> sw_stopped w \<and> sw_gos w = [])"
proof -
  let ?stuck = "\<lambda>f. wf_watched f \<and> (\<exists>w. wf_watcher f = Some w \<and> sw_locked w \<and> \<not> sw_stopped w \<and> sw_gos w = [])"
  have f1: "r = Some err" "f1 = f\<lparr>wf_watched := True, wf_watcher := Some (NewSourceWatcher (fs_path f))\<rparr>"
    using assms(1,2) by (simp_all add: FileSource_Watch_def SourceWatcher_Start_def)
  have "?stuck f2" using assms(3)
    by (auto simp: f1 FileSource_Close_def SourceWatcher_Stop_def NewSourceWatcher_def)
  moreover have "?stuck h'" if "file_step h h'" "?stuck h" for h h'
    using that by (auto elim!: file_stepE sw_stepE simp: FileSource_Watch_def)
  ultimately have "?stuck g" using assms(4) by (rule_tac rtranclp_induct [where P = ?stuck and r = file_step])
  then show ?thesis using f1 by (auto simp: FileSource_Watch_def)
qed

theorem failed_watch_blocks_close_witness:
  "\<exists>f2 w. FileSource_Close (snd (FileSource_Watch (Inl (PlainError ''no such file'')) (unwatched (NewFileSource ''a.yaml'' [])))) = Some f2
     \<and> wf_watcher f2 = Some w \<and> \<not> sw_stopped w"
proof -
  let ?f = "unwatched (NewFileSource ''a.yaml'' [])"
  let ?r = "FileSource_Watch (Inl (PlainError ''no such file'')) ?f"
  have n: "\<not> wf_watched ?f" by (simp add: unwatched_def FileSource.defs)
  obtain f2 where "FileSource_Close (snd ?r) = Some f2"
    by (simp add: FileSource_Watch_def n SourceWatcher_Start_def NewSourceWatcher_def FileSource_Close_def SourceWatcher_Stop_def)
  then show ?thesis
    using failed_watch_blocks_close [OF n, of "PlainError ''no such file''" "fst ?r" "snd ?r" f2 f2] by auto
qed

end
