(* ===== verification/Pool.thy ===== *)
theory Pool
  imports Prelude
begin

text \<open>
  Package pool (internal/pool/pool.go): the pools, and the buffer over a byte pool, on an explicit store.

  A byte slice is nil or an array with a length; its capacity is the size of the array.  Slices live in
  cells, and a \<open>*[]byte\<close> is the address of a cell: the pool hands cells out and the buffer has one of its
  own, \<open>&b.data\<close>.  What \<open>sync.Pool\<close> returns, one of the pooled items or a new one, is the argument
  \<open>pick\<close>; \<open>grow\<close> gives the capacity of an array that \<open>append\<close> has to make.
\<close>

section \<open>Pools of values\<close>

text \<open>The maps and builders are cleared when they are put back, the builders also when they are taken.\<close>

definition pool_take :: "nat option \<Rightarrow> 'a \<Rightarrow> 'a list \<Rightarrow> 'a \<times> 'a list" where
  "pool_take pick new pool =
     (case pick of
        Some i \<Rightarrow> if i < length pool then (pool ! i, take i pool @ drop (Suc i) pool) else (new, pool)
      | None \<Rightarrow> (new, pool))"

definition MapPool_Get :: "nat option \<Rightarrow> ('k \<times> 'v) list list \<Rightarrow> ('k \<times> 'v) list \<times> ('k \<times> 'v) list list" where
  "MapPool_Get pick pool = pool_take pick [] pool"

definition MapPool_Put :: "('k \<times> 'v) list \<Rightarrow> ('k \<times> 'v) list list \<Rightarrow> ('k \<times> 'v) list list" where
  "MapPool_Put m pool = pool @ [fold (\<lambda>(k, v). mdel k) m m]"

definition StringPool_Get :: "nat option \<Rightarrow> string list \<Rightarrow> string \<times> string list" where
  "StringPool_Get pick pool = (case pool_take pick [] pool of (sb, pool') \<Rightarrow> ([], pool'))"

definition StringPool_Put :: "string \<Rightarrow> string list \<Rightarrow> string list" where
  "StringPool_Put sb pool = pool @ [[]]"

section \<open>The store\<close>

type_synonym slice = "(nat \<times> nat) option"

record Store =
  st_arrays :: "string list"
  st_cells :: "slice list"
  st_pool :: "nat list"

text \<open>A byte pool starts with nothing in the store; \<open>size\<close> of \<open>NewBytePool\<close> is an argument of \<open>Get\<close>.\<close>

definition NewBytePool :: Store where
  "NewBytePool = \<lparr>st_arrays = [], st_cells = [], st_pool = []\<rparr>"

definition BytePool_Get :: "nat \<Rightarrow> nat option \<Rightarrow> Store \<Rightarrow> nat \<times> Store" where
  "BytePool_Get poolSize pick s =
     (case pick of
        Some i \<Rightarrow>
          if i < length (st_pool s)
          then (st_pool s ! i, s\<lparr>st_pool := take i (st_pool s) @ drop (Suc i) (st_pool s)\<rparr>)
          else (length (st_cells s),
                s\<lparr>st_arrays := st_arrays s @ [replicate poolSize (CHR 0x00)],
                  st_cells := st_cells s @ [Some (length (st_arrays s), 0)]\<rparr>)
      | None \<Rightarrow> (length (st_cells s),
                s\<lparr>st_arrays := st_arrays s @ [replicate poolSize (CHR 0x00)],
                  st_cells := st_cells s @ [Some (length (st_arrays s), 0)]\<rparr>))"

text \<open>\<open>b[:0]\<close>; the same for \<open>SlicePool\<close>.\<close>

definition truncate_cell :: "nat \<Rightarrow> Store \<Rightarrow> Store" where
  "truncate_cell a s = s\<lparr>st_cells := (st_cells s)[a := map_option (\<lambda>(arr, n). (arr, 0)) (st_cells s ! a)]\<rparr>"

definition BytePool_Put :: "nat \<Rightarrow> Store \<Rightarrow> Store" where
  "BytePool_Put a s = (let s' = truncate_cell a s in s'\<lparr>st_pool := st_pool s' @ [a]\<rparr>)"

definition cell_bytes :: "Store \<Rightarrow> nat \<Rightarrow> string" where
  "cell_bytes s a = (case st_cells s ! a of None \<Rightarrow> [] | Some (arr, n) \<Rightarrow> take n (st_arrays s ! arr))"

definition cell_cap :: "Store \<Rightarrow> nat \<Rightarrow> nat" where
  "cell_cap s a = (case st_cells s ! a of None \<Rightarrow> 0 | Some (arr, n) \<Rightarrow> length (st_arrays s ! arr))"

text \<open>\<open>append\<close>: in place while the capacity lasts, otherwise in a new array.\<close>

definition append_cell :: "(nat \<Rightarrow> nat) \<Rightarrow> nat \<Rightarrow> string \<Rightarrow> Store \<Rightarrow> Store" where
  "append_cell grow a p s =
     (if p = [] then s
      else let old = cell_bytes s a; n = length old + length p
           in case st_cells s ! a of
                Some (arr, m) \<Rightarrow>
                  if n \<le> length (st_arrays s ! arr)
                  then s\<lparr>st_arrays := (st_arrays s)[arr := old @ p @ drop n (st_arrays s ! arr)],
                         st_cells := (st_cells s)[a := Some (arr, n)]\<rparr>
                  else s\<lparr>st_arrays := st_arrays s @ [old @ p @ replicate (grow n - n) (CHR 0x00)],
                         st_cells := (st_cells s)[a := Some (length (st_arrays s), n)]\<rparr>
              | None \<Rightarrow>
                  s\<lparr>st_arrays := st_arrays s @ [p @ replicate (grow n - n) (CHR 0x00)],
                    st_cells := (st_cells s)[a := Some (length (st_arrays s), n)]\<rparr>)"

section \<open>The buffer\<close>

text \<open>A buffer is the address of its cell.\<close>

definition NewBuffer :: "nat \<Rightarrow> nat option \<Rightarrow> Store \<Rightarrow> nat \<times> Store" where
  "NewBuffer poolSize pick s =
     (case BytePool_Get poolSize pick s of
        (p, s') \<Rightarrow> (length (st_cells s'), s'\<lparr>st_cells := st_cells s' @ [st_cells s' ! p]\<rparr>))"

definition Buffer_Write :: "(nat \<Rightarrow> nat) \<Rightarrow> nat \<Rightarrow> string \<Rightarrow> Store \<Rightarrow> int \<times> Store" where
  "Buffer_Write grow a p s = (int (length p), append_cell grow a p s)"

definition Buffer_WriteByte :: "(nat \<Rightarrow> nat) \<Rightarrow> nat \<Rightarrow> char \<Rightarrow> Store \<Rightarrow> Store" where
  "Buffer_WriteByte grow a c s = append_cell grow a [c] s"

definition Buffer_WriteString :: "(nat \<Rightarrow> nat) \<Rightarrow> nat \<Rightarrow> string \<Rightarrow> Store \<Rightarrow> int \<times> Store" where
  "Buffer_WriteString grow a str s = (int (length str), append_cell grow a str s)"

definition Buffer_String :: "Store \<Rightarrow> nat \<Rightarrow> string" where
  "Buffer_String s a = cell_bytes s a"

definition Buffer_Bytes :: "Store \<Rightarrow> nat \<Rightarrow> string" where
  "Buffer_Bytes s a = cell_bytes s a"

definition Buffer_Reset :: "nat \<Rightarrow> Store \<Rightarrow> Store" where
  "Buffer_Reset a s = truncate_cell a s"

definition Buffer_Release :: "nat \<Rightarrow> Store \<Rightarrow> Store" where
  "Buffer_Release a s = (let s' = BytePool_Put a s in s'\<lparr>st_cells := (st_cells s')[a := None]\<rparr>)"

definition Buffer_Len :: "Store \<Rightarrow> nat \<Rightarrow> nat" where "Buffer_Len s a = length (cell_bytes s a)"
definition Buffer_Cap :: "Store \<Rightarrow> nat \<Rightarrow> nat" where "Buffer_Cap s a = cell_cap s a"

text \<open>The pools of package loader (loader/loader.go) of byte slices, with the capacity of a new one, and of string builders.\<close>

definition GetByteSlice :: "nat option \<Rightarrow> Store \<Rightarrow> nat \<times> Store" where
  "GetByteSlice choice s = BytePool_Get 4096 choice s"

definition PutByteSlice :: "nat \<Rightarrow> Store \<Rightarrow> Store" where
  "PutByteSlice a s = (let s' = truncate_cell a s in s'\<lparr>st_pool := st_pool s' @ [a]\<rparr>)"

definition GetStringBuilder :: "nat option \<Rightarrow> string list \<Rightarrow> string \<times> string list" where
  "GetStringBuilder choice pool = (case pool_take choice [] pool of (sb, pool') \<Rightarrow> ([], pool'))"

definition PutStringBuilder :: "string \<Rightarrow> string list \<Rightarrow> string list" where
  "PutStringBuilder sb pool = pool @ [[]]"

section \<open>Buffers are independent byte strings\<close>

text \<open>
  The operations of clients that keep to the contract: the buffers are numbered in the order they are
  made, and after \<open>Release\<close> a buffer is not used again.
\<close>

datatype buf_op = BNew "nat option" | BWrite nat string | BReset nat | BRelease nat

record Session =
  ss_store :: Store
  ss_bufs :: "nat list"

text \<open>The abstract state: the contents of each buffer, \<open>None\<close> once it is released.\<close>

type_synonym contents = "string option list"

fun spec_op :: "buf_op \<Rightarrow> contents \<Rightarrow> contents option" where
  "spec_op (BNew pick) c = Some (c @ [Some []])"
| "spec_op (BWrite i p) c =
     (if i < length c then case c ! i of Some b \<Rightarrow> Some (c[i := Some (b @ p)]) | None \<Rightarrow> None else None)"
| "spec_op (BReset i) c =
     (if i < length c then case c ! i of Some b \<Rightarrow> Some (c[i := Some []]) | None \<Rightarrow> None else None)"
| "spec_op (BRelease i) c =
     (if i < length c then case c ! i of Some b \<Rightarrow> Some (c[i := None]) | None \<Rightarrow> None else None)"

fun run_op :: "(nat \<Rightarrow> nat) \<Rightarrow> nat \<Rightarrow> buf_op \<Rightarrow> Session \<Rightarrow> Session" where
  "run_op grow k (BNew pick) s =
     (case NewBuffer k pick (ss_store s) of (a, st) \<Rightarrow> \<lparr>ss_store = st, ss_bufs = ss_bufs s @ [a]\<rparr>)"
| "run_op grow k (BWrite i p) s = s\<lparr>ss_store := snd (Buffer_Write grow (ss_bufs s ! i) p (ss_store s))\<rparr>"
| "run_op grow k (BReset i) s = s\<lparr>ss_store := Buffer_Reset (ss_bufs s ! i) (ss_store s)\<rparr>"
| "run_op grow k (BRelease i) s = s\<lparr>ss_store := Buffer_Release (ss_bufs s ! i) (ss_store s)\<rparr>"

text \<open>
  The correspondence: every buffer has a cell of its own; a live one holds its contents in an array
  that no other live one uses; a released one is nil; pooled cells are nil (they are those of released
  buffers).
\<close>

definition valid_cell :: "Store \<Rightarrow> slice \<Rightarrow> bool" where
  "valid_cell st h \<longleftrightarrow> (case h of None \<Rightarrow> True | Some (arr, n) \<Rightarrow> arr < length (st_arrays st) \<and> n \<le> length (st_arrays st ! arr))"

definition cell_holds :: "Store \<Rightarrow> slice \<Rightarrow> string option \<Rightarrow> bool" where
  "cell_holds st h x \<longleftrightarrow> valid_cell st h
     \<and> (case x of None \<Rightarrow> h = None | Some b \<Rightarrow> (case h of None \<Rightarrow> b = [] | Some (arr, n) \<Rightarrow> take n (st_arrays st ! arr) = b))"

definition corresponds :: "Session \<Rightarrow> contents \<Rightarrow> bool" where
  "corresponds s c \<longleftrightarrow>
     (let st = ss_store s; cell = (\<lambda>i. st_cells st ! (ss_bufs s ! i))
      in length (ss_bufs s) = length c \<and> distinct (ss_bufs s)
         \<and> (\<forall>i < length c. ss_bufs s ! i < length (st_cells st) \<and> cell_holds st (cell i) (c ! i))
         \<and> (\<forall>i < length c. \<forall>j < length c. i \<noteq> j \<longrightarrow> cell i \<noteq> None \<longrightarrow> map_option fst (cell i) \<noteq> map_option fst (cell j))
         \<and> (\<forall>p \<in> set (st_pool st). \<exists>i < length c. ss_bufs s ! i = p \<and> c ! i = None))"

text \<open>A change to one buffer that leaves the arrays of the others alone.\<close>

lemma corresponds_update:
  assumes c: "corresponds s c" and i: "i < length c" and a: "a = ss_bufs s ! i"
    and cells: "st_cells st' = (st_cells (ss_store s))[a := h]"
    and pool: "set (st_pool st') \<subseteq> set (st_pool (ss_store s)) \<union> (if x = None then {a} else {})"
    and live: "c ! i \<noteq> None"
    and arrays: "length (st_arrays (ss_store s)) \<le> length (st_arrays st')"
      "\<And>arr. arr < length (st_arrays (ss_store s)) \<Longrightarrow> map_option fst (st_cells (ss_store s) ! a) \<noteq> Some arr \<Longrightarrow>
         st_arrays st' ! arr = st_arrays (ss_store s) ! arr"
    and new: "cell_holds st' h x"
      "\<And>arr n. h = Some (arr, n) \<Longrightarrow> map_option fst (st_cells (ss_store s) ! a) = Some arr \<or> length (st_arrays (ss_store s)) \<le> arr"
  shows "corresponds (s\<lparr>ss_store := st'\<rparr>) (c[i := x])"
proof -
  let ?st = "ss_store s" and ?cell = "\<lambda>j. st_cells (ss_store s) ! (ss_bufs s ! j)"
  have len: "length (ss_bufs s) = length c" and dist: "distinct (ss_bufs s)"
    and hold: "\<And>j. j < length c \<Longrightarrow> ss_bufs s ! j < length (st_cells ?st) \<and> cell_holds ?st (?cell j) (c ! j)"
    and sep: "\<And>j k. j < length c \<Longrightarrow> k < length c \<Longrightarrow> j \<noteq> k \<Longrightarrow> ?cell j \<noteq> None \<Longrightarrow>
        map_option fst (?cell j) \<noteq> map_option fst (?cell k)"
    and pl: "\<And>p. p \<in> set (st_pool ?st) \<Longrightarrow> \<exists>j < length c. ss_bufs s ! j = p \<and> c ! j = None"
    using c by (auto simp: corresponds_def Let_def)
  have cell: "st_cells st' ! (ss_bufs s ! j) = (if j = i then h else ?cell j)" if "j < length c" for j
    using that i dist len hold [OF i] by (auto simp: cells a nth_list_update nth_eq_iff_index_eq)
  have other: "cell_holds st' (?cell j) (c ! j)" if "j < length c" "j \<noteq> i" for j
  proof (cases "?cell j")
    case (Some hd)
    obtain arr n where hd: "hd = (arr, n)" by (cases hd)
    have "map_option fst (st_cells ?st ! a) \<noteq> Some arr" using sep [OF that(1) i that(2)] Some hd by (auto simp: a)
    then show ?thesis using hold [OF that(1)] arrays Some hd
      by (auto simp: cell_holds_def valid_cell_def split: option.splits)
  qed (use hold [OF that(1)] in \<open>auto simp: cell_holds_def valid_cell_def split: option.splits\<close>)
  have apart: "map_option fst h \<noteq> map_option fst (?cell j)" if jc: "j < length c" and ji: "j \<noteq> i" and hn: "h \<noteq> None" for j
  proof -
    obtain arr n where h: "h = Some (arr, n)" using hn by auto
    show ?thesis
    proof (cases "?cell j")
      case (Some hd)
      have "fst hd < length (st_arrays ?st)"
        using hold [OF jc] Some by (auto simp: cell_holds_def valid_cell_def split: prod.splits)
      then show ?thesis using new(2) [OF h] sep [OF jc i ji] Some h by (auto simp: a)
    qed (simp add: h)
  qed
  show ?thesis unfolding corresponds_def Let_def
  proof (intro conjI allI impI ballI)
    fix j k
    assume "j < length (c[i := x])" "k < length (c[i := x])" and ne: "j \<noteq> k"
      and some: "st_cells (ss_store (s\<lparr>ss_store := st'\<rparr>)) ! (ss_bufs (s\<lparr>ss_store := st'\<rparr>) ! j) \<noteq> None"
    then have j: "j < length c" and k: "k < length c" by simp_all
    have some': "(if j = i then h else ?cell j) \<noteq> None" using some cell [OF j] by simp
    have "map_option fst (if j = i then h else ?cell j) \<noteq> map_option fst (if k = i then h else ?cell k)"
    proof (cases "j = i")
      case True
      then show ?thesis using apart [OF k] ne some' by simp
    next
      case False
      then show ?thesis using apart [OF j False] sep [OF j k ne] some' by (cases "h = None") (auto dest: not_sym)
    qed
    then show "map_option fst (st_cells (ss_store (s\<lparr>ss_store := st'\<rparr>)) ! (ss_bufs (s\<lparr>ss_store := st'\<rparr>) ! j))
        \<noteq> map_option fst (st_cells (ss_store (s\<lparr>ss_store := st'\<rparr>)) ! (ss_bufs (s\<lparr>ss_store := st'\<rparr>) ! k))"
      using cell [OF j] cell [OF k] by simp
  next
    fix p assume "p \<in> set (st_pool (ss_store (s\<lparr>ss_store := st'\<rparr>)))"
    then consider "p \<in> set (st_pool ?st)" | "x = None" "p = a" using pool by (auto split: if_splits)
    then show "\<exists>j < length (c[i := x]). ss_bufs (s\<lparr>ss_store := st'\<rparr>) ! j = p \<and> c[i := x] ! j = None"
    proof cases
      case 1
      obtain j where "j < length c" "ss_bufs s ! j = p" "c ! j = None" using pl [OF 1] by blast
      moreover have "i \<noteq> j" using live calculation(3) by auto
      ultimately show ?thesis by (intro exI [of _ j]) simp
    next
      case 2
      then show ?thesis using i by (intro exI [of _ i]) (simp add: a)
    qed
  next
    fix j assume "j < length (c[i := x])"
    then have j: "j < length c" by simp
    show "ss_bufs (s\<lparr>ss_store := st'\<rparr>) ! j < length (st_cells (ss_store (s\<lparr>ss_store := st'\<rparr>)))"
      using hold [OF j] by (simp add: cells)
    show "cell_holds (ss_store (s\<lparr>ss_store := st'\<rparr>)) (st_cells (ss_store (s\<lparr>ss_store := st'\<rparr>)) ! (ss_bufs (s\<lparr>ss_store := st'\<rparr>) ! j))
        (c[i := x] ! j)"
      using other [OF j] new(1) cell [OF j] j by (cases "j = i") simp_all
  qed (use len dist in simp_all)
qed

lemma cell_of_buffer:
  assumes "corresponds s c" and "i < length c"
  shows "cell_holds (ss_store s) (st_cells (ss_store s) ! (ss_bufs s ! i)) (c ! i)"
    and "ss_bufs s ! i < length (st_cells (ss_store s))"
  using assms by (auto simp: corresponds_def Let_def)

lemma cell_holds_bytes: "cell_holds st (st_cells st ! a) (Some b) \<Longrightarrow> cell_bytes st a = b"
  by (auto simp: cell_holds_def cell_bytes_def split: option.splits)

lemma corresponds_write:
  assumes c: "corresponds s c" and i: "i < length c" and b: "c ! i = Some b"
  shows "corresponds (s\<lparr>ss_store := append_cell grow (ss_bufs s ! i) p (ss_store s)\<rparr>) (c[i := Some (b @ p)])"
proof (cases "p = []")
  case True
  moreover have "c[i := Some b] = c" using b by (metis list_update_id)
  ultimately show ?thesis using c by (simp add: append_cell_def)
next
  case False
  let ?st = "ss_store s" and ?a = "ss_bufs s ! i"
  have h: "cell_holds ?st (st_cells ?st ! ?a) (Some b)" using cell_of_buffer(1) [OF c i] b by simp
  note bytes = cell_holds_bytes [OF h]
  show ?thesis
  proof (cases "st_cells ?st ! ?a")
    case None
    have "b = []" using h None by (simp add: cell_holds_def)
    then show ?thesis using False None bytes b
      by (intro corresponds_update [OF c i refl, where h = "Some (length (st_arrays ?st), length p)"])
         (auto simp: append_cell_def Let_def cell_holds_def valid_cell_def nth_append)
  next
    case (Some hd)
    obtain arr m where hd: "hd = (arr, m)" by (cases hd)
    have v: "arr < length (st_arrays ?st)" "m \<le> length (st_arrays ?st ! arr)" "take m (st_arrays ?st ! arr) = b"
      using h Some hd by (auto simp: cell_holds_def valid_cell_def)
    show ?thesis
    proof (cases "length b + length p \<le> length (st_arrays ?st ! arr)")
      case True
      then show ?thesis using False Some hd bytes b v
        by (intro corresponds_update [OF c i refl, where h = "Some (arr, length b + length p)"])
           (auto simp: append_cell_def Let_def cell_holds_def valid_cell_def)
    next
      case long: False
      then show ?thesis using False Some hd bytes b v
        by (intro corresponds_update [OF c i refl, where h = "Some (length (st_arrays ?st), length b + length p)"])
           (auto simp: append_cell_def Let_def cell_holds_def valid_cell_def nth_append)
    qed
  qed
qed

lemma corresponds_reset:
  assumes c: "corresponds s c" and i: "i < length c" and b: "c ! i = Some b"
  shows "corresponds (s\<lparr>ss_store := truncate_cell (ss_bufs s ! i) (ss_store s)\<rparr>) (c[i := Some []])"
  using cell_of_buffer [OF c i] b
  by (intro corresponds_update [OF c i refl, where h = "map_option (\<lambda>(arr, n). (arr, 0)) (st_cells (ss_store s) ! (ss_bufs s ! i))"])
     (auto simp: truncate_cell_def cell_holds_def valid_cell_def split: option.splits)

lemma corresponds_release:
  assumes c: "corresponds s c" and i: "i < length c" and b: "c ! i = Some b"
  shows "corresponds (s\<lparr>ss_store := Buffer_Release (ss_bufs s ! i) (ss_store s)\<rparr>) (c[i := None])"
  using b
  by (intro corresponds_update [OF c i refl, where h = None])
     (auto simp: Buffer_Release_def BytePool_Put_def Let_def truncate_cell_def cell_holds_def valid_cell_def)

lemma corresponds_append:
  assumes c: "corresponds s c"
    and cells: "st_cells st' = st_cells (ss_store s) @ cs" and arrays: "st_arrays st' = st_arrays (ss_store s) @ as"
    and pool: "set (st_pool st') \<subseteq> set (st_pool (ss_store s))"
    and a: "length (st_cells (ss_store s)) \<le> a" "a < length (st_cells st')"
    and h: "cell_holds st' (st_cells st' ! a) (Some [])"
      "\<And>arr n. st_cells st' ! a = Some (arr, n) \<Longrightarrow> length (st_arrays (ss_store s)) \<le> arr"
  shows "corresponds \<lparr>ss_store = st', ss_bufs = ss_bufs s @ [a]\<rparr> (c @ [Some []])"
proof -
  let ?st = "ss_store s" and ?cell = "\<lambda>j. st_cells (ss_store s) ! (ss_bufs s ! j)"
  let ?s' = "\<lparr>ss_store = st', ss_bufs = ss_bufs s @ [a]\<rparr>"
  have len: "length (ss_bufs s) = length c" and dist: "distinct (ss_bufs s)"
    and hold: "\<And>j. j < length c \<Longrightarrow> ss_bufs s ! j < length (st_cells ?st) \<and> cell_holds ?st (?cell j) (c ! j)"
    and sep: "\<And>j k. j < length c \<Longrightarrow> k < length c \<Longrightarrow> j \<noteq> k \<Longrightarrow> ?cell j \<noteq> None \<Longrightarrow>
        map_option fst (?cell j) \<noteq> map_option fst (?cell k)"
    and pl: "\<And>p. p \<in> set (st_pool ?st) \<Longrightarrow> \<exists>j < length c. ss_bufs s ! j = p \<and> c ! j = None"
    using c by (auto simp: corresponds_def Let_def)
  have buf: "ss_bufs ?s' ! j = (if j < length c then ss_bufs s ! j else a)" if "j < Suc (length c)" for j
    using that len by (auto simp: nth_append less_Suc_eq)
  have cell: "st_cells st' ! (ss_bufs ?s' ! j) = (if j < length c then ?cell j else st_cells st' ! a)" if "j < Suc (length c)" for j
    unfolding buf [OF that] using hold [of j] by (cases "j < length c") (simp_all add: cells nth_append)
  have other: "cell_holds st' (?cell j) (c ! j)" if "j < length c" for j
    using hold [OF that] by (auto simp: cell_holds_def valid_cell_def arrays nth_append split: option.splits)
  have apart: "map_option fst (?cell j) \<noteq> map_option fst (st_cells st' ! a)" if "j < length c" "?cell j \<noteq> None \<or> st_cells st' ! a \<noteq> None" for j
  proof (cases "?cell j")
    case (Some hd)
    then have "fst hd < length (st_arrays ?st)"
      using hold [OF that(1)] by (auto simp: cell_holds_def valid_cell_def split: prod.splits)
    then show ?thesis using Some h(2) by (cases "st_cells st' ! a") force+
  qed (use that(2) in simp)
  have fresh: "a \<notin> set (ss_bufs s)"
    using hold a(1) len by (fastforce simp: in_set_conv_nth)
  show ?thesis unfolding corresponds_def Let_def
  proof (intro conjI allI impI ballI)
    fix j k
    assume jk: "j < length (c @ [Some []])" "k < length (c @ [Some []])" and ne: "j \<noteq> k"
      and some: "st_cells (ss_store ?s') ! (ss_bufs ?s' ! j) \<noteq> None"
    have j: "j < Suc (length c)" and k: "k < Suc (length c)" using jk by simp_all
    show "map_option fst (st_cells (ss_store ?s') ! (ss_bufs ?s' ! j)) \<noteq> map_option fst (st_cells (ss_store ?s') ! (ss_bufs ?s' ! k))"
      using j k ne some sep [of j k] apart [of j] not_sym [OF apart [of k]] cell [OF j] cell [OF k]
      by (cases "j < length c"; cases "k < length c") auto
  next
    fix p assume "p \<in> set (st_pool (ss_store ?s'))"
    then obtain j where "j < length c" "ss_bufs s ! j = p" "c ! j = None" using pl pool by auto
    then show "\<exists>j < length (c @ [Some []]). ss_bufs ?s' ! j = p \<and> (c @ [Some []]) ! j = None"
      using len by (intro exI [of _ j]) (simp add: nth_append)
  next
    fix j assume "j < length (c @ [Some []])"
    then have j: "j < Suc (length c)" by simp
    show "ss_bufs ?s' ! j < length (st_cells (ss_store ?s'))"
      using buf [OF j] hold [of j] a(2) by (auto simp: cells)
    show "cell_holds (ss_store ?s') (st_cells (ss_store ?s') ! (ss_bufs ?s' ! j)) ((c @ [Some []]) ! j)"
      using cell [OF j] other [of j] h(1) j by (auto simp: nth_append less_Suc_eq)
  qed (use len dist fresh in simp_all)
qed

lemma corresponds_new:
  assumes c: "corresponds s c"
  shows "corresponds (run_op grow k (BNew pick) s) (c @ [Some []])"
proof (cases "\<exists>i. pick = Some i \<and> i < length (st_pool (ss_store s))")
  case True
  then obtain i where i: "pick = Some i" "i < length (st_pool (ss_store s))" by blast
  let ?st = "ss_store s" and ?p = "st_pool (ss_store s) ! i"
  have "?p \<in> set (st_pool ?st)" using i(2) by simp
  then obtain j where "j < length c" "ss_bufs s ! j = ?p" "c ! j = None"
    using c by (auto simp: corresponds_def Let_def)
  then have p: "st_cells ?st ! ?p = None" using cell_of_buffer(1) [OF c, of j] by (simp add: cell_holds_def)
  let ?st' = "?st\<lparr>st_pool := take i (st_pool ?st) @ drop (Suc i) (st_pool ?st), st_cells := st_cells ?st @ [None]\<rparr>"
  have "run_op grow k (BNew pick) s = \<lparr>ss_store = ?st', ss_bufs = ss_bufs s @ [length (st_cells ?st)]\<rparr>"
    using i by (simp add: NewBuffer_def BytePool_Get_def p)
  then show ?thesis
    using corresponds_append [OF c, of ?st' "[None]" "[]" "length (st_cells ?st)"]
    by (auto simp: cell_holds_def valid_cell_def dest: in_set_takeD in_set_dropD)
next
  case False
  let ?st = "ss_store s"
  let ?h = "Some (length (st_arrays ?st), 0)"
  let ?st' = "?st\<lparr>st_arrays := st_arrays ?st @ [replicate k (CHR 0x00)], st_cells := st_cells ?st @ [?h, ?h]\<rparr>"
  have "run_op grow k (BNew pick) s = \<lparr>ss_store = ?st', ss_bufs = ss_bufs s @ [Suc (length (st_cells ?st))]\<rparr>"
    using False by (auto simp: NewBuffer_def BytePool_Get_def split: option.splits)
  then show ?thesis
    using corresponds_append [OF c, of ?st' "[?h, ?h]" "[replicate k (CHR 0x00)]" "Suc (length (st_cells ?st))"]
    by (simp add: cell_holds_def valid_cell_def nth_append)
qed

fun spec_run :: "buf_op list \<Rightarrow> contents \<Rightarrow> contents option" where
  "spec_run [] c = Some c"
| "spec_run (op # ops) c = Option.bind (spec_op op c) (spec_run ops)"

definition buffer_run :: "(nat \<Rightarrow> nat) \<Rightarrow> nat \<Rightarrow> buf_op list \<Rightarrow> Session \<Rightarrow> Session" where
  "buffer_run grow k ops s = fold (run_op grow k) ops s"

definition new_session :: Session where
  "new_session = \<lparr>ss_store = NewBytePool, ss_bufs = []\<rparr>"

lemma corresponds_op: "corresponds s c \<Longrightarrow> spec_op op c = Some c' \<Longrightarrow> corresponds (run_op grow k op s) c'"
  by (cases op)
     (auto simp: Buffer_Write_def Buffer_Reset_def corresponds_write corresponds_reset corresponds_release
        corresponds_new simp del: run_op.simps(1) split: if_splits option.splits)

lemma corresponds_run: "corresponds s c \<Longrightarrow> spec_run ops c = Some c' \<Longrightarrow> corresponds (buffer_run grow k ops s) c'"
  by (induction ops arbitrary: s c) (auto simp: buffer_run_def dest: corresponds_op split: Option.bind_splits)

text \<open>
  C33: buffers are independent byte strings.  For every sequence of operations in which no buffer is
  used after its release, whatever the pool hands out and however arrays grow, each buffer holds
  exactly what was written to it since it was made or reset, although cells and arrays are reused.
\<close>

theorem buffers_are_strings:
  assumes "spec_run ops [] = Some c" and "i < length c" and "c ! i = Some b"
  shows "Buffer_Bytes (ss_store (buffer_run grow k ops new_session)) (ss_bufs (buffer_run grow k ops new_session) ! i) = b"
proof -
  have "corresponds new_session []" by (simp add: corresponds_def new_session_def NewBytePool_def)
  from corresponds_run [OF this assms(1)] have "corresponds (buffer_run grow k ops new_session) c" .
  from cell_of_buffer(1) [OF this assms(2)] show ?thesis
    unfolding Buffer_Bytes_def assms(3) by (rule cell_holds_bytes)
qed

theorem buffers_are_strings_witness:
  "Buffer_Bytes (ss_store (buffer_run (\<lambda>n. 2 * n) 4 [BNew None, BWrite 0 ''abcdef'', BNew None, BWrite 1 ''xy'', BRelease 0, BNew (Some 0), BWrite 2 ''q''] new_session))
     (ss_bufs (buffer_run (\<lambda>n. 2 * n) 4 [BNew None, BWrite 0 ''abcdef'', BNew None, BWrite 1 ''xy'', BRelease 0, BNew (Some 0), BWrite 2 ''q''] new_session) ! 1) = ''xy''"
  by (rule buffers_are_strings [where c = "[None, Some ''xy'', Some ''q'']"]) simp_all

text \<open>
  Releasing a buffer does not recycle its memory.  \<open>Release\<close> puts the address of the buffer's own
  field into the pool and then sets the field to nil, so the pooled slice is nil: the buffer made from
  it starts with capacity zero, whatever the capacity was before, and the released buffer shares its
  cell with the pool.
\<close>

theorem released_buffer_is_nil:
  assumes "a < length (st_cells s)"
  shows "last (st_pool (Buffer_Release a s)) = a \<and> cell_cap (Buffer_Release a s) a = 0
    \<and> (let (b, s') = NewBuffer k (Some (length (st_pool s))) (Buffer_Release a s) in Buffer_Cap s' b = 0)"
  using assms
  by (simp add: Buffer_Release_def BytePool_Put_def truncate_cell_def cell_cap_def NewBuffer_def BytePool_Get_def
      Buffer_Cap_def Let_def nth_append)

theorem released_buffer_is_nil_witness:
  "(let (a, s) = NewBuffer 64 None NewBytePool; (b, s') = NewBuffer 64 (Some 0) (Buffer_Release a s)
    in Buffer_Cap s a = 64 \<and> Buffer_Cap s' b = 0)"
proof -
  obtain s where n: "NewBuffer 64 None NewBytePool = (1, s)" "1 < length (st_cells s)" "st_pool s = []" "Buffer_Cap s 1 = 64"
    by (simp add: NewBuffer_def BytePool_Get_def NewBytePool_def Buffer_Cap_def cell_cap_def)
  from released_buffer_is_nil [OF n(2), of 64] show ?thesis
    by (simp add: n del: One_nat_def split: prod.splits)
qed

end
