(* ===== verification/Reflectutil.thy ===== *)
theory Reflectutil
  imports GoReflect
begin

text \<open>
  Package reflectutil (internal/reflectutil/reflectutil.go): cached type information, names derived from
  tags and field names, a setter that converts, and checks on dynamic values.

  A dynamic value is nil or a value with its type.  Assigning is modelled between equal types and
  conversion between the scalar types, strings, byte slices and rune slices; interface targets are not.
\<close>

type_synonym dyn = "(gotype \<times> goval) option"

section \<open>Names\<close>

fun parseConfigTag :: "string \<Rightarrow> string" where
  "parseConfigTag [] = []"
| "parseConfigTag (c # s) = (if c = CHR '','' then [] else c # parseConfigTag s)"

text \<open>The loop of \<open>toSnakeCase\<close>, from byte \<open>i\<close>.\<close>

fun snake_loop :: "nat \<Rightarrow> string \<Rightarrow> string" where
  "snake_loop i [] = []"
| "snake_loop i (c # s) =
     (if is_upper c then (if 0 < i then [CHR ''_''] else []) @ to_lower_char c # snake_loop (Suc i) s
      else c # snake_loop (Suc i) s)"

definition toSnakeCase :: "string \<Rightarrow> string" where
  "toSnakeCase s = snake_loop 0 s"

section \<open>Type information\<close>

record FieldInfo =
  fi_index :: "nat list"
  fi_name :: string
  fi_configName :: string
  fi_type :: gotype
  fi_kind :: string
  fi_isExported :: bool
  fi_hasTag :: bool
  fi_tagValue :: string

record TypeInfo =
  ti_type :: gotype
  ti_kind :: string
  ti_isPtr :: bool
  ti_isSlice :: bool
  ti_isMap :: bool
  ti_isStruct :: bool
  ti_isTime :: bool
  ti_elemType :: "gotype option"
  ti_keyType :: "gotype option"
  ti_numField :: nat
  ti_fields :: "FieldInfo list"
  ti_isExported :: bool

fun buildFieldInfos :: "gofield list \<Rightarrow> nat \<Rightarrow> FieldInfo list" where
  "buildFieldInfos [] i = []"
| "buildFieldInfos (f # fs) i =
     (if \<not> f_exported f then buildFieldInfos fs (Suc i)
      else \<lparr>fi_index = [i], fi_name = f_name f,
            fi_configName = (if f_tag f \<noteq> [] then parseConfigTag (f_tag f) else toSnakeCase (f_name f)),
            fi_type = f_type f, fi_kind = kind_text (f_type f), fi_isExported = True,
            fi_hasTag = (f_tag f \<noteq> []), fi_tagValue = f_tag f\<rparr> # buildFieldInfos fs (Suc i))"

fun isExported :: "gotype \<Rightarrow> bool" where
  "isExported (KPtr t) = isExported t"
| "isExported (KStruct fs) = list_ex f_exported fs"
| "isExported _ = False"

definition buildTypeInfo :: "gotype \<Rightarrow> TypeInfo" where
  "buildTypeInfo t0 =
     (let t = (case t0 of KPtr e \<Rightarrow> e | _ \<Rightarrow> t0)
      in \<lparr>ti_type = t0, ti_kind = kind_text t, ti_isPtr = (case t0 of KPtr _ \<Rightarrow> True | _ \<Rightarrow> False),
          ti_isSlice = (case t of KSlice _ \<Rightarrow> True | _ \<Rightarrow> False), ti_isMap = (case t of KMap _ _ \<Rightarrow> True | _ \<Rightarrow> False),
          ti_isStruct = (case t of KStruct _ \<Rightarrow> True | KTime \<Rightarrow> True | _ \<Rightarrow> False), ti_isTime = (t = KTime),
          ti_elemType = (case t of KSlice e \<Rightarrow> Some e | KMap k e \<Rightarrow> Some e
                         | _ \<Rightarrow> (case t0 of KPtr e \<Rightarrow> Some e | _ \<Rightarrow> None)),
          ti_keyType = (case t of KMap k e \<Rightarrow> Some k | _ \<Rightarrow> None),
          ti_numField = (case t of KStruct fs \<Rightarrow> length fs | _ \<Rightarrow> 0),
          ti_fields = (case t of KStruct fs \<Rightarrow> buildFieldInfos fs 0 | _ \<Rightarrow> []),
          ti_isExported = isExported t\<rparr>)"

type_synonym type_cache = "(gotype \<times> TypeInfo) list"

definition NewCache :: type_cache where "NewCache = []"

definition GetTypeInfo :: "gotype \<Rightarrow> type_cache \<Rightarrow> TypeInfo \<times> type_cache" where
  "GetTypeInfo t c =
     (case mget c t of
        Some info \<Rightarrow> (info, c)
      | None \<Rightarrow> let info = buildTypeInfo t in (info, mput t info c))"

section \<open>Conversions of dynamic values\<close>

definition stringify :: "dyn \<Rightarrow> string" where
  "stringify d =
     (case d of
        Some (KString, VString s) \<Rightarrow> s
      | Some (KSlice (KUint W8), VSlice (Some bs)) \<Rightarrow> concat (map (\<lambda>b. case b of VUint n \<Rightarrow> [chr (nat n)] | _ \<Rightarrow> []) bs)
      | _ \<Rightarrow> [])"

definition maxInt64AsUint :: int where "maxInt64AsUint = 2 ^ 63 - 1"

definition toInt64 :: "dyn \<Rightarrow> int \<times> bool" where
  "toInt64 d =
     (case d of
        Some (KInt b, VInt i) \<Rightarrow> (i, True)
      | Some (KUint b, VUint i) \<Rightarrow> (if maxInt64AsUint < i then (0, False) else (i, True))
      | Some (KFloat b, VFloat x) \<Rightarrow> (f64_to_i64 x, True)
      | _ \<Rightarrow> (0, False))"

definition toFloat64 :: "dyn \<Rightarrow> float64 \<times> bool" where
  "toFloat64 d =
     (case d of
        Some (KFloat b, VFloat x) \<Rightarrow> (x, True)
      | Some (KInt b, VInt i) \<Rightarrow> (if b \<in> {W, W64} then (f64_of_int i, True) else (f64_zero, False))
      | Some (KUint b, VUint i) \<Rightarrow> (if b \<in> {W, W64} then (f64_of_int i, True) else (f64_zero, False))
      | _ \<Rightarrow> (f64_zero, False))"

definition toBool :: "dyn \<Rightarrow> bool \<times> bool" where
  "toBool d = (case d of Some (KBool, VBool b) \<Rightarrow> (b, True) | _ \<Rightarrow> (False, False))"

text \<open>
  \<open>Value.Convert\<close>; \<open>None\<close> when the types are not convertible.  A float outside the range of the
  integer type converts to an implementation-defined value; the one of amd64 is taken.
\<close>

definition f64_to_u64 :: "float64 \<Rightarrow> int" where
  "f64_to_u64 x = (if f64_lt x (f64_of_int (2 ^ 63)) then f64_to_i64 x
                   else f64_to_i64 (f64_sub x (f64_of_int (2 ^ 63))) + 2 ^ 63)"

definition rune_text :: "int \<Rightarrow> string" where
  "rune_text i = encode_rune (if 0 \<le> i \<and> i < 2 ^ 31 then nat i else 65533)"

fun scalar_value :: "goval \<Rightarrow> (int + float64) option" where
  "scalar_value (VInt i) = Some (Inl i)"
| "scalar_value (VUint i) = Some (Inl i)"
| "scalar_value (VFloat x) = Some (Inr x)"
| "scalar_value _ = None"

fun convert_number :: "int + float64 \<Rightarrow> gotype \<Rightarrow> goval option" where
  "convert_number (Inl i) (KInt b) = Some (set_int b i)"
| "convert_number (Inl i) KDuration = Some (set_int W64 i)"
| "convert_number (Inl i) (KUint b) = Some (set_uint b i)"
| "convert_number (Inl i) (KFloat b) = Some (set_float b (f64_of_int i))"
| "convert_number (Inl i) KString = Some (VString (rune_text i))"
| "convert_number (Inr x) (KInt b) = Some (set_int b (f64_to_i64 x))"
| "convert_number (Inr x) KDuration = Some (set_int W64 (f64_to_i64 x))"
| "convert_number (Inr x) (KUint b) = Some (set_uint b (f64_to_u64 x))"
| "convert_number (Inr x) (KFloat b) = Some (set_float b x)"
| "convert_number _ _ = None"

fun slice_elems :: "goval \<Rightarrow> int list" where
  "slice_elems (VSlice (Some vs)) = concat (map (\<lambda>v. case v of VInt i \<Rightarrow> [i] | VUint i \<Rightarrow> [i] | _ \<Rightarrow> []) vs)"
| "slice_elems _ = []"

definition text_of :: "goval \<Rightarrow> string" where
  "text_of v = (case v of VString s \<Rightarrow> s | _ \<Rightarrow> [])"

definition Convert :: "gotype \<Rightarrow> goval \<Rightarrow> gotype \<Rightarrow> goval option" where
  "Convert src v t =
     (if src = KString \<and> t = KSlice (KUint W8) then
        Some (VSlice (Some (map (\<lambda>c. VUint (int (byte c))) (text_of v))))
      else if src = KString \<and> t = KSlice (KInt W32) then
        Some (VSlice (Some (map (\<lambda>(_, r). VInt (int r)) (runes_from 0 (text_of v)))))
      else if src = KSlice (KUint W8) \<and> t = KString then
        Some (VString (map (\<lambda>n. chr (nat n)) (slice_elems v)))
      else if src = KSlice (KInt W32) \<and> t = KString then
        Some (VString (concat (map rune_text (slice_elems v))))
      else case scalar_value v of Some n \<Rightarrow> convert_number n t | None \<Rightarrow> None)"

section \<open>The setter\<close>

text \<open>The cases of the switch after assignment and conversion; what none of them sets is left alone.\<close>

definition common_conversion :: "gotype \<Rightarrow> goval \<Rightarrow> dyn \<Rightarrow> goval" where
  "common_conversion t v d =
     (case t of
        KString \<Rightarrow> VString (stringify d)
      | KInt b \<Rightarrow> (case toInt64 d of (i, ok) \<Rightarrow> if ok then set_int b i else v)
      | KDuration \<Rightarrow>
          (case d of
             Some (KDuration, VInt i) \<Rightarrow> set_int W64 i
           | _ \<Rightarrow> (case toInt64 d of (i, ok) \<Rightarrow> if ok then set_int W64 i else v))
      | KUint b \<Rightarrow> (case toInt64 d of (i, ok) \<Rightarrow> if ok \<and> 0 \<le> i then set_uint b i else v)
      | KFloat b \<Rightarrow> (case toFloat64 d of (x, ok) \<Rightarrow> if ok then set_float b x else v)
      | KBool \<Rightarrow> (case toBool d of (b, ok) \<Rightarrow> if ok then VBool b else v)
      | _ \<Rightarrow> v)"

definition set_target :: "gotype \<Rightarrow> goval \<Rightarrow> gotype \<times> goval \<Rightarrow> goval" where
  "set_target t v src =
     (if fst src = t then snd src
      else case Convert (fst src) (snd src) t of
        Some v' \<Rightarrow> v'
      | None \<Rightarrow> common_conversion t v (Some src))"

text \<open>
  \<open>Set\<close>: the value of the target afterwards and the error; nil makes \<open>reflect.ValueOf(value).Type()\<close>
  panic.
\<close>

definition ValueSetter_Set :: "gotype \<Rightarrow> goval \<Rightarrow> dyn \<Rightarrow> (goval \<times> goerror option) option" where
  "ValueSetter_Set t v d =
     (case d of
        None \<Rightarrow> None
      | Some src \<Rightarrow>
          (case t of
             KPtr e \<Rightarrow>
               Some (VPtr (Some (set_target e (case v of VPtr (Some u) \<Rightarrow> u | _ \<Rightarrow> zero_of e) src)), None)
           | _ \<Rightarrow> Some (set_target t v src, None)))"

section \<open>Walking and checking\<close>

text \<open>\<open>WalkStruct\<close> with a callback on the world; it stops at the first error.\<close>

fun walk_fields :: "(FieldInfo \<Rightarrow> goval \<Rightarrow> 'w \<Rightarrow> goerror option \<times> 'w) \<Rightarrow> gofield list \<Rightarrow> goval list \<Rightarrow> nat \<Rightarrow> 'w
    \<Rightarrow> goerror option \<times> 'w" where
  "walk_fields fn (f # fs) (v # vs) i w =
     (if \<not> f_exported f then walk_fields fn fs vs (Suc i) w
      else case fn \<lparr>fi_index = [i], fi_name = f_name f, fi_configName = [], fi_type = f_type f,
                    fi_kind = kind_text (f_type f), fi_isExported = False, fi_hasTag = False, fi_tagValue = []\<rparr> v w of
        (Some err, w') \<Rightarrow> (Some err, w')
      | (None, w') \<Rightarrow> walk_fields fn fs vs (Suc i) w')"
| "walk_fields fn _ _ i w = (None, w)"

definition WalkStruct :: "(FieldInfo \<Rightarrow> goval \<Rightarrow> 'w \<Rightarrow> goerror option \<times> 'w) \<Rightarrow> dyn \<Rightarrow> 'w \<Rightarrow> goerror option \<times> 'w" where
  "WalkStruct fn d w =
     (case d of
        Some (KPtr (KStruct fs), VPtr (Some (VStruct vs))) \<Rightarrow> walk_fields fn fs vs 0 w
      | Some (KStruct fs, VStruct vs) \<Rightarrow> walk_fields fn fs vs 0 w
      | _ \<Rightarrow> (None, w))"

fun is_zero :: "goval \<Rightarrow> bool" where
  "is_zero (VString s) = (s = [])"
| "is_zero (VInt i) = (i = 0)"
| "is_zero (VUint i) = (i = 0)"
| "is_zero (VFloat x) = f64_eq x f64_zero"
| "is_zero (VBool b) = (\<not> b)"
| "is_zero (VSlice xs) = (xs = None)"
| "is_zero (VMap m) = (m = None)"
| "is_zero (VTime t) = (t = 0)"
| "is_zero (VStruct vs) = (\<forall>v\<in>set vs. is_zero v)"
| "is_zero (VPtr p) = (p = None)"
| "is_zero VOther = True"

definition IsZero :: "dyn \<Rightarrow> bool" where
  "IsZero d = (case d of None \<Rightarrow> True | Some (t, v) \<Rightarrow> is_zero v)"

definition IsNil :: "dyn \<Rightarrow> bool" where
  "IsNil d =
     (case d of
        None \<Rightarrow> True
      | Some (KPtr _, v) \<Rightarrow> v = VPtr None
      | Some (KSlice _, v) \<Rightarrow> v = VSlice None
      | Some (KMap _ _, v) \<Rightarrow> v = VMap None
      | Some (KOther k, v) \<Rightarrow> k \<in> {''chan'', ''func'', ''interface''} \<and> v = VOther
      | _ \<Rightarrow> False)"

text \<open>\<open>None\<close> is the invalid value that a nil pointer leads to.\<close>

fun Dereference :: "gotype \<Rightarrow> goval \<Rightarrow> (gotype \<times> goval) option" where
  "Dereference (KPtr t) v = (case v of VPtr (Some u) \<Rightarrow> Dereference t u | _ \<Rightarrow> None)"
| "Dereference t v = Some (t, v)"

definition MakeSlice :: "gotype \<Rightarrow> int \<Rightarrow> int \<Rightarrow> (gotype \<times> goval) option" where
  "MakeSlice t len cap =
     (if len < 0 \<or> cap < len then None else Some (KSlice t, VSlice (Some (replicate (nat len) (zero_of t)))))"

definition MakeMap :: "gotype \<Rightarrow> gotype \<Rightarrow> gotype \<times> goval" where
  "MakeMap k t = (KMap k t, VMap (Some []))"

section \<open>Properties\<close>

definition squeeze :: "string \<Rightarrow> string" where
  "squeeze s = filter (\<lambda>c. c \<noteq> CHR ''_'') (to_lower s)"

lemma lower_not_upper: "\<not> is_upper (to_lower_char c)"
proof (cases "is_upper c")
  case True
  then have "byte (to_lower_char c) = byte c + 32" "byte c \<le> 90"
    by (simp_all add: to_lower_char_def is_upper_def byte_def of_char_of)
  then show ?thesis using True by (simp add: is_upper_def)
qed (simp add: to_lower_char_def)

lemma snake_loop_props:
  "list_all (\<lambda>c. \<not> is_upper c) (snake_loop i s) \<and> squeeze (snake_loop i s) = squeeze s"
proof (induction i s rule: snake_loop.induct)
  case (2 i c s)
  have u: "\<not> is_upper (CHR ''_'')" "to_lower_char (CHR ''_'') = CHR ''_''" by code_simp+
  have idem: "to_lower_char (to_lower_char c) = to_lower_char c"
    using lower_not_upper [of c] by (simp add: to_lower_char_def)
  show ?case using 2 u idem lower_not_upper by (auto simp: squeeze_def to_lower_def)
qed (simp add: squeeze_def to_lower_def)

text \<open>
  Snake case has no upper-case letters, and up to case and underscores it is the name.
\<close>

lemma snake_case_faithful:
  "list_all (\<lambda>c. \<not> is_upper c) (toSnakeCase s) \<and> squeeze (toSnakeCase s) = squeeze s"
  unfolding toSnakeCase_def by (rule snake_loop_props)

lemma parseConfigTag_first: "parseConfigTag tag = hd (split_on (CHR '','') tag)"
  by (induction tag) (auto split: list.splits)

definition types_ok :: "type_cache \<Rightarrow> bool" where
  "types_ok c \<longleftrightarrow> (\<forall>t info. mget c t = Some info \<longrightarrow> info = buildTypeInfo t)"

lemma GetTypeInfo_ok:
  "types_ok c \<Longrightarrow> fst (GetTypeInfo t c) = buildTypeInfo t \<and> types_ok (snd (GetTypeInfo t c))"
  by (auto simp: types_ok_def GetTypeInfo_def Let_def split: option.splits)

lemma is_zero_zero_of: "is_zero (zero_of t)" "\<forall>v\<in>set (zeros_of fs). is_zero v"
  by (induction t and fs rule: zero_of_zeros_of.induct) (simp_all add: f64_zero_def)

text \<open>
  The setter never reports that it could not set.  For values of a type that is neither the
  target's nor convertible to it, \<open>Set\<close> returns no error: it empties a string target and leaves every
  other target as it was; the conversions of its last switch are never reached.
\<close>

theorem setter_ignores_unconvertible:
  assumes "has_type v src" and "src \<noteq> t" and "Convert src v t = None" and "\<forall>e. t \<noteq> KPtr e"
  shows "ValueSetter_Set t u (Some (src, v)) = Some (if t = KString then VString [] else u, None)"
proof -
  have n: "scalar_value v = None" if "t \<noteq> KString" "t \<noteq> KBool" "\<forall>e. t \<noteq> KSlice e" "\<forall>k e. t \<noteq> KMap k e"
      "t \<noteq> KTime" "\<forall>fs. t \<noteq> KStruct fs" "\<forall>k. t \<noteq> KOther k"
    using assms(3,4) that by (cases t; cases "scalar_value v"; auto simp: Convert_def split: if_splits sum.splits;
        (rename_tac x, case_tac x; simp))
  have s: "stringify (Some (src, v)) = []" if "t = KString"
    using assms(2,3) that by (auto simp: stringify_def Convert_def split: gotype.splits goval.splits width.splits option.splits if_splits)
  have i: "toInt64 (Some (src, v)) = (0, False)" "toFloat64 (Some (src, v)) = (f64_zero, False)" if "scalar_value v = None"
    using that by (cases v; auto simp: toInt64_def toFloat64_def split: gotype.splits)+
  have b: "toBool (Some (src, v)) = (False, False)" if "src \<noteq> KBool"
    using that by (auto simp: toBool_def split: gotype.splits)
  have d: "(case Some (src, v) of Some (KDuration, VInt i) \<Rightarrow> x i | _ \<Rightarrow> y) = y" if "src \<noteq> KDuration" for x :: "int \<Rightarrow> goval" and y
    using that by (auto split: gotype.splits)
  have "common_conversion t u (Some (src, v)) = (if t = KString then VString [] else u)"
  proof (cases t)
    case KDuration
    then show ?thesis unfolding common_conversion_def using n i d assms(2) by simp
  qed (use n s i b assms(2) in \<open>simp_all add: common_conversion_def\<close>)
  then have "set_target t u (src, v) = (if t = KString then VString [] else u)"
    using assms(2,3) by (simp add: set_target_def)
  then show ?thesis using assms(4) by (cases t) (simp_all add: ValueSetter_Set_def)
qed

theorem setter_ignores_unconvertible_witness:
  "ValueSetter_Set (KInt W) (VInt 7) (Some (KString, VString ''42'')) = Some (VInt 7, None)
   \<and> ValueSetter_Set KString (VString ''a'') (Some (KBool, VBool True)) = Some (VString [], None)"
  using setter_ignores_unconvertible [of "VString ''42''" KString "KInt W" "VInt 7"]
    setter_ignores_unconvertible [of "VBool True" KBool KString "VString ''a''"]
  by (simp add: Convert_def)

text \<open>An integer set on a string target becomes the character with that code, not its digits.\<close>

lemma setter_int_to_string: "ValueSetter_Set KString (VString []) (Some (KInt W, VInt 65)) = Some (VString ''A'', None)"
  by code_simp

end
