(* ===== verification/Sync.thy ===== *)
theory Sync
  imports Types
begin

text \<open>
  Package syncutil (internal/syncutil/syncutil.go): a once with an error, wait groups, atomics, mutexes
  that give up with a context, semaphores, latches, barriers and context guards.

  A \<open>select\<close> is the list of its possible outcomes; the empty list is a goroutine that blocks.  The
  mutex with its helper goroutine and the barrier are systems of processes that step in any order.
\<close>

section \<open>Once\<close>

record OnceWithErr =
  once_done :: bool
  once_err :: "goerror option"

definition new_OnceWithErr :: OnceWithErr where
  "new_OnceWithErr = \<lparr>once_done = False, once_err = None\<rparr>"

definition Once_Do :: "('w \<Rightarrow> goerror option \<times> 'w) \<Rightarrow> OnceWithErr \<Rightarrow> 'w \<Rightarrow> goerror option \<times> OnceWithErr \<times> 'w" where
  "Once_Do fn o1 w =
     (if once_done o1 then (once_err o1, o1, w)
      else case fn w of (err, w') \<Rightarrow> (err, \<lparr>once_done = True, once_err = err\<rparr>, w'))"

definition Once_Reset :: "OnceWithErr \<Rightarrow> OnceWithErr" where
  "Once_Reset o1 = \<lparr>once_done = False, once_err = None\<rparr>"

section \<open>Wait groups\<close>

text \<open>The counter; a negative one is a panic.  Waiting goes on once it is zero.\<close>

type_synonym WaitGroup = int

definition WaitGroup_Add :: "int \<Rightarrow> WaitGroup \<Rightarrow> WaitGroup option" where
  "WaitGroup_Add delta n = (if n + delta < 0 then None else Some (n + delta))"

definition WaitGroup_Done :: "WaitGroup \<Rightarrow> WaitGroup option" where
  "WaitGroup_Done n = WaitGroup_Add (- 1) n"

definition WaitGroup_Wait :: "WaitGroup \<Rightarrow> unit list" where
  "WaitGroup_Wait n = (if n = 0 then [()] else [])"

text \<open>The outcomes of waiting for an event or the end of a context.\<close>

definition wait_or_done :: "bool \<Rightarrow> goerror option \<Rightarrow> goerror option list" where
  "wait_or_done ready ctx_err = (if ready then [None] else []) @ (case ctx_err of Some e \<Rightarrow> [Some e] | None \<Rightarrow> [])"

definition WaitGroup_WaitContext :: "goerror option \<Rightarrow> WaitGroup \<Rightarrow> goerror option list" where
  "WaitGroup_WaitContext ctx_err n = wait_or_done (n = 0) ctx_err"

definition deadline_exceeded :: goerror where "deadline_exceeded = CtxError ''context deadline exceeded''"

definition WaitGroup_WaitTimeout :: "bool \<Rightarrow> WaitGroup \<Rightarrow> goerror option list" where
  "WaitGroup_WaitTimeout elapsed n = wait_or_done (n = 0) (if elapsed then Some deadline_exceeded else None)"

section \<open>Atomics\<close>

type_synonym AtomicBool = bool
type_synonym AtomicInt64 = i64

definition NewAtomicBool :: "bool \<Rightarrow> AtomicBool" where "NewAtomicBool initial = initial"
definition AtomicBool_Get :: "AtomicBool \<Rightarrow> bool" where "AtomicBool_Get ab = ab"
definition AtomicBool_Set :: "bool \<Rightarrow> AtomicBool \<Rightarrow> AtomicBool" where "AtomicBool_Set v ab = v"
definition AtomicBool_Swap :: "bool \<Rightarrow> AtomicBool \<Rightarrow> bool \<times> AtomicBool" where "AtomicBool_Swap v ab = (ab, v)"

definition AtomicBool_CompareAndSwap :: "bool \<Rightarrow> bool \<Rightarrow> AtomicBool \<Rightarrow> bool \<times> AtomicBool" where
  "AtomicBool_CompareAndSwap old v ab = (if ab = old then (True, v) else (False, ab))"

definition NewAtomicInt64 :: "i64 \<Rightarrow> AtomicInt64" where "NewAtomicInt64 initial = initial"
definition AtomicInt64_Get :: "AtomicInt64 \<Rightarrow> i64" where "AtomicInt64_Get ai = ai"
definition AtomicInt64_Set :: "i64 \<Rightarrow> AtomicInt64 \<Rightarrow> AtomicInt64" where "AtomicInt64_Set v ai = v"

definition AtomicInt64_Add :: "i64 \<Rightarrow> AtomicInt64 \<Rightarrow> i64 \<times> AtomicInt64" where
  "AtomicInt64_Add delta ai = (ai + delta, ai + delta)"

definition AtomicInt64_Increment :: "AtomicInt64 \<Rightarrow> i64 \<times> AtomicInt64" where
  "AtomicInt64_Increment ai = AtomicInt64_Add 1 ai"

definition AtomicInt64_Decrement :: "AtomicInt64 \<Rightarrow> i64 \<times> AtomicInt64" where
  "AtomicInt64_Decrement ai = AtomicInt64_Add (- 1) ai"

definition AtomicInt64_Swap :: "i64 \<Rightarrow> AtomicInt64 \<Rightarrow> i64 \<times> AtomicInt64" where "AtomicInt64_Swap v ai = (ai, v)"

definition AtomicInt64_CompareAndSwap :: "i64 \<Rightarrow> i64 \<Rightarrow> AtomicInt64 \<Rightarrow> bool \<times> AtomicInt64" where
  "AtomicInt64_CompareAndSwap old v ai = (if ai = old then (True, v) else (False, ai))"

section \<open>Mutexes\<close>

text \<open>
  A caller of the mutex: idle, waiting, granted by its helper goroutine but not told yet, holding the
  lock, or gone with the error of its context, in which case the helper still waits, holds, or has
  released the lock.
\<close>

datatype lock_point = MIdle | MWaiting | MGranted | MLocked | MFailedWaiting | MFailedGranted | MFailedReleased

record Mutex =
  mx_locked :: bool
  mx_callers :: "lock_point list"

definition NewMutex :: "nat \<Rightarrow> Mutex" where
  "NewMutex n = \<lparr>mx_locked = False, mx_callers = replicate n MIdle\<rparr>"

definition Mutex_TryLock :: "bool \<Rightarrow> bool \<times> bool" where
  "Mutex_TryLock locked = (\<not> locked, True)"

definition set_caller :: "nat \<Rightarrow> lock_point \<Rightarrow> bool \<Rightarrow> Mutex \<Rightarrow> Mutex" where
  "set_caller i p locked m = \<lparr>mx_locked = locked, mx_callers = (mx_callers m)[i := p]\<rparr>"

text \<open>
  The steps of \<open>LockContext\<close> for caller \<open>i\<close>: \<open>TryLock\<close> or start the helper; the helper gets the lock; the
  caller sees that; the context ends first; the second helper gives the lock back; and \<open>Unlock\<close>.
\<close>

definition lock_try :: "nat \<Rightarrow> Mutex \<Rightarrow> Mutex option" where
  "lock_try i m =
     (if mx_callers m ! i \<noteq> MIdle then None
      else case Mutex_TryLock (mx_locked m) of
        (True, l) \<Rightarrow> Some (set_caller i MLocked l m)
      | (False, l) \<Rightarrow> Some (set_caller i MWaiting (mx_locked m) m))"

definition lock_grant :: "nat \<Rightarrow> Mutex \<Rightarrow> Mutex option" where
  "lock_grant i m =
     (if mx_locked m then None
      else case mx_callers m ! i of
        MWaiting \<Rightarrow> Some (set_caller i MGranted True m)
      | MFailedWaiting \<Rightarrow> Some (set_caller i MFailedGranted True m)
      | _ \<Rightarrow> None)"

definition lock_notice :: "nat \<Rightarrow> Mutex \<Rightarrow> Mutex option" where
  "lock_notice i m = (if mx_callers m ! i = MGranted then Some (set_caller i MLocked (mx_locked m) m) else None)"

definition lock_cancel :: "nat \<Rightarrow> Mutex \<Rightarrow> Mutex option" where
  "lock_cancel i m =
     (case mx_callers m ! i of
        MWaiting \<Rightarrow> Some (set_caller i MFailedWaiting (mx_locked m) m)
      | MGranted \<Rightarrow> Some (set_caller i MFailedGranted (mx_locked m) m)
      | _ \<Rightarrow> None)"

definition lock_drain :: "nat \<Rightarrow> Mutex \<Rightarrow> Mutex option" where
  "lock_drain i m = (if mx_callers m ! i = MFailedGranted then Some (set_caller i MFailedReleased False m) else None)"

definition Mutex_Unlock :: "nat \<Rightarrow> Mutex \<Rightarrow> Mutex option" where
  "Mutex_Unlock i m = (if mx_callers m ! i = MLocked then Some (set_caller i MIdle False m) else None)"

inductive lock_step :: "Mutex \<Rightarrow> Mutex \<Rightarrow> bool" where
  attempt: "i < length (mx_callers m) \<Longrightarrow> lock_try i m = Some m' \<Longrightarrow> lock_step m m'"
| grant: "i < length (mx_callers m) \<Longrightarrow> lock_grant i m = Some m' \<Longrightarrow> lock_step m m'"
| notice: "i < length (mx_callers m) \<Longrightarrow> lock_notice i m = Some m' \<Longrightarrow> lock_step m m'"
| cancel: "i < length (mx_callers m) \<Longrightarrow> lock_cancel i m = Some m' \<Longrightarrow> lock_step m m'"
| drain: "i < length (mx_callers m) \<Longrightarrow> lock_drain i m = Some m' \<Longrightarrow> lock_step m m'"
| unlock: "i < length (mx_callers m) \<Longrightarrow> Mutex_Unlock i m = Some m' \<Longrightarrow> lock_step m m'"

text \<open>Reader-writer locks: whether a writer holds it, and the number of readers; \<open>None\<close> blocks.\<close>

record RWMutex =
  rw_writer :: bool
  rw_readers :: nat

definition RWMutex_TryLock :: "RWMutex \<Rightarrow> bool \<times> RWMutex" where
  "RWMutex_TryLock m = (if rw_writer m \<or> 0 < rw_readers m then (False, m) else (True, m\<lparr>rw_writer := True\<rparr>))"

definition RWMutex_TryRLock :: "RWMutex \<Rightarrow> bool \<times> RWMutex" where
  "RWMutex_TryRLock m = (if rw_writer m then (False, m) else (True, m\<lparr>rw_readers := rw_readers m + 1\<rparr>))"

definition RWMutex_Lock :: "RWMutex \<Rightarrow> RWMutex option" where
  "RWMutex_Lock m = (case RWMutex_TryLock m of (True, m') \<Rightarrow> Some m' | _ \<Rightarrow> None)"

definition RWMutex_RLock :: "RWMutex \<Rightarrow> RWMutex option" where
  "RWMutex_RLock m = (case RWMutex_TryRLock m of (True, m') \<Rightarrow> Some m' | _ \<Rightarrow> None)"

definition RWMutex_Unlock :: "RWMutex \<Rightarrow> RWMutex option" where
  "RWMutex_Unlock m = (if rw_writer m then Some (m\<lparr>rw_writer := False\<rparr>) else None)"

definition RWMutex_RUnlock :: "RWMutex \<Rightarrow> RWMutex option" where
  "RWMutex_RUnlock m = (if rw_readers m = 0 then None else Some (m\<lparr>rw_readers := rw_readers m - 1\<rparr>))"

section \<open>Semaphores and latches\<close>

record Semaphore =
  sem_capacity :: nat
  sem_held :: nat

text \<open>A negative capacity makes \<open>make\<close> panic.\<close>

definition NewSemaphore :: "int \<Rightarrow> Semaphore option" where
  "NewSemaphore capacity = (if capacity < 0 then None else Some \<lparr>sem_capacity = nat capacity, sem_held = 0\<rparr>)"

definition Semaphore_Acquire :: "goerror option \<Rightarrow> Semaphore \<Rightarrow> (goerror option \<times> Semaphore) list" where
  "Semaphore_Acquire ctx_err s =
     (if sem_held s < sem_capacity s then [(None, s\<lparr>sem_held := sem_held s + 1\<rparr>)] else [])
     @ (case ctx_err of Some e \<Rightarrow> [(Some e, s)] | None \<Rightarrow> [])"

definition Semaphore_Release :: "Semaphore \<Rightarrow> Semaphore list" where
  "Semaphore_Release s = (if sem_held s = 0 then [] else [s\<lparr>sem_held := sem_held s - 1\<rparr>])"

definition Semaphore_TryAcquire :: "Semaphore \<Rightarrow> bool \<times> Semaphore" where
  "Semaphore_TryAcquire s =
     (if sem_held s < sem_capacity s then (True, s\<lparr>sem_held := sem_held s + 1\<rparr>) else (False, s))"

type_synonym Latch = bool

definition NewLatch :: Latch where "NewLatch = False"
definition Latch_Signal :: "Latch \<Rightarrow> Latch" where "Latch_Signal l = True"
definition Latch_Wait :: "Latch \<Rightarrow> unit list" where "Latch_Wait l = (if l then [()] else [])"
definition Latch_IsSignaled :: "Latch \<Rightarrow> bool" where "Latch_IsSignaled l = l"

definition Latch_WaitContext :: "goerror option \<Rightarrow> Latch \<Rightarrow> goerror option list" where
  "Latch_WaitContext ctx_err l = wait_or_done l ctx_err"

section \<open>Barriers\<close>

text \<open>
  A goroutine in \<open>Wait\<close>: about to add itself, about to read \<open>b.ch\<close>, waiting for a channel, the last one
  before and after closing the channel, or through.  Channels are numbered.
\<close>

datatype barrier_point = BArriving | BReading | BWaiting nat | BLast | BSwapping | BThrough

record Barrier =
  br_n :: int
  br_count :: int
  br_ch :: nat
  br_closed :: "nat list"
  br_made :: nat
  br_gos :: "barrier_point list"

definition NewBarrier :: "int \<Rightarrow> nat \<Rightarrow> Barrier" where
  "NewBarrier n k = \<lparr>br_n = n, br_count = 0, br_ch = 0, br_closed = [], br_made = 1, br_gos = replicate k BArriving\<rparr>"

text \<open>The next step of goroutine \<open>i\<close>; \<open>None\<close> when it cannot move.  Closing a closed channel is a panic.\<close>

definition barrier_next :: "nat \<Rightarrow> Barrier \<Rightarrow> Barrier option" where
  "barrier_next i b =
     (let put = (\<lambda>p b. b\<lparr>br_gos := (br_gos b)[i := p]\<rparr>)
      in if length (br_gos b) \<le> i then None
         else case br_gos b ! i of
           BArriving \<Rightarrow>
             (let count = br_count b + 1
              in Some (put (if count = br_n b then BLast else BReading) (b\<lparr>br_count := count\<rparr>)))
         | BReading \<Rightarrow> Some (put (BWaiting (br_ch b)) b)
         | BWaiting c \<Rightarrow> if c \<in> set (br_closed b) then Some (put BThrough b) else None
         | BLast \<Rightarrow> if br_ch b \<in> set (br_closed b) then None else Some (put BSwapping (b\<lparr>br_closed := br_ch b # br_closed b\<rparr>))
         | BSwapping \<Rightarrow> Some (put BThrough (b\<lparr>br_ch := br_made b, br_made := br_made b + 1, br_count := 0\<rparr>))
         | BThrough \<Rightarrow> None)"

fun barrier_run :: "nat list \<Rightarrow> Barrier \<Rightarrow> Barrier option" where
  "barrier_run [] b = Some b"
| "barrier_run (i # is) b = Option.bind (barrier_next i b) (barrier_run is)"

section \<open>Context guards\<close>

record ContextGuard =
  cg_done :: bool
  cg_cancelled :: bool

text \<open>\<open>parent_done\<close>: a context is done when it or its parent is cancelled.\<close>

definition NewContextGuard :: ContextGuard where
  "NewContextGuard = \<lparr>cg_done = False, cg_cancelled = False\<rparr>"

definition ContextGuard_Done :: "ContextGuard \<Rightarrow> bool" where "ContextGuard_Done g = cg_done g"

definition ContextGuard_Cancel :: "ContextGuard \<Rightarrow> ContextGuard" where
  "ContextGuard_Cancel g = (if cg_done g then g else g\<lparr>cg_done := True, cg_cancelled := True\<rparr>)"

definition ContextGuard_Wait :: "bool \<Rightarrow> ContextGuard \<Rightarrow> unit list" where
  "ContextGuard_Wait parent_done g = (if cg_cancelled g \<or> parent_done then [()] else [])"

section \<open>Properties\<close>

definition holds_lock :: "lock_point \<Rightarrow> bool" where
  "holds_lock p \<longleftrightarrow> p = MGranted \<or> p = MLocked \<or> p = MFailedGranted"

definition lock_inv :: "Mutex \<Rightarrow> bool" where
  "lock_inv m \<longleftrightarrow> length (filter holds_lock (mx_callers m)) = (if mx_locked m then 1 else 0)"

lemma lock_inv_step: "lock_step m m' \<Longrightarrow> lock_inv m \<Longrightarrow> lock_inv m'"
proof (induction rule: lock_step.induct)
  case (attempt i m m')
  then show ?case using count_list_update [of i "mx_callers m" holds_lock]
    by (auto simp: lock_inv_def lock_try_def Mutex_TryLock_def set_caller_def holds_lock_def split: if_splits bool.splits)
next
  case (grant i m m')
  then show ?case using count_list_update [of i "mx_callers m" holds_lock]
    by (auto simp: lock_inv_def lock_grant_def set_caller_def holds_lock_def split: if_splits lock_point.splits)
next
  case (notice i m m')
  then show ?case using count_list_update [of i "mx_callers m" holds_lock MLocked]
    by (auto simp: lock_inv_def lock_notice_def set_caller_def holds_lock_def split: if_splits)
next
  case (cancel i m m')
  then show ?case using count_list_update [of i "mx_callers m" holds_lock MFailedWaiting]
      count_list_update [of i "mx_callers m" holds_lock MFailedGranted]
    by (auto simp: lock_inv_def lock_cancel_def set_caller_def holds_lock_def split: if_splits lock_point.splits)
next
  case (drain i m m')
  then show ?case using count_list_update [of i "mx_callers m" holds_lock MFailedReleased]
    by (auto simp: lock_inv_def lock_drain_def set_caller_def holds_lock_def split: if_splits)
next
  case (unlock i m m')
  then show ?case using count_list_update [of i "mx_callers m" holds_lock MIdle]
    by (auto simp: lock_inv_def Mutex_Unlock_def set_caller_def holds_lock_def split: if_splits)
qed

text \<open>
  C34: giving up on a mutex is safe.  In every state that callers of \<open>LockContext\<close> and \<open>Unlock\<close> can
  reach, at most one caller holds the lock; a caller that gave up never does, and when its helper has
  got the lock meanwhile, the helper can give it back, after which the lock is free.
\<close>

theorem lock_context_safe:
  assumes "lock_step\<^sup>*\<^sup>* (NewMutex n) m"
  shows "length (filter (\<lambda>p. p = MLocked) (mx_callers m)) \<le> 1
    \<and> (\<forall>i < length (mx_callers m). mx_callers m ! i = MFailedGranted \<longrightarrow>
         MLocked \<notin> set (mx_callers m) \<and> (\<exists>m'. lock_drain i m = Some m' \<and> \<not> mx_locked m' \<and> lock_step m m'))"
proof -
  have "lock_inv m" using assms
  proof (induction rule: rtranclp_induct)
    case base
    show ?case by (simp add: lock_inv_def NewMutex_def holds_lock_def)
  qed (rule lock_inv_step)
  then have one: "length (filter holds_lock (mx_callers m)) \<le> 1" by (simp add: lock_inv_def)
  have "filter (\<lambda>p. p = MLocked) (mx_callers m) = filter (\<lambda>p. p = MLocked) (filter holds_lock (mx_callers m))"
    unfolding filter_filter by (rule filter_cong) (auto simp: holds_lock_def)
  then have "length (filter (\<lambda>p. p = MLocked) (mx_callers m)) \<le> 1"
    using one length_filter_le [of "\<lambda>p. p = MLocked" "filter holds_lock (mx_callers m)"] by simp
  moreover have "MLocked \<notin> set (mx_callers m)" if "i < length (mx_callers m)" "mx_callers m ! i = MFailedGranted" for i
  proof
    assume "MLocked \<in> set (mx_callers m)"
    then have "{MLocked, MFailedGranted} \<subseteq> set (filter holds_lock (mx_callers m))"
      using that by (auto simp: holds_lock_def in_set_conv_nth)
    then have "card {MLocked, MFailedGranted} \<le> length (filter holds_lock (mx_callers m))"
      by (meson card_length card_mono finite_set le_trans)
    then show False using one by simp
  qed
  moreover have "\<exists>m'. lock_drain i m = Some m' \<and> \<not> mx_locked m' \<and> lock_step m m'"
    if "i < length (mx_callers m)" "mx_callers m ! i = MFailedGranted" for i
    using that lock_step.drain [OF that(1)] by (simp add: lock_drain_def set_caller_def)
  ultimately show ?thesis by blast
qed

theorem lock_context_safe_witness:
  "\<exists>m. lock_step\<^sup>*\<^sup>* (NewMutex 2) m \<and> mx_callers m = [MIdle, MFailedGranted]
     \<and> (\<exists>m'. lock_drain 1 m = Some m' \<and> \<not> mx_locked m' \<and> lock_step m m')"
proof -
  let ?m = "\<lambda>l a b. \<lparr>mx_locked = l, mx_callers = [a, b]\<rparr>"
  note defs = lock_try_def lock_grant_def lock_cancel_def Mutex_Unlock_def Mutex_TryLock_def set_caller_def
  have s1: "lock_step (?m False MIdle MIdle) (?m True MLocked MIdle)" by (rule lock_step.attempt [of 0]) (simp_all add: defs)
  have s2: "lock_step (?m True MLocked MIdle) (?m True MLocked MWaiting)" by (rule lock_step.attempt [of 1]) (simp_all add: defs)
  have s3: "lock_step (?m True MLocked MWaiting) (?m True MLocked MFailedWaiting)" by (rule lock_step.cancel [of 1]) (simp_all add: defs)
  have s4: "lock_step (?m True MLocked MFailedWaiting) (?m False MIdle MFailedWaiting)" by (rule lock_step.unlock [of 0]) (simp_all add: defs)
  have s5: "lock_step (?m False MIdle MFailedWaiting) (?m True MIdle MFailedGranted)" by (rule lock_step.grant [of 1]) (simp_all add: defs)
  have n: "NewMutex 2 = ?m False MIdle MIdle" by (simp add: NewMutex_def numeral_2_eq_2)
  note step = converse_rtranclp_into_rtranclp [of lock_step]
  have run: "lock_step\<^sup>*\<^sup>* (NewMutex 2) (?m True MIdle MFailedGranted)"
    unfolding n by (rule step [OF s1 step [OF s2 step [OF s3 step [OF s4 step [OF s5 rtranclp.rtrancl_refl]]]]])
  from lock_context_safe [OF run] have "\<exists>m'. lock_drain 1 (?m True MIdle MFailedGranted) = Some m' \<and> \<not> mx_locked m'
      \<and> lock_step (?m True MIdle MFailedGranted) m'" by simp
  then show ?thesis using run by (intro exI [of _ "?m True MIdle MFailedGranted"]) simp
qed

definition stranding_schedule :: "nat list" where
  "stranding_schedule = [0, 1, 1, 1, 0]"

text \<open>
  A barrier can strand a goroutine.  Two goroutines meet at a barrier for two; the first has
  added itself but not yet read the channel when the second closes it and installs a new one: the
  first then waits for the new channel, the second is through, and no step is possible any more.
\<close>

theorem barrier_strands_goroutine:
  "\<exists>b. barrier_run stranding_schedule (NewBarrier 2 2) = Some b \<and> br_gos b = [BWaiting 1, BThrough]
     \<and> 1 \<notin> set (br_closed b) \<and> list_all (\<lambda>i. barrier_next i b = None) [0..<length (br_gos b)]"
  by (simp add: stranding_schedule_def NewBarrier_def barrier_next_def Let_def numeral_2_eq_2)

text \<open>When every other goroutine has read the channel before the last one arrives, all get through.\<close>

lemma barrier_last_releases:
  assumes "i < length (br_gos b)" and "br_gos b ! i = BArriving" and "br_count b + 1 = br_n b"
    and "br_ch b \<notin> set (br_closed b)"
  shows "\<exists>b'. barrier_run [i, i, i] b = Some b' \<and> br_gos b' = (br_gos b)[i := BThrough] \<and> br_count b' = 0
    \<and> br_ch b \<in> set (br_closed b')"
  using assms by (simp add: barrier_next_def Let_def)

lemma barrier_released_through:
  "i < length (br_gos b) \<Longrightarrow> br_gos b ! i = BWaiting c \<Longrightarrow> c \<in> set (br_closed b) \<Longrightarrow>
     barrier_next i b = Some (b\<lparr>br_gos := (br_gos b)[i := BThrough]\<rparr>)"
  by (simp add: barrier_next_def Let_def)

lemma semaphore_bound:
  "sem_held s \<le> sem_capacity s \<Longrightarrow> (err, s') \<in> set (Semaphore_Acquire ctx_err s) \<Longrightarrow>
     sem_held s' \<le> sem_capacity s' \<and> sem_capacity s' = sem_capacity s"
  by (auto simp: Semaphore_Acquire_def split: if_splits option.splits)

end
