(* ===== verification/Spec2Isabelle.thy ===== *)
theory Spec2Isabelle
  imports ConfigIO SourceWatch Pool Reflectutil Sync
begin

text \<open>
  A verification development for go-config, a configuration library in Go.

  \<^bold>\<open>The program.\<close>  A configuration (package config, \<^verbatim>\<open>config.go\<close>) owns an engine (\<^verbatim>\<open>core/state.go\<close>), a
  snapshot manager (\<^verbatim>\<open>snapshot/snapshot.go\<close>) and a list of sources (\<^verbatim>\<open>source/source.go\<close>).  The engine
  holds an immutable state, a map from dotted keys to values with a version, and replaces it as a
  whole: loading asks every source, merges what they return by priority (\<^verbatim>\<open>merge/merge.go\<close>), runs the
  hooks, stores the new state and notifies the observers (\<^verbatim>\<open>core/observer.go\<close>) of the difference.  File
  sources read YAML, TOML and JSON (\<^verbatim>\<open>confparser/parser.go\<close>).  Beside the engine stand the loaders
  (\<^verbatim>\<open>loader/loader.go\<close>), which combine sources in other ways, the validators
  (\<^verbatim>\<open>validate/validate.go\<close>), the binder from keys to structs (\<^verbatim>\<open>bind/bind.go\<close>), the watchers
  (\<^verbatim>\<open>watch/watch.go\<close>), the exporters (\<^verbatim>\<open>export/export.go\<close>), the encryption
  of values (\<^verbatim>\<open>confcrypto/crypto.go\<close>), and the helpers under \<^verbatim>\<open>internal/\<close>.

  \<^bold>\<open>The theories.\<close>
  \<^item> Prelude: Go maps as association lists with distinct keys (one list for each iteration order),
    their copy and range loops, machine integers as 64-bit words, the collections of lemmas.
  \<^item> GoFloat, GoStd, GoTime, GoText, GoUtf8, GoFmt: what the code uses of Go's floats, strings, strconv,
    time, utf8 and fmt, and lemmas about trimming, splitting and joining text.  GoReflect: Go types and
    values, and what reflect offers on them.
  \<^item> Types (\<^verbatim>\<open>types/types.go\<close>): the dynamic values \<open>any\<close>, \<open>Value\<close> and its accessors, events, errors.
  \<^item> KeyPath: splitting keys at dots, inserting along a path (\<^verbatim>\<open>State.insertIndexed\<close>), flattening nested
    maps (\<^verbatim>\<open>confparser.Flatten\<close>); flattening reads exactly the leaves.
  \<^item> Merge (\<^verbatim>\<open>merge/merge.go\<close>): the four strategies, the sort order, the conflict resolver.
  \<^item> Observers (\<^verbatim>\<open>core/observer.go\<close>): subscriptions with bounded queues and one goroutine each, as a
    labelled step relation with reachable states.
  \<^item> Engine (\<^verbatim>\<open>core/state.go\<close>): states, hooks, update, load, the events of an update, close.
  \<^item> Snapshot (\<^verbatim>\<open>snapshot/snapshot.go\<close>): the manager with its binary searches, checksum, diff, store.
  \<^item> Parser (\<^verbatim>\<open>confparser/parser.go\<close>): the YAML and TOML parsers line by line, scalars, JSON numbers.
  \<^item> Source (\<^verbatim>\<open>source/source.go\<close>): the sources and their options, path resolution.
  \<^item> Loader (\<^verbatim>\<open>loader/loader.go\<close>): the pooled, lazy, concurrent, chained and cached loaders.
  \<^item> Validate (\<^verbatim>\<open>validate/validate.go\<close>): validators, plans, the builder, struct tags.
  \<^item> Export (\<^verbatim>\<open>export/export.go\<close>): the documents in YAML, TOML, JSON and environment form, the registry.
  \<^item> Crypto (\<^verbatim>\<open>confcrypto/crypto.go\<close>): keys, the encryptors, values sealed and carried as base64.
  \<^item> SourceWatch (\<^verbatim>\<open>source/source.go\<close>): the polling watcher of a file source, its \<open>Watch\<close> and \<open>Close\<close>.
  \<^item> Config (\<^verbatim>\<open>config.go\<close>): the facade: construction, reads, updates, snapshots, templates.
  \<^item> ConfigIO (\<^verbatim>\<open>config.go\<close>): the facade's binding, export, files, encryption, hot reload, global instance.
  \<^item> Bind, BindSafety (\<^verbatim>\<open>bind/bind.go\<close>): the binder with its field cache, the schema; why it cannot panic.
  \<^item> Watch, WatchGroup (\<^verbatim>\<open>watch/watch.go\<close>): the file watcher, the debouncer, the multi watcher and the
    manager, their goroutines as step relations.
  \<^item> Pool (\<^verbatim>\<open>internal/pool/pool.go\<close>), Reflectutil (\<^verbatim>\<open>internal/reflectutil/reflectutil.go\<close>) and Sync
    (\<^verbatim>\<open>internal/syncutil/syncutil.go\<close>): pools and buffers on a store, the reflection helpers, the
    synchronisation primitives with the goroutines that use them.

  \<^bold>\<open>How code becomes definitions.\<close>  A definition has the name of its function, prefixed with the type
  where two functions share a name.  A struct is a record; an operation takes the state and returns
  it changed.  A panic is the value \<open>None\<close>; an error is a value of type \<open>goerror\<close>, in a sum or an
  option.  A nil map is \<open>None\<close>.  Hooks, sources, fetchers and files act on a world of type \<open>'w\<close>, a
  parameter that is threaded through in the order of the calls; the clock is an argument.  Third-party
  and system code (the JSON decoder, regular expressions, Unicode tables, the file system) is a
  parameter of the definitions that use it.

  \<^bold>\<open>What is shown.\<close>
  \<^item> Config: each operation refines an abstract map with snapshots, for every sequence of operations
    on a configuration that \<open>New\<close> returns (\<open>config_refines_map\<close>, by simulation); typed readback,
    closing, cloning and templates; the lost update of two interleaved calls of \<open>Set\<close>.
  \<^item> Engine: versions are consecutive in every run, updates and loads by case, the events of an update
    replay it, the nested view loses nothing.
  \<^item> Observers: what a subscriber sees is a subsequence of what was notified, queues stay bounded, the
    wait in \<open>Close\<close> ends, and exactly when \<open>Notify\<close> can panic.
  \<^item> Merge, Loader, Source: every way of combining sources is the priority merge or the last-wins
    merge; which value wins is stated without reference to the loops.
  \<^item> Snapshot: the searches are lookups, the bound keeps the latest, pruning, difference, checksum.
  \<^item> Parser: block documents are read back at every depth; the only panic is on a lone quote.
  \<^item> Validate: plans report exactly the violations; tags and validators correspond.
  \<^item> Export, Crypto: exported YAML and environment text and encrypted values are read back.
  \<^item> Bind: the type of the target is kept and binding cannot panic, with the side conditions this needs;
    a flat struct is bound field by field; the metadata cache does not show; narrow integers are cut.
  \<^item> Watch, WatchGroup, SourceWatch: queues stay bounded, emitted changes are quiet, reported times
    increase; when a goroutine or \<open>Stop\<close> can panic, and when \<open>Stop\<close> waits for ever.
  \<^item> Pool: buffers over a shared pool refine independent byte strings.  Sync: giving up on a mutex is safe.
  \<^item> ConfigIO and below, across components: a YAML document in a file is read key by key through the
    facade, an export is a configuration file again, a changed file is reloaded, binding a struct
    agrees with the getters.

  \<^bold>\<open>Interfaces.\<close>  The locales of the development: \<open>conflict_rule\<close> (Merge), a rule that picks one of
  several values of a key; \<open>event_sink\<close> (Observers), what the engine relies on when it notifies;
  \<open>config_source\<close> (Source), a source whose values have one type and priority; \<open>snapshot_store\<close>
  (Snapshot), save, load and delete; \<open>scalar_text\<close> (Parser), a way of printing scalars that the YAML
  parser reads back, for the plain printer and for the exporter's.  Each is interpreted on the model's definitions and the
  properties rest on the facts of the interpretations.

  \<^bold>\<open>Bounds.\<close>  No definition has fuel of its own.  \<open>template\<close> recurses over \<open>maxTemplateDepth\<close>, which is the
  code's constant 16, and the length of the text; the binary searches recurse over the width of the
  range; versions and snapshot ids are 64-bit words that wrap, so results about ids assume fewer than
  2 to the 64 takes.

  \<^bold>\<open>Not modelled.\<close>  The JSON decoder and encoder, AES-GCM, SHA-256, regular expressions, the Unicode
  tables, the file system and the clock, which are parameters; the context
  helpers of the facade, which only wrap \<open>context.WithValue\<close>; accessors that return a field.  Each
  operation is one atomic step, except where a theory says otherwise: the goroutines of observers,
  watchers, debouncers, mutexes and barriers, the concurrent loader and the two steps of \<open>Set\<close>.  The
  sources of a configuration are closed as unwatched ones.
\<close>

section \<open>From a file to a getter\<close>

text \<open>
  C4: a YAML file is read key by key.  When the file at the resolved path holds the block document
  of a nested map with clean keys, \<open>New\<close> with that one file succeeds without touching the world, and
  the configuration has exactly the leaves of the map, under their dotted paths, as file values of
  priority 10; a path that leads to a block or to nothing is not set.
\<close>

theorem yaml_file_to_get:
  assumes "yaml_ok yaml_leaf m" and "nested_ok m"
    and "resolve path = Inr p" and "DetectFormat p = FormatYAML" and "read_file w p = Inr (yaml_text yaml_scalar m)"
  shows "\<exists>c. New now [WithFile decode read_file resolve path []] w = Some (Inr c, w)
    \<and> (\<forall>key v. Get c key = (v, True) \<longleftrightarrow>
         (\<exists>ps x. key = dotted ps \<and> leaf_at ps m = Some x \<and> v = NewValue x (inferType x) SourceFile 10))"
proof -
  have "yamlParse (yaml_text yaml_scalar m) = Some m" by (rule plain_yaml.yaml_read_back [OF assms(1)])
  with New_yaml_file [where read_file = read_file and resolve = resolve and path = path, OF assms(3-5)]
  obtain c where c: "New now [WithFile decode read_file resolve path []] w = Some (Inr c, w)"
    "cfg_data c = values_of SourceFile 10 m" by blast
  have "Get c key = (v, True) \<longleftrightarrow>
      (\<exists>x. mget (Flatten m []) key = Some x \<and> v = NewValue x (inferType x) SourceFile 10)" for key v
    by (auto simp: Get_iff c(2) values_of_map)
  then show ?thesis using c(1) unfolding mget_Flatten_iff [OF assms(2)]
    by (intro exI [of _ c]) blast
qed

theorem yaml_file_to_get_witness:
  "\<exists>c. New 0 [WithFile (\<lambda>_. Inr None)
        (\<lambda>w f. Inr (yaml_text yaml_scalar [(''db'', AMap [(''port'', AInt 5432)])])) Inr ''app.yaml'' []] (0 :: nat) = Some (Inr c, 0)
     \<and> Get c ''db.port'' = (NewValue (AInt 5432) TypeInt SourceFile 10, True)"
proof -
  let ?m = "[(''db'', AMap [(''port'', AInt 5432)])]"
  let ?read = "(\<lambda>w f. Inr (yaml_text yaml_scalar ?m)) :: nat \<Rightarrow> string \<Rightarrow> goerror + string"
  have ok: "yaml_ok yaml_leaf ?m" by (simp add: yaml_key_def plain_char_def byte_def newline_def)
  have n: "nested_ok ?m" by (simp add: clean_part_def)
  have f: "DetectFormat ''app.yaml'' = FormatYAML" by code_simp
  obtain c where c: "New 0 [WithFile (\<lambda>_. Inr None) ?read Inr ''app.yaml'' []] 0 = Some (Inr c, 0)"
    and g: "\<forall>key v. Get c key = (v, True) \<longleftrightarrow>
         (\<exists>ps x. key = dotted ps \<and> leaf_at ps ?m = Some x \<and> v = NewValue x (inferType x) SourceFile 10)"
    using yaml_file_to_get [where m = ?m and resolve = Inr and read_file = ?read and w = 0 and path = "''app.yaml''"
        and p = "''app.yaml''" and decode = "\<lambda>_. Inr None" and now = 0, OF ok n refl f] by auto
  have "Get c ''db.port'' = (NewValue (AInt 5432) TypeInt SourceFile 10, True)"
    unfolding g [rule_format]
    by (intro exI [of _ "[''db'', ''port'']"] exI [of _ "AInt 5432"]) (simp add: submap_def)
  then show ?thesis using c by blast
qed

end
